(* ===== verification/Prelude.thy ===== *)
theory Prelude
  imports Main "HOL-Library.Char_ord" "HOL-Library.List_Lexorder" "HOL-Library.Multiset"
    "HOL-Library.Sublist"
begin

text \<open>
  Shared material: the parts of the Go standard library the operator's code uses on
  strings, paths and maps, the names that are common to every component, and the generic
  lemmas about lists the component theories rest on.

  A Go string is a sequence of bytes and is modelled as \<^typ>\<open>string\<close>, one
  \<^typ>\<open>char\<close> per byte, so \<open>length\<close> is Go's \<open>len\<close> and the order that
  \<open>List_Lexorder\<close> and \<open>Char_ord\<close> give is the byte order of \<open>strings.Compare\<close>.
  A Go \<open>map[string]string\<close> is an association list with distinct keys: the list is the
  (unspecified) iteration order, and \<open>map_of\<close> is the lookup.
\<close>

named_theorems go_simps \<open>evaluation of the modelled Go library functions\<close>
named_theorems pass_defs \<open>definitions unfolded when a reconcile pass is analysed\<close>

section \<open>Names\<close>

text \<open>\<open>types.NamespacedName\<close> and its \<open>String\<close>.\<close>

record namespaced_name =
  nn_namespace :: string
  nn_name :: string

definition nn_string :: "namespaced_name \<Rightarrow> string" where
  "nn_string n = nn_namespace n @ ''/'' @ nn_name n"

definition nn_zero :: namespaced_name where
  "nn_zero = \<lparr>nn_namespace = '''', nn_name = ''''\<rparr>"

type_synonym go_map = "(string \<times> string) list"

text \<open>\<open>m[k]\<close> on a Go map: the zero value when the key is absent.\<close>

definition map_get :: "go_map \<Rightarrow> string \<Rightarrow> string" where
  "map_get m k = (case map_of m k of None \<Rightarrow> '''' | Some v \<Rightarrow> v)"

text \<open>Times are nanoseconds since the Unix epoch, durations are nanoseconds.\<close>

type_synonym time = int
type_synonym duration = int

definition second :: duration where "second = 1000000000"
definition minute :: duration where "minute = 60 * second"

section \<open>The string functions of the Go standard library\<close>

text \<open>\<open>strings.Cut\<close> with a one-byte separator.\<close>

definition cut :: "string \<Rightarrow> char \<Rightarrow> string \<times> string \<times> bool" where
  "cut s c = (takeWhile (\<lambda>x. x \<noteq> c) s, drop 1 (dropWhile (\<lambda>x. x \<noteq> c) s), c \<in> set s)"

text \<open>\<open>strings.CutPrefix\<close>: the whole string comes back when the prefix is not there.\<close>

definition cut_prefix :: "string \<Rightarrow> string \<Rightarrow> string \<times> bool" where
  "cut_prefix s p = (if take (length p) s = p then (drop (length p) s, True) else (s, False))"

definition trim_suffix :: "string \<Rightarrow> string \<Rightarrow> string" where
  "trim_suffix s p = (if suffix p s then take (length s - length p) s else s)"

text \<open>
  \<open>strings.TrimSpace\<close> removes the code points of \<open>unicode.IsSpace\<close>; listed here are
  their UTF-8 encodings, the six ASCII ones first.
\<close>

definition space_encodings :: "string list" where
  "space_encodings =
     [[CHR 0x09], [CHR 0x0A], [CHR 0x0B],
      [CHR 0x0C], [CHR 0x0D], [CHR 0x20],
      [CHR 0xC2, CHR 0x85], [CHR 0xC2, CHR 0xA0], [CHR 0xE1, CHR 0x9A, CHR 0x80],
      [CHR 0xE2, CHR 0x80, CHR 0x80], [CHR 0xE2, CHR 0x80, CHR 0x81], [CHR 0xE2, CHR 0x80, CHR 0x82],
      [CHR 0xE2, CHR 0x80, CHR 0x83], [CHR 0xE2, CHR 0x80, CHR 0x84], [CHR 0xE2, CHR 0x80, CHR 0x85],
      [CHR 0xE2, CHR 0x80, CHR 0x86], [CHR 0xE2, CHR 0x80, CHR 0x87], [CHR 0xE2, CHR 0x80, CHR 0x88],
      [CHR 0xE2, CHR 0x80, CHR 0x89], [CHR 0xE2, CHR 0x80, CHR 0x8A], [CHR 0xE2, CHR 0x80, CHR 0xA8],
      [CHR 0xE2, CHR 0x80, CHR 0xA9], [CHR 0xE2, CHR 0x80, CHR 0xAF], [CHR 0xE2, CHR 0x81, CHR 0x9F],
      [CHR 0xE3, CHR 0x80, CHR 0x80]]"

function trim_left_of :: "string list \<Rightarrow> string \<Rightarrow> string" where
  "trim_left_of ws s =
     (case find (\<lambda>w. w \<noteq> [] \<and> prefix w s) ws of
        None \<Rightarrow> s
      | Some w \<Rightarrow> trim_left_of ws (drop (length w) s))"
  by pat_completeness auto
termination
proof (relation "measure (\<lambda>(ws, s). length s)")
  fix ws :: "string list" and s w :: string
  assume "find (\<lambda>w. w \<noteq> [] \<and> prefix w s) ws = Some w"
  then have "w \<noteq> []" and "prefix w s" by (auto simp: find_Some_iff)
  then have "0 < length w" and "length w \<le> length s" by (auto dest: prefix_length_le)
  then have "length s - length w < length s" by linarith
  then show "((ws, drop (length w) s), ws, s) \<in> measure (\<lambda>(ws, s). length s)" by simp
qed simp

declare trim_left_of.simps [simp del]

definition trim_space :: "string \<Rightarrow> string" where
  "trim_space s = rev (trim_left_of (map rev space_encodings)
                        (rev (trim_left_of space_encodings s)))"

fun join_with :: "string \<Rightarrow> string list \<Rightarrow> string" where
  "join_with sep [] = ''''"
| "join_with sep [x] = x"
| "join_with sep (x # y # ys) = x @ sep @ join_with sep (y # ys)"

fun split_on :: "char \<Rightarrow> string \<Rightarrow> string list" where
  "split_on c [] = [[]]"
| "split_on c (x # xs) =
     (if x = c then [] # split_on c xs
      else (case split_on c xs of [] \<Rightarrow> [[x]] | y # ys \<Rightarrow> (x # y) # ys))"

definition upper_chars :: string where "upper_chars = ''ABCDEFGHIJKLMNOPQRSTUVWXYZ''"
definition lower_chars :: string where "lower_chars = ''abcdefghijklmnopqrstuvwxyz''"
definition digit_chars :: string where "digit_chars = ''0123456789''"

text \<open>\<open>strings.ToLower\<close>, on ASCII text (the only text it is applied to is base32).\<close>

definition to_lower :: "string \<Rightarrow> string" where
  "to_lower = map (\<lambda>c. case map_of (zip upper_chars lower_chars) c of None \<Rightarrow> c | Some d \<Rightarrow> d)"

text \<open>\<open>%d\<close> of a non-negative integer.\<close>

fun show_nat :: "nat \<Rightarrow> string" where
  "show_nat n = (if n < 10 then [digit_chars ! n] else show_nat (n div 10) @ [digit_chars ! (n mod 10)])"

declare show_nat.simps [simp del]

text \<open>\<open>path.Clean\<close> and \<open>path.Join\<close>: lexical processing of the segments.\<close>

fun clean_segments :: "bool \<Rightarrow> string list \<Rightarrow> string list \<Rightarrow> string list" where
  "clean_segments rooted out [] = rev out"
| "clean_segments rooted out (s # ss) =
     (if s = '''' \<or> s = ''.'' then clean_segments rooted out ss
      else if s = ''..'' then
        (case out of
           [] \<Rightarrow> clean_segments rooted (if rooted then [] else [s]) ss
         | t # ts \<Rightarrow> if t = ''..'' then clean_segments rooted (s # out) ss
                    else clean_segments rooted ts ss)
      else clean_segments rooted (s # out) ss)"

definition path_clean :: "string \<Rightarrow> string" where
  "path_clean p =
     (let rooted = (p \<noteq> [] \<and> hd p = CHR ''/'');
          cleaned = join_with ''/'' (clean_segments rooted [] (split_on (CHR ''/'') p))
      in if rooted then CHR ''/'' # cleaned else if cleaned = '''' then ''.'' else cleaned)"

definition path_join :: "string list \<Rightarrow> string" where
  "path_join ps = (case filter (\<lambda>p. p \<noteq> '''') ps of [] \<Rightarrow> '''' | qs \<Rightarrow> path_clean (join_with ''/'' qs))"

section \<open>Generic lemmas\<close>

lemma cut_prefix_append [simp]: "cut_prefix (p @ s) p = (s, True)"
  by (simp add: cut_prefix_def)

lemma cut_prefix_True: "cut_prefix s p = (t, True) \<longleftrightarrow> s = p @ t"
  by (auto simp: cut_prefix_def split: if_splits) (metis append_take_drop_id)

lemma cut_prefix_False: "cut_prefix s p = (t, False) \<longleftrightarrow> t = s \<and> \<not> prefix p s"
  by (auto simp: cut_prefix_def prefix_def split: if_splits) (metis append_take_drop_id)

lemma takeWhile_stop [simp]: "c \<notin> set s \<Longrightarrow> takeWhile (\<lambda>x. x \<noteq> c) (s @ c # t) = s"
  by (induction s) auto

lemma dropWhile_stop [simp]: "c \<notin> set s \<Longrightarrow> dropWhile (\<lambda>x. x \<noteq> c) (s @ c # t) = c # t"
  by (induction s) auto

lemma cut_append [simp]: "c \<notin> set s \<Longrightarrow> cut (s @ c # t) c = (s, t, True)"
  by (simp add: cut_def)

lemma cut_found: "cut s c = (a, b, True) \<longleftrightarrow> s = a @ c # b \<and> c \<notin> set a"
proof
  assume cut: "cut s c = (a, b, True)"
  then have "c \<in> set s" by (simp add: cut_def)
  then obtain u v where "s = u @ c # v" "c \<notin> set u" by (meson split_list_first)
  with cut show "s = a @ c # b \<and> c \<notin> set a" by simp
qed auto

lemma nn_string_inj:
  assumes "CHR ''/'' \<notin> set (nn_namespace a)" "CHR ''/'' \<notin> set (nn_namespace b)"
    and "nn_string a = nn_string b"
  shows "a = b"
proof -
  from assms(3) have "nn_namespace a @ CHR ''/'' # nn_name a = nn_namespace b @ CHR ''/'' # nn_name b"
    by (simp add: nn_string_def)
  with assms(1,2) have "nn_namespace a = nn_namespace b" "nn_name a = nn_name b"
    by (metis cut_append fst_conv, metis cut_append fst_conv snd_conv)
  then show ?thesis by (simp add: namespaced_name.equality)
qed

lemma slash_in_nn_string [simp]: "CHR ''/'' \<in> set (nn_string n)"
  by (simp add: nn_string_def)

text \<open>
  A sort on distinct keys has one result whatever the sort and the input order: this is what
  makes \<open>slices.SortFunc\<close>, which is not stable, a function of the elements.
\<close>

lemma sort_key_permuted:
  fixes f :: "'a \<Rightarrow> 'k :: linorder"
  assumes "mset xs = mset ys" and "inj_on f (set xs)"
  shows "sort_key f xs = sort_key f ys"
  by (rule sort_key_inj_key_eq) (use assms in \<open>auto simp: sorted_sort_key\<close>)

lemma map_of_mset_eq:
  assumes "mset xs = mset ys" and "distinct (map fst xs)"
  shows "map_of xs = map_of ys"
proof -
  from assms have "distinct (map fst ys)" by (metis mset_map mset_eq_imp_distinct_iff)
  moreover from assms have "set xs = set ys" by (metis set_mset_mset)
  ultimately show ?thesis using assms by (metis map_of_inject_set)
qed

lemma mset_map_filter: "mset xs = mset ys \<Longrightarrow> mset (List.map_filter f xs) = mset (List.map_filter f ys)"
  by (simp add: List.map_filter_def)

lemma set_map_filter_iff: "y \<in> set (List.map_filter f xs) \<longleftrightarrow> (\<exists>x \<in> set xs. f x = Some y)"
  by (force simp: List.map_filter_def)

end
