(* ===== verification/Names.thy ===== *)
theory Names
  imports Prelude
begin

text \<open>
  The two name checks of \<open>k8s.io/apimachinery/pkg/util/validation\<close> the operator calls. They
  are not code of this repository, so they are parameters (the fields of \<open>validation\<close>, each
  returning the list of complaints as the Go functions do), and what the operator relies on is
  the locale \<open>dns_names\<close>. \<open>rfc1123\<close> is the documented rule written out; it interprets
  the locale and instantiates the parameter in witnesses.
\<close>

record validation =
  is_dns1123_label :: "string \<Rightarrow> string list"
  is_dns1123_subdomain :: "string \<Rightarrow> string list"

definition lower_alnum :: "char \<Rightarrow> bool" where
  "lower_alnum c \<longleftrightarrow> c \<in> set lower_chars \<or> c \<in> set digit_chars"

definition label_char :: "char \<Rightarrow> bool" where
  "label_char c \<longleftrightarrow> lower_alnum c \<or> c = CHR ''-''"

text \<open>The regular expression \<open>[a-z0-9]([-a-z0-9]*[a-z0-9])?\<close>.\<close>

definition dns_word :: "string \<Rightarrow> bool" where
  "dns_word s \<longleftrightarrow> s \<noteq> [] \<and> lower_alnum (hd s) \<and> lower_alnum (last s) \<and> (\<forall>c \<in> set s. label_char c)"

definition rfc1123_label :: "string \<Rightarrow> bool" where
  "rfc1123_label s \<longleftrightarrow> dns_word s \<and> length s \<le> 63"

definition rfc1123_subdomain :: "string \<Rightarrow> bool" where
  "rfc1123_subdomain s \<longleftrightarrow> length s \<le> 253 \<and> list_all dns_word (split_on (CHR ''.'') s)"

definition rfc1123 :: validation where
  "rfc1123 =
     \<lparr>is_dns1123_label = (\<lambda>s. if rfc1123_label s then [] else [''a lowercase RFC 1123 label'']),
      is_dns1123_subdomain = (\<lambda>s. if rfc1123_subdomain s then [] else [''a lowercase RFC 1123 subdomain''])\<rparr>"

lemma lower_alnum_simps [simp]:
  "\<not> lower_alnum (CHR ''/'')" "\<not> lower_alnum (CHR ''.'')" "\<not> lower_alnum (CHR ''-'')"
  by (simp_all add: lower_alnum_def lower_chars_def digit_chars_def)

lemma label_char_simps [simp]:
  "\<not> label_char (CHR ''/'')" "\<not> label_char (CHR ''.'')" "label_char (CHR ''-'')"
  by (simp_all add: label_char_def)

lemma lower_alnum_label [simp, intro]: "lower_alnum c \<Longrightarrow> label_char c"
  by (simp add: label_char_def)

lemma char_interval:
  "of_nat lo \<le> (of_char c :: nat) \<and> (of_char c :: nat) \<le> of_nat hi \<longleftrightarrow> c \<in> set (map char_of [lo ..< Suc hi])"
  if "hi < 256"
proof -
  have "c = char_of (of_char c :: nat)" by simp
  moreover have "\<And>n. n \<in> {lo ..< Suc hi} \<Longrightarrow> (of_char (char_of n :: char) :: nat) = n"
    using that by simp
  ultimately show ?thesis by (auto simp del: char_of_char)
qed

lemma lower_range: "CHR ''a'' \<le> c \<and> c \<le> CHR ''z'' \<longleftrightarrow> c \<in> set lower_chars"
proof -
  have "lower_chars = map char_of [97 ..< Suc 122]" by code_simp
  then show ?thesis using char_interval [of 122 97 c] by (simp add: less_eq_char_def)
qed

lemma digit_range: "CHR ''0'' \<le> c \<and> c \<le> CHR ''9'' \<longleftrightarrow> c \<in> set digit_chars"
proof -
  have "digit_chars = map char_of [48 ..< Suc 57]" by code_simp
  then show ?thesis using char_interval [of 57 48 c] by (simp add: less_eq_char_def)
qed

lemma split_on_ne [simp]: "split_on c s \<noteq> []"
  by (induction s) (auto split: list.splits)

lemma set_split_on: "set s \<subseteq> insert c (\<Union> (set ` set (split_on c s)))"
proof (induction s)
  case (Cons x s)
  then show ?case by (cases "split_on c s") auto
qed simp

lemma no_sep_split_on: "w \<in> set (split_on c s) \<Longrightarrow> c \<notin> set w"
  by (induction s arbitrary: w) (auto split: list.splits if_splits)

lemma split_on_append: "split_on c (a @ c # b) = split_on c a @ split_on c b"
proof (induction a)
  case (Cons x a)
  then show ?case by (cases "split_on c a") auto
qed simp

lemma split_on_no_sep [simp]: "c \<notin> set s \<Longrightarrow> split_on c s = [s]"
  by (induction s) auto

lemma dns_word_no_sep: "dns_word s \<Longrightarrow> CHR ''/'' \<notin> set s \<and> CHR ''.'' \<notin> set s"
  by (auto simp: dns_word_def)

lemma subdomain_no_slash: "rfc1123_subdomain s \<Longrightarrow> s \<noteq> [] \<and> CHR ''/'' \<notin> set s"
proof -
  assume s: "rfc1123_subdomain s"
  then have w: "\<forall>w \<in> set (split_on (CHR ''.'') s). dns_word w"
    by (simp add: rfc1123_subdomain_def list_all_iff)
  moreover have "set s \<subseteq> insert (CHR ''.'') (\<Union> (set ` set (split_on (CHR ''.'') s)))"
    using set_split_on by blast
  moreover from w have "s \<noteq> []" by (auto simp: dns_word_def)
  ultimately show ?thesis by (auto dest: dns_word_no_sep)
qed

section \<open>What the operator relies on\<close>

locale dns_names =
  fixes label subdomain :: "string \<Rightarrow> string list"
  assumes label_ok: "label s = [] \<Longrightarrow> rfc1123_label s"
    and subdomain_ok: "subdomain s = [] \<Longrightarrow> rfc1123_subdomain s"
begin

lemma label_no_slash: "label s = [] \<Longrightarrow> s \<noteq> [] \<and> CHR ''/'' \<notin> set s"
  using label_ok [of s] dns_word_no_sep [of s] by (auto simp: rfc1123_label_def dns_word_def)

lemma subdomain_no_sep: "subdomain s = [] \<Longrightarrow> s \<noteq> [] \<and> CHR ''/'' \<notin> set s"
  using subdomain_ok subdomain_no_slash by blast

end

interpretation rfc: dns_names "is_dns1123_label rfc1123" "is_dns1123_subdomain rfc1123"
  by unfold_locales (auto simp: rfc1123_def split: if_splits)

end
