(* ===== verification/Request.thy ===== *)
theory Request
  imports Names
begin

text \<open>
  \<open>api/v1alpha1/request.go\<close>: what a ServiceAccount's annotations ask of one operator. The data
  types, \<open>RequestsFor\<close> with its parse and its two checks, and the two questions every
  destruction is decided by, \<open>Unreadable\<close> and \<open>NoLongerAsked\<close>.
\<close>

section \<open>Data\<close>

record request =
  req_operator :: namespaced_name
  req_name :: string

definition request_string :: "request \<Rightarrow> string" where
  "request_string r = (if req_name r = '''' then nn_string (req_operator r) else req_name r)"

text \<open>Why a key would not read, with the values its message is formatted from.\<close>

datatype refusal_error =
    NamesNoIdentity string
  | NameTooLong string nat nat
  | NameHolds string string \<comment> \<open>the key, and the name from the offending character on\<close>
  | NotAnOperator string string

record refusal =
  rf_key :: string
  rf_err :: refusal_error

record requested =
  understood :: "request list"
  refused :: "refusal list"

section \<open>Keys\<close>

definition ServicePrincipalAnnotation :: string where
  "ServicePrincipalAnnotation = ''databricks.workload-identity.io/service-principal''"

definition service_principal_key_prefix :: string where
  "service_principal_key_prefix = ServicePrincipalAnnotation @ ''.''"

definition identity_name_limit :: nat where "identity_name_limit = 45"

definition service_principal_annotation_for :: "string \<Rightarrow> string" where
  "service_principal_annotation_for identity =
     (if identity = '''' then ServicePrincipalAnnotation
      else service_principal_key_prefix @ identity)"

section \<open>Parsing one key\<close>

text \<open>The loop over the name's characters; \<open>i\<close> is the index, \<open>n\<close> the name's length.\<close>

fun scan_name :: "string \<Rightarrow> nat \<Rightarrow> nat \<Rightarrow> string \<Rightarrow> refusal_error option" where
  "scan_name key i n [] = None"
| "scan_name key i n (r # rs) =
     (if (CHR ''a'' \<le> r \<and> r \<le> CHR ''z'') \<or> (CHR ''0'' \<le> r \<and> r \<le> CHR ''9'')
      then scan_name key (Suc i) n rs
      else if r = CHR ''-'' \<and> 0 < i \<and> Suc i < n then scan_name key (Suc i) n rs
      else Some (NameHolds key (r # rs)))"

definition valid_identity_name :: "string \<Rightarrow> string \<Rightarrow> refusal_error option" where
  "valid_identity_name key name =
     (if name = '''' then Some (NamesNoIdentity key)
      else if identity_name_limit < length name
        then Some (NameTooLong key (length name) identity_name_limit)
      else scan_name key 0 (length name) name)"

definition parse_operator ::
  "'v validation_scheme \<Rightarrow> string \<Rightarrow> string \<Rightarrow> refusal_error + namespaced_name" where
  "parse_operator v key value =
     (let reference = trim_space value;
          (namespace, name, found) = cut reference (CHR ''/'')
      in if \<not> found \<or> length (is_dns1123_label v namespace) \<noteq> 0
            \<or> length (is_dns1123_subdomain v name) \<noteq> 0
         then Inl (NotAnOperator key value)
         else Inr \<lparr>nn_namespace = namespace, nn_name = name\<rparr>)"

section \<open>Reading the annotations\<close>

definition refuse :: "requested \<Rightarrow> string \<Rightarrow> refusal_error \<Rightarrow> requested" where
  "refuse q key err = q\<lparr>refused := refused q @ [\<lparr>rf_key = key, rf_err = err\<rparr>]\<rparr>"

text \<open>The part of the loop body after the key's name is known.\<close>

definition read_value ::
  "'v validation_scheme \<Rightarrow> namespaced_name \<Rightarrow> requested \<Rightarrow> string \<Rightarrow> string \<Rightarrow> string \<Rightarrow> requested" where
  "read_value v operator q key value name =
     (case parse_operator v key value of
        Inl err \<Rightarrow> refuse q key err
      | Inr asked \<Rightarrow>
          if asked \<noteq> operator then q
          else q\<lparr>understood := understood q @ [\<lparr>req_operator = asked, req_name = name\<rparr>]\<rparr>)"

definition read_key ::
  "'v validation_scheme \<Rightarrow> namespaced_name \<Rightarrow> requested \<Rightarrow> string \<times> string \<Rightarrow> requested" where
  "read_key v operator q kv =
     (let (key, value) = kv;
          (name, named) = cut_prefix key service_principal_key_prefix
      in if named then
           (case valid_identity_name key name of
              Some err \<Rightarrow> refuse q key err
            | None \<Rightarrow> read_value v operator q key value name)
         else if key = ServicePrincipalAnnotation then read_value v operator q key value ''''
         else q)"

definition requests_for ::
  "'v validation_scheme \<Rightarrow> go_map \<Rightarrow> namespaced_name \<Rightarrow> requested" where
  "requests_for v annotations operator =
     (let q = foldl (read_key v operator) \<lparr>understood = [], refused = []\<rparr> annotations
      in q\<lparr>understood := sort_key req_name (understood q),
           refused := sort_key rf_key (refused q)\<rparr>)"

fun any_refusal :: "string \<Rightarrow> refusal list \<Rightarrow> bool" where
  "any_refusal key [] = False"
| "any_refusal key (r # rs) = (if rf_key r = key then True else any_refusal key rs)"

definition unreadable :: "requested \<Rightarrow> string \<Rightarrow> bool" where
  "unreadable q identity = any_refusal (service_principal_annotation_for identity) (refused q)"

fun any_request :: "string \<Rightarrow> request list \<Rightarrow> bool" where
  "any_request identity [] = False"
| "any_request identity (r # rs) = (if req_name r = identity then True else any_request identity rs)"

definition no_longer_asked :: "requested \<Rightarrow> string \<Rightarrow> bool" where
  "no_longer_asked q identity =
     (if any_request identity (understood q) then False else \<not> unreadable q identity)"

section \<open>Keys and identities\<close>

lemma bare_key_not_prefixed [simp]:
  "cut_prefix ServicePrincipalAnnotation service_principal_key_prefix = (ServicePrincipalAnnotation, False)"
  by (simp add: cut_prefix_def service_principal_key_prefix_def)

lemma prefixed_key [simp]:
  "cut_prefix (service_principal_key_prefix @ name) service_principal_key_prefix = (name, True)"
  by simp

lemma annotation_for_inj:
  "service_principal_annotation_for a = service_principal_annotation_for b \<longleftrightarrow> a = b"
  by (auto simp: service_principal_annotation_for_def service_principal_key_prefix_def)

lemma annotation_for_eq_prefixed:
  "service_principal_annotation_for identity = service_principal_key_prefix @ name \<longleftrightarrow>
     identity = name \<and> name \<noteq> ''''"
  by (auto simp: service_principal_annotation_for_def service_principal_key_prefix_def)

lemma annotation_for_eq_bare [simp]:
  "service_principal_annotation_for identity = ServicePrincipalAnnotation \<longleftrightarrow> identity = ''''"
  by (auto simp: service_principal_annotation_for_def service_principal_key_prefix_def)

section \<open>Valid names\<close>

lemma alnum_ranges:
  "(CHR ''a'' \<le> r \<and> r \<le> CHR ''z'') \<or> (CHR ''0'' \<le> r \<and> r \<le> CHR ''9'') \<longleftrightarrow> lower_alnum r"
  by (simp add: lower_range digit_range lower_alnum_def)

lemma scan_name_None:
  "scan_name key i n rs = None \<longleftrightarrow>
     (\<forall>j < length rs. lower_alnum (rs ! j) \<or> (rs ! j = CHR ''-'' \<and> 0 < i + j \<and> Suc (i + j) < n))"
proof (induction rs arbitrary: i)
  case (Cons r rs)
  show ?case
    by (auto simp: alnum_ranges Cons.IH All_less_Suc2)
qed simp

lemma dns_word_nth:
  "dns_word s \<longleftrightarrow> s \<noteq> [] \<and>
     (\<forall>j < length s. lower_alnum (s ! j) \<or> (s ! j = CHR ''-'' \<and> 0 < j \<and> Suc j < length s))"
proof (cases "s = []")
  case False
  have h: "hd s = s ! 0" "last s = s ! (length s - 1)"
    using False by (auto simp: hd_conv_nth last_conv_nth)
  show ?thesis
  proof
    assume w: "dns_word s"
    show "s \<noteq> [] \<and> (\<forall>j < length s. lower_alnum (s ! j) \<or> (s ! j = CHR ''-'' \<and> 0 < j \<and> Suc j < length s))"
    proof (intro conjI allI impI False)
      fix j assume j: "j < length s"
      with w have "label_char (s ! j)" by (simp add: dns_word_def)
      moreover have "j = 0 \<Longrightarrow> lower_alnum (s ! j)" "j = length s - 1 \<Longrightarrow> lower_alnum (s ! j)"
        using w h by (auto simp: dns_word_def)
      ultimately show "lower_alnum (s ! j) \<or> (s ! j = CHR ''-'' \<and> 0 < j \<and> Suc j < length s)"
        using j by (cases "j = 0"; cases "j = length s - 1") (auto simp: label_char_def)
    qed
  next
    assume a: "s \<noteq> [] \<and> (\<forall>j < length s. lower_alnum (s ! j) \<or> (s ! j = CHR ''-'' \<and> 0 < j \<and> Suc j < length s))"
    then have n: "\<And>j. j < length s \<Longrightarrow> j = 0 \<or> Suc j = length s \<Longrightarrow> lower_alnum (s ! j)"
      by auto
    from a have "0 < length s" by simp
    then have "lower_alnum (s ! 0)" "lower_alnum (s ! (length s - 1))" by (auto intro!: n)
    with a h show "dns_word s" by (auto simp: dns_word_def label_char_def in_set_conv_nth)
  qed
qed (simp add: dns_word_def)

lemma valid_identity_name_None:
  "valid_identity_name key name = None \<longleftrightarrow> dns_word name \<and> length name \<le> identity_name_limit"
  by (auto simp: valid_identity_name_def scan_name_None dns_word_nth)

lemma valid_name_no_slash: "valid_identity_name key name = None \<Longrightarrow> name \<noteq> [] \<and> CHR ''/'' \<notin> set name"
  using dns_word_no_sep by (auto simp: valid_identity_name_None dns_word_def)

section \<open>The loop of RequestsFor\<close>

text \<open>What one key says, as a value: refused, understood as asking some operator, or not a request.\<close>

definition reading_value ::
  "'v validation_scheme \<Rightarrow> string \<Rightarrow> string \<Rightarrow> string \<Rightarrow> (refusal + request) option" where
  "reading_value v key value name =
     (case parse_operator v key value of
        Inl err \<Rightarrow> Some (Inl \<lparr>rf_key = key, rf_err = err\<rparr>)
      | Inr asked \<Rightarrow> Some (Inr \<lparr>req_operator = asked, req_name = name\<rparr>))"

definition key_reading :: "'v validation_scheme \<Rightarrow> string \<times> string \<Rightarrow> (refusal + request) option" where
  "key_reading v kv =
     (let (key, value) = kv; (name, named) = cut_prefix key service_principal_key_prefix
      in if named then
           (case valid_identity_name key name of
              Some err \<Rightarrow> Some (Inl \<lparr>rf_key = key, rf_err = err\<rparr>)
            | None \<Rightarrow> reading_value v key value name)
         else if key = ServicePrincipalAnnotation then reading_value v key value ''''
         else None)"

definition asked_in :: "'v validation_scheme \<Rightarrow> namespaced_name \<Rightarrow> string \<times> string \<Rightarrow> request option" where
  "asked_in v operator kv =
     (case key_reading v kv of
        Some (Inr r) \<Rightarrow> if req_operator r = operator then Some r else None
      | _ \<Rightarrow> None)"

definition refused_in :: "'v validation_scheme \<Rightarrow> string \<times> string \<Rightarrow> refusal option" where
  "refused_in v kv = (case key_reading v kv of Some (Inl r) \<Rightarrow> Some r | _ \<Rightarrow> None)"

lemma read_key_reading:
  "read_key v operator q kv =
     q\<lparr>understood := understood q @ (case asked_in v operator kv of None \<Rightarrow> [] | Some r \<Rightarrow> [r]),
       refused := refused q @ (case refused_in v kv of None \<Rightarrow> [] | Some r \<Rightarrow> [r])\<rparr>"
  by (auto simp: read_key_def read_value_def key_reading_def reading_value_def asked_in_def
      refused_in_def refuse_def split: prod.splits option.splits sum.splits)

lemma foldl_read_key:
  "foldl (read_key v operator) q kvs =
     q\<lparr>understood := understood q @ List.map_filter (asked_in v operator) kvs,
       refused := refused q @ List.map_filter (refused_in v) kvs\<rparr>"
proof (induction kvs arbitrary: q)
  case (Cons kv kvs)
  show ?case
    by (simp add: Cons.IH read_key_reading [of v operator q kv] List.map_filter_simps
        split: option.splits)
qed (simp add: List.map_filter_simps)

lemma requests_for_alt:
  "requests_for v annotations operator =
     \<lparr>understood = sort_key req_name (List.map_filter (asked_in v operator) annotations),
      refused = sort_key rf_key (List.map_filter (refused_in v) annotations)\<rparr>"
  by (simp add: requests_for_def foldl_read_key)

lemma refused_in_key: "refused_in v (key, value) = Some r \<Longrightarrow> rf_key r = key"
  by (auto simp: refused_in_def key_reading_def reading_value_def
      split: prod.splits option.splits sum.splits if_splits)

lemma asked_in_key:
  "asked_in v operator (key, value) = Some r \<Longrightarrow>
     key = service_principal_annotation_for (req_name r) \<and> req_operator r = operator"
  by (auto simp: asked_in_def key_reading_def reading_value_def cut_prefix_True cut_prefix_False
      service_principal_annotation_for_def dest: valid_name_no_slash
      split: prod.splits option.splits sum.splits if_splits)

lemma asked_in_Some:
  "asked_in v operator (service_principal_annotation_for identity, value) = Some r \<longleftrightarrow>
     r = \<lparr>req_operator = operator, req_name = identity\<rparr> \<and>
     (identity = '''' \<or> valid_identity_name (service_principal_annotation_for identity) identity = None) \<and>
     parse_operator v (service_principal_annotation_for identity) value = Inr operator"
  by (auto simp: asked_in_def key_reading_def reading_value_def service_principal_annotation_for_def
      split: option.splits sum.splits)

lemma refused_in_Some:
  "(\<exists>r. refused_in v (service_principal_annotation_for identity, value) = Some r) \<longleftrightarrow>
     (identity \<noteq> '''' \<and> valid_identity_name (service_principal_annotation_for identity) identity \<noteq> None) \<or>
     (\<exists>err. parse_operator v (service_principal_annotation_for identity) value = Inl err)"
  by (auto simp: refused_in_def key_reading_def reading_value_def service_principal_annotation_for_def
      split: option.splits sum.splits)

lemma any_refusal_iff: "any_refusal key rs \<longleftrightarrow> (\<exists>r \<in> set rs. rf_key r = key)"
  by (induction rs) auto

lemma any_request_iff: "any_request identity rs \<longleftrightarrow> (\<exists>r \<in> set rs. req_name r = identity)"
  by (induction rs) auto

lemma set_understood:
  "set (understood (requests_for v annotations operator)) =
     {r. \<exists>kv \<in> set annotations. asked_in v operator kv = Some r}"
  by (auto simp: requests_for_alt set_map_filter_iff)

lemma set_refused:
  "set (refused (requests_for v annotations operator)) =
     {r. \<exists>kv \<in> set annotations. refused_in v kv = Some r}"
  by (auto simp: requests_for_alt set_map_filter_iff)

lemma asked_iff:
  assumes "distinct (map fst annotations)"
  shows "any_request identity (understood (requests_for v annotations operator)) \<longleftrightarrow>
    (\<exists>value. map_of annotations (service_principal_annotation_for identity) = Some value \<and>
      (identity = '''' \<or> valid_identity_name (service_principal_annotation_for identity) identity = None) \<and>
      parse_operator v (service_principal_annotation_for identity) value = Inr operator)"
    (is "?L \<longleftrightarrow> ?R")
proof
  assume ?L
  then obtain key val r where kv: "(key, val) \<in> set annotations"
    "asked_in v operator (key, val) = Some r" "req_name r = identity"
    by (auto simp: any_request_iff set_understood)
  moreover from kv have "key = service_principal_annotation_for identity"
    by (auto dest: asked_in_key)
  ultimately show ?R using assms by (auto simp: asked_in_Some)
next
  let ?r = "\<lparr>req_operator = operator, req_name = identity\<rparr>"
  assume ?R
  then obtain val where "(service_principal_annotation_for identity, val) \<in> set annotations"
    "asked_in v operator (service_principal_annotation_for identity, val) = Some ?r"
    by (auto simp: asked_in_Some dest!: map_of_SomeD)
  then have "?r \<in> set (understood (requests_for v annotations operator))"
    by (auto simp: set_understood)
  then show ?L by (force simp: any_request_iff)
qed

lemma unreadable_iff:
  assumes "distinct (map fst annotations)"
  shows "unreadable (requests_for v annotations operator) identity \<longleftrightarrow>
    (\<exists>value. map_of annotations (service_principal_annotation_for identity) = Some value \<and>
      (identity \<noteq> '''' \<and> valid_identity_name (service_principal_annotation_for identity) identity \<noteq> None \<or>
       (\<exists>err. parse_operator v (service_principal_annotation_for identity) value = Inl err)))"
    (is "?L \<longleftrightarrow> ?R")
proof -
  let ?key = "service_principal_annotation_for identity"
  have "?L \<longleftrightarrow> (\<exists>r key val. (key, val) \<in> set annotations \<and> refused_in v (key, val) = Some r \<and> rf_key r = ?key)"
    unfolding unreadable_def any_refusal_iff set_refused by auto
  also have "\<dots> \<longleftrightarrow> (\<exists>val. (?key, val) \<in> set annotations \<and> (\<exists>r. refused_in v (?key, val) = Some r))"
    by (metis refused_in_key)
  also have "\<dots> \<longleftrightarrow> ?R" unfolding refused_in_Some using assms by (auto dest: map_of_SomeD)
  finally show ?thesis .
qed

section \<open>Order and profile names\<close>

lemma distinct_map_filter_keys:
  assumes "distinct (map fst kvs)" and "\<And>kv r. f kv = Some r \<Longrightarrow> fst kv = g (h r)" and "inj g"
  shows "distinct (map h (List.map_filter f kvs))"
  using assms(1)
proof (induction kvs)
  case (Cons kv kvs)
  show ?case
  proof (cases "f kv")
    case None
    with Cons show ?thesis by (simp add: List.map_filter_simps)
  next
    case (Some r)
    have "h r \<notin> h ` set (List.map_filter f kvs)"
    proof
      assume "h r \<in> h ` set (List.map_filter f kvs)"
      then obtain r' kv' where "f kv' = Some r'" "kv' \<in> set kvs" "h r' = h r"
        by (auto simp: set_map_filter_iff)
      with Some assms(2) have "fst kv' = fst kv" by metis
      with \<open>kv' \<in> set kvs\<close> Cons.prems show False by (metis distinct.simps(2) image_eqI list.set_map list.simps(9))
    qed
    with Cons Some show ?thesis by (simp add: List.map_filter_simps)
  qed
qed (simp add: List.map_filter_simps)

lemma inj_annotation_for: "inj service_principal_annotation_for"
  by (simp add: inj_def annotation_for_inj)

lemma distinct_asked_names:
  "distinct (map fst annotations) \<Longrightarrow>
     distinct (map req_name (List.map_filter (asked_in v operator) annotations))"
  by (rule distinct_map_filter_keys [where g = service_principal_annotation_for])
    (auto simp: inj_annotation_for dest: asked_in_key)

lemma distinct_refused_keys:
  "distinct (map fst annotations) \<Longrightarrow>
     distinct (map rf_key (List.map_filter (refused_in v) annotations))"
  by (rule distinct_map_filter_keys [where g = id]) (auto dest: refused_in_key)

lemma distinct_understood:
  assumes "distinct (map fst annotations)"
  shows "distinct (map req_name (understood (requests_for v annotations operator)))"
proof -
  have "mset (map req_name (understood (requests_for v annotations operator))) =
      mset (map req_name (List.map_filter (asked_in v operator) annotations))"
    by (simp add: requests_for_alt mset_map)
  with distinct_asked_names [OF assms] show ?thesis by (metis mset_eq_imp_distinct_iff)
qed

lemma parse_operator_Inr:
  "parse_operator v key val = Inr n \<Longrightarrow>
     is_dns1123_label v (nn_namespace n) = [] \<and> is_dns1123_subdomain v (nn_name n) = []"
  by (auto simp: parse_operator_def Let_def split: prod.splits if_splits)

lemma dns_word_not_reference: "dns_word w \<Longrightarrow> w \<noteq> nn_string n"
  using dns_word_no_sep slash_in_nn_string by metis

lemma understood_valid:
  assumes "r \<in> set (understood (requests_for v annotations operator))"
  shows "req_operator r = operator \<and> (req_name r = '''' \<or> dns_word (req_name r))
    \<and> is_dns1123_label v (nn_namespace operator) = []"
proof -
  from assms obtain key val where "asked_in v operator (key, val) = Some r"
    by (auto simp: set_understood)
  moreover from this have "key = service_principal_annotation_for (req_name r)" "req_operator r = operator"
    by (auto dest: asked_in_key)
  ultimately show ?thesis
    by (auto simp: asked_in_Some valid_identity_name_None dest: parse_operator_Inr)
qed

lemma request_string_inj:
  assumes "req_operator a = req_operator b"
    and "req_name a = '''' \<or> dns_word (req_name a)" "req_name b = '''' \<or> dns_word (req_name b)"
    and "request_string a = request_string b"
  shows "a = b"
proof -
  have "req_name a = req_name b"
    using assms dns_word_not_reference [of "req_name a" "req_operator b"]
      dns_word_not_reference [of "req_name b" "req_operator b"]
    by (auto simp: request_string_def split: if_splits)
  with assms(1) show ?thesis by (simp add: request.equality)
qed

section \<open>Properties\<close>

text \<open>C22: An identity is no longer asked for exactly when its own annotation key is gone, or the
  key is there, reads cleanly and names another operator. A key that is there and cannot be
  read never counts as an identity nobody asks for.\<close>
theorem no_longer_asked_iff:
  assumes "distinct (map fst annotations)"
  shows "no_longer_asked (requests_for v annotations operator) identity \<longleftrightarrow>
    (case map_of annotations (service_principal_annotation_for identity) of
       None \<Rightarrow> True
     | Some value \<Rightarrow>
         (identity = '''' \<or> valid_identity_name (service_principal_annotation_for identity) identity = None) \<and>
         (\<exists>other. other \<noteq> operator \<and>
            parse_operator v (service_principal_annotation_for identity) value = Inr other))"
  unfolding no_longer_asked_def asked_iff [OF assms] unreadable_iff [OF assms]
  by (auto split: option.splits) (metis old.sum.exhaust)+

theorem no_longer_asked_iff_witness:
  "distinct (map fst [(ServicePrincipalAnnotation, ''ops-a/databricks-account'')]) \<and>
   no_longer_asked (requests_for rfc1123 [(ServicePrincipalAnnotation, ''ops-a/databricks-account'')]
       \<lparr>nn_namespace = ''ops-b'', nn_name = ''databricks-account''\<rparr>) ''''"
proof -
  have "parse_operator rfc1123 ServicePrincipalAnnotation ''ops-a/databricks-account''
      = Inr \<lparr>nn_namespace = ''ops-a'', nn_name = ''databricks-account''\<rparr>"
    by code_simp
  then show ?thesis
    by (subst no_longer_asked_iff) (simp_all add: service_principal_annotation_for_def)
qed

text \<open>C23: What RequestsFor returns is a function of the annotations as a map: two iteration orders
  of one map give the same requests and the same refusals, in the same order.\<close>
theorem requests_for_iteration_order:
  assumes "distinct (map fst a)" and "mset a = mset b"
  shows "requests_for v a operator = requests_for v b operator"
proof -
  let ?u = "List.map_filter (asked_in v operator)" and ?r = "List.map_filter (refused_in v)"
  have "sort_key req_name (?u a) = sort_key req_name (?u b)"
    using distinct_asked_names [OF assms(1)] assms(2)
    by (intro sort_key_permuted mset_map_filter) (auto simp: distinct_map)
  moreover have "sort_key rf_key (?r a) = sort_key rf_key (?r b)"
    using distinct_refused_keys [OF assms(1)] assms(2)
    by (intro sort_key_permuted mset_map_filter) (auto simp: distinct_map)
  ultimately show ?thesis by (simp add: requests_for_alt)
qed

theorem requests_for_iteration_order_witness:
  "requests_for rfc1123
      [(service_principal_key_prefix @ ''writer'', ''ops/acc''), (ServicePrincipalAnnotation, ''ops/acc'')]
      \<lparr>nn_namespace = ''ops'', nn_name = ''acc''\<rparr> =
   requests_for rfc1123
      [(ServicePrincipalAnnotation, ''ops/acc''), (service_principal_key_prefix @ ''writer'', ''ops/acc'')]
      \<lparr>nn_namespace = ''ops'', nn_name = ''acc''\<rparr>"
  by (rule requests_for_iteration_order) (simp_all add: service_principal_key_prefix_def)

text \<open>For every identity exactly one of three answers holds: it is asked of this operator, its
  key is there and unreadable, or it is no longer asked for.\<close>
theorem readings_exclusive:
  fixes v :: "'v validation_scheme" and operator :: namespaced_name
  assumes "distinct (map fst annotations)"
  defines "q \<equiv> requests_for v annotations operator"
  shows "(any_request identity (understood q) \<and> \<not> unreadable q identity \<and> \<not> no_longer_asked q identity) \<or>
    (\<not> any_request identity (understood q) \<and> unreadable q identity \<and> \<not> no_longer_asked q identity) \<or>
    (\<not> any_request identity (understood q) \<and> \<not> unreadable q identity \<and> no_longer_asked q identity)"
proof -
  have "\<not> (any_request identity (understood q) \<and> unreadable q identity)"
    unfolding q_def asked_iff [OF assms(1)] unreadable_iff [OF assms(1)] by auto
  then show ?thesis by (auto simp: no_longer_asked_def)
qed

theorem readings_exclusive_witness:
  "unreadable (requests_for rfc1123 [(ServicePrincipalAnnotation, ''ops-a'')]
       \<lparr>nn_namespace = ''ops-a'', nn_name = ''acc''\<rparr>) '''' \<and>
   \<not> no_longer_asked (requests_for rfc1123 [(ServicePrincipalAnnotation, ''ops-a'')]
       \<lparr>nn_namespace = ''ops-a'', nn_name = ''acc''\<rparr>) ''''"
proof -
  have u: "unreadable (requests_for rfc1123 [(ServicePrincipalAnnotation, ''ops-a'')]
       \<lparr>nn_namespace = ''ops-a'', nn_name = ''acc''\<rparr>) ''''"
    by code_simp
  with readings_exclusive [of "[(ServicePrincipalAnnotation, ''ops-a'')]" "''''" rfc1123
      "\<lparr>nn_namespace = ''ops-a'', nn_name = ''acc''\<rparr>"]
  show ?thesis by simp
qed

text \<open>The identity names that are accepted are exactly the RFC 1123 labels of at most 45
  characters, and the annotation key of an accepted name has a name part of at most the 63
  bytes the API server allows.\<close>
theorem valid_identity_name_spec:
  "(valid_identity_name key name = None \<longleftrightarrow> rfc1123_label name \<and> length name \<le> 45) \<and>
   (valid_identity_name key name = None \<longrightarrow>
      length (''service-principal.'' @ name) \<le> 63)"
  by (auto simp: valid_identity_name_None rfc1123_label_def identity_name_limit_def)

text \<open>The requests understood from one ServiceAccount have pairwise distinct profile names,
  and they are ordered by identity name with the unnamed identity, where asked for, first.\<close>
theorem understood_profiles:
  fixes v :: "'v validation_scheme" and operator :: namespaced_name
  assumes "distinct (map fst annotations)"
  defines "rs \<equiv> understood (requests_for v annotations operator)"
  shows "distinct (map request_string rs) \<and> sorted (map req_name rs) \<and>
    (any_request '''' rs \<longrightarrow> req_name (hd rs) = '''')"
proof (intro conjI impI)
  have "distinct (map req_name rs)" unfolding rs_def by (rule distinct_understood [OF assms(1)])
  moreover have "inj_on request_string (set rs)"
    unfolding rs_def by (intro inj_onI request_string_inj) (auto dest!: understood_valid)
  ultimately show "distinct (map request_string rs)" by (simp add: distinct_map)
  show s: "sorted (map req_name rs)" unfolding rs_def by (simp add: requests_for_alt)
  assume "any_request '''' rs"
  then obtain r where r: "r \<in> set rs" "req_name r = ''''" by (auto simp: any_request_iff)
  then have "rs \<noteq> []" by auto
  with s r have "req_name (hd rs) \<le> ''''" by (cases rs) auto
  then show "req_name (hd rs) = ''''" by simp
qed

theorem understood_profiles_witness:
  "distinct (map request_string (understood (requests_for rfc1123
      [(service_principal_key_prefix @ ''writer'', ''ops/acc''), (ServicePrincipalAnnotation, ''ops/acc'')]
      \<lparr>nn_namespace = ''ops'', nn_name = ''acc''\<rparr>)))"
  using understood_profiles [of "[(service_principal_key_prefix @ ''writer'', ''ops/acc''),
      (ServicePrincipalAnnotation, ''ops/acc'')]" rfc1123 "\<lparr>nn_namespace = ''ops'', nn_name = ''acc''\<rparr>"]
  by (simp add: service_principal_key_prefix_def)

end
