(* ===== verification/ApiTypes.thy ===== *)
theory ApiTypes
  imports Request
begin

text \<open>
  The objects the operator reads and writes: the Kubernetes objects as far as its code looks at
  them, and the three custom resources of \<open>api/v1alpha1\<close> with the methods declared beside them.
  A pointer that may be nil is an option; a \<open>metav1.Time\<close> is a \<^typ>\<open>time\<close>.
\<close>

section \<open>Kubernetes objects\<close>

record object_meta =
  om_namespace :: string
  om_name :: string
  om_uid :: string
  om_resource_version :: string
  om_generation :: int
  om_deletion_timestamp :: "time option"
  om_finalizers :: "string list"
  om_labels :: go_map
  om_annotations :: go_map

definition object_key :: "object_meta \<Rightarrow> namespaced_name" where
  "object_key m = \<lparr>nn_namespace = om_namespace m, nn_name = om_name m\<rparr>"

datatype condition_status = ConditionTrue | ConditionFalse | ConditionUnknown

record condition =
  cn_type :: string
  cn_status :: condition_status
  cn_observed_generation :: int
  cn_last_transition :: time
  cn_reason :: string
  cn_message :: string

record service_account = sa_meta :: object_meta
record namespace_object = ns_meta :: object_meta

text \<open>
  Pods. \<open>pod_rest\<close>, \<open>vol_rest\<close>, \<open>src_rest\<close> and the like stand for every field the operator's
  code does not mention: it is carried along and, in \<open>TrimPod\<close>, dropped.
\<close>

record token_projection =
  tp_path :: string
  tp_audience :: string
  tp_expiration_seconds :: "int option"

record downward_item =
  di_path :: string
  di_field_path :: string

record projection =
  src_token :: "token_projection option"
  src_downward :: "downward_item list option"
  src_rest :: string

record volume =
  vol_name :: string
  vol_projected :: "projection list option"
  vol_rest :: string

record env_var =
  ev_name :: string
  ev_value :: string
  ev_rest :: string

record volume_mount =
  vm_name :: string
  vm_mount_path :: string
  vm_read_only :: bool
  vm_rest :: string

record container =
  co_name :: string
  co_env :: "env_var list"
  co_mounts :: "volume_mount list"
  co_rest :: string

datatype pod_phase = PodPending | PodRunning | PodSucceeded | PodFailed | PodUnknown | PodNoPhase

record pod =
  pod_meta :: object_meta
  pod_service_account_name :: string
  pod_volumes :: "volume list"
  pod_init_containers :: "container list"
  pod_containers :: "container list"
  pod_phase :: pod_phase
  pod_rest :: string

section \<open>DatabricksAccount\<close>

record account_spec =
  as_host :: string
  as_account_id :: string
  as_client_id :: string
  as_namespaces :: "string list"

record account_status =
  at_subject :: string
  at_audience :: string
  at_issuer :: string
  at_cluster_marker :: string
  at_conditions :: "condition list"

record account =
  ac_meta :: object_meta
  ac_spec :: account_spec
  ac_status :: account_status

definition serves :: "account_spec \<Rightarrow> string \<Rightarrow> bool" where
  "serves s namespace = List.member (as_namespaces s) namespace"

section \<open>DatabricksServiceAccount\<close>

record projected_identity =
  pi_profile :: string
  pi_operator :: string
  pi_issued :: string
  pi_service_principal_id :: string
  pi_account_id :: string
  pi_client_id :: string
  pi_removed_at :: "time option"
  pi_subject :: string
  pi_audience :: string
  pi_conditions :: "condition list"

record databricks_service_account =
  da_meta :: object_meta
  da_identities :: "projected_identity list"

definition first_identity :: "projected_identity list \<Rightarrow> projected_identity option" where
  "first_identity identities = (case identities of [] \<Rightarrow> None | i # _ \<Rightarrow> Some i)"

fun identity_for :: "projected_identity list \<Rightarrow> string \<Rightarrow> projected_identity option" where
  "identity_for [] profile = None"
| "identity_for (i # is) profile = (if pi_profile i = profile then Some i else identity_for is profile)"

definition asked_of :: "projected_identity \<Rightarrow> namespaced_name \<Rightarrow> bool" where
  "asked_of i operator \<longleftrightarrow> pi_operator i = nn_string operator"

definition usable :: "projected_identity \<Rightarrow> bool" where
  "usable i \<longleftrightarrow> pi_service_principal_id i \<noteq> '''' \<and> pi_removed_at i = None"

section \<open>The label and annotation keys\<close>

definition MintLabel :: string where
  "MintLabel = ''databricks.workload-identity.io/mint''"

definition InjectLabel :: string where
  "InjectLabel = ''databricks.workload-identity.io/inject''"

definition DestroyingIdentitiesLabel :: string where
  "DestroyingIdentitiesLabel = ''databricks.workload-identity.io/destroying-identities''"

definition DestroyingIdentitiesAccountAnnotation :: string where
  "DestroyingIdentitiesAccountAnnotation = ''databricks.workload-identity.io/destroying-identities-account''"

definition DestroyingIdentitiesSinceAnnotation :: string where
  "DestroyingIdentitiesSinceAnnotation = ''databricks.workload-identity.io/destroying-identities-since''"

definition Enabled :: string where "Enabled = ''enabled''"

definition ServicePrincipalFinalizer :: string where
  "ServicePrincipalFinalizer = ''databricks.workload-identity.io/delete-service-principal''"

definition AccountFinalizer :: string where
  "AccountFinalizer = ''databricks.workload-identity.io/records-name-this-account''"

section \<open>IssuedDatabricksServicePrincipal\<close>

record issued_service_account =
  is_namespace :: string
  is_name :: string
  is_uid :: string
  is_namespace_uid :: string

record issued_spec =
  ip_subject :: string
  ip_service_account :: issued_service_account
  ip_identity :: string

record issued_status =
  it_account_id :: string
  it_create_sent_at :: "time option"
  it_service_principal_id :: string
  it_client_id :: string
  it_issuer :: string
  it_audience :: string
  it_removed_at :: "time option"
  it_conditions :: "condition list"

record issued =
  id_meta :: object_meta
  id_spec :: issued_spec
  id_status :: issued_status

datatype record_state = Unsent | Sent | Known | Gone

definition service_principal_state :: "issued_status \<Rightarrow> record_state" where
  "service_principal_state s =
     (if it_removed_at s \<noteq> None then Gone
      else if it_service_principal_id s \<noteq> '''' then Known
      else if it_create_sent_at s \<noteq> None then Sent
      else Unsent)"

lemma service_principal_state_simps:
  "service_principal_state s = Gone \<longleftrightarrow> it_removed_at s \<noteq> None"
  "service_principal_state s = Known \<longleftrightarrow> it_removed_at s = None \<and> it_service_principal_id s \<noteq> ''''"
  "service_principal_state s = Sent \<longleftrightarrow>
     it_removed_at s = None \<and> it_service_principal_id s = '''' \<and> it_create_sent_at s \<noteq> None"
  "service_principal_state s = Unsent \<longleftrightarrow>
     it_removed_at s = None \<and> it_service_principal_id s = '''' \<and> it_create_sent_at s = None"
  by (auto simp: service_principal_state_def)

text \<open>The order the states are reached in.\<close>

instantiation record_state :: linorder
begin

fun state_rank :: "record_state \<Rightarrow> nat" where
  "state_rank Unsent = 0" | "state_rank Sent = 1" | "state_rank Known = 2" | "state_rank Gone = 3"

definition less_eq_record_state :: "record_state \<Rightarrow> record_state \<Rightarrow> bool" where
  "less_eq_record_state a b \<longleftrightarrow> state_rank a \<le> state_rank b"

definition less_record_state :: "record_state \<Rightarrow> record_state \<Rightarrow> bool" where
  "less_record_state a b \<longleftrightarrow> state_rank a < state_rank b"

instance
proof
  fix a b c :: record_state
  show "a \<le> b \<Longrightarrow> b \<le> a \<Longrightarrow> a = b"
    by (cases a; cases b) (simp_all add: less_eq_record_state_def)
qed (auto simp: less_eq_record_state_def less_record_state_def)

end

section \<open>Finalizers\<close>

text \<open>
  \<open>controllerutil.ContainsFinalizer\<close>, \<open>AddFinalizer\<close> and \<open>RemoveFinalizer\<close> are code of
  controller-runtime; what they do to \<open>metadata.finalizers\<close> is a parameter of the model, and
  what the operator relies on is the locale below.
\<close>

locale finalizer_lists =
  fixes add_finalizer remove_finalizer :: "string \<Rightarrow> string list \<Rightarrow> string list"
  assumes set_add: "set (add_finalizer f fs) = insert f (set fs)"
    and set_remove: "set (remove_finalizer f fs) = set fs - {f}"
begin

lemma added [simp]: "f \<in> set (add_finalizer f fs)" by (simp add: set_add)

lemma removed [simp]: "f \<notin> set (remove_finalizer f fs)" by (simp add: set_remove)

end

text \<open>The documented behaviour written out, which witnesses instantiate the parameter with.\<close>

definition ref_add_finalizer :: "string \<Rightarrow> string list \<Rightarrow> string list" where
  "ref_add_finalizer f fs = (if f \<in> set fs then fs else fs @ [f])"

definition ref_remove_finalizer :: "string \<Rightarrow> string list \<Rightarrow> string list" where
  "ref_remove_finalizer f fs = filter (\<lambda>g. g \<noteq> f) fs"

interpretation ref_finalizers: finalizer_lists ref_add_finalizer ref_remove_finalizer
  by unfold_locales (auto simp: ref_add_finalizer_def ref_remove_finalizer_def)

section \<open>Parameters: the library code the operator calls\<close>

text \<open>
  Pure functions of packages that are not part of the repository, passed to the definitions
  that use them: the name checks, the finalizer helpers, \<open>meta.SetStatusCondition\<close> (which
  reads the clock, given as its first argument) and \<open>meta.FindStatusCondition\<close>,
  \<open>strconv.Quote\<close> behind the \<open>%q\<close> verb, and
  the JSON decoding of a token's payload: of its \<open>iss\<close>, \<open>sub\<close> and raw \<open>aud\<close> fields (\<open>Inl\<close> the
  error's text), and of a raw value as a list of strings or as a string.
\<close>

record extern = validation +
  add_finalizer :: "string \<Rightarrow> string list \<Rightarrow> string list"
  remove_finalizer :: "string \<Rightarrow> string list \<Rightarrow> string list"
  set_status_condition :: "time \<Rightarrow> condition list \<Rightarrow> condition \<Rightarrow> condition list"
  find_status_condition :: "condition list \<Rightarrow> string \<Rightarrow> condition option"
  quote :: "string \<Rightarrow> string"
  json_token :: "string \<Rightarrow> string + (string \<times> string \<times> string)"
  json_strings :: "string \<Rightarrow> string list option"
  json_string :: "string \<Rightarrow> string option"

definition contains_finalizer :: "object_meta \<Rightarrow> string \<Rightarrow> bool" where
  "contains_finalizer m f \<longleftrightarrow> f \<in> set (om_finalizers m)"

locale status_conditions =
  fixes set_cond :: "time \<Rightarrow> condition list \<Rightarrow> condition \<Rightarrow> condition list"
    and find_cond :: "condition list \<Rightarrow> string \<Rightarrow> condition option"
  assumes find_set_same:
      "\<exists>d. find_cond (set_cond now cs c) (cn_type c) = Some d \<and> cn_type d = cn_type c \<and>
         cn_status d = cn_status c \<and> cn_reason d = cn_reason c \<and> cn_message d = cn_message c \<and>
         cn_observed_generation d = cn_observed_generation c"
    and find_set_other: "t \<noteq> cn_type c \<Longrightarrow> find_cond (set_cond now cs c) t = find_cond cs t"
    and find_none: "find_cond [] t = None"
begin

definition holds :: "condition list \<Rightarrow> string \<Rightarrow> condition_status \<Rightarrow> string \<Rightarrow> bool" where
  "holds cs t s r \<longleftrightarrow> (\<exists>d. find_cond cs t = Some d \<and> cn_status d = s \<and> cn_reason d = r)"

lemma holds_set: "holds (set_cond now cs c) (cn_type c) (cn_status c) (cn_reason c)"
  using find_set_same [of now cs c] by (auto simp: holds_def)

lemma holds_set_other: "t \<noteq> cn_type c \<Longrightarrow> holds (set_cond now cs c) t s r \<longleftrightarrow> holds cs t s r"
  by (simp add: holds_def find_set_other)

end

text \<open>The documented behaviour of the two condition helpers, for witnesses.\<close>

fun ref_set_condition :: "time \<Rightarrow> condition list \<Rightarrow> condition \<Rightarrow> condition list" where
  "ref_set_condition now [] c = [if cn_last_transition c = 0 then c\<lparr>cn_last_transition := now\<rparr> else c]"
| "ref_set_condition now (d # ds) c =
     (if cn_type d = cn_type c
      then c\<lparr>cn_last_transition :=
               (if cn_status d = cn_status c then cn_last_transition d
                else if cn_last_transition c = 0 then now else cn_last_transition c)\<rparr> # ds
      else d # ref_set_condition now ds c)"

definition ref_find_condition :: "condition list \<Rightarrow> string \<Rightarrow> condition option" where
  "ref_find_condition cs t = find (\<lambda>c. cn_type c = t) cs"

interpretation ref_conditions: status_conditions ref_set_condition ref_find_condition
proof
  fix now cs c t
  show "\<exists>d. ref_find_condition (ref_set_condition now cs c) (cn_type c) = Some d \<and> cn_type d = cn_type c \<and>
         cn_status d = cn_status c \<and> cn_reason d = cn_reason c \<and> cn_message d = cn_message c \<and>
         cn_observed_generation d = cn_observed_generation c"
    by (induction now cs c rule: ref_set_condition.induct) (auto simp: ref_find_condition_def)
  show "t \<noteq> cn_type c \<Longrightarrow> ref_find_condition (ref_set_condition now cs c) t = ref_find_condition cs t"
    by (induction now cs c rule: ref_set_condition.induct) (auto simp: ref_find_condition_def)
  show "ref_find_condition [] t = None" by (simp add: ref_find_condition_def)
qed

text \<open>One instance of all the parameters, for witnesses.\<close>

definition ref_extern :: extern where
  "ref_extern = validation.extend rfc1123
     (extern.fields ref_add_finalizer ref_remove_finalizer ref_set_condition ref_find_condition
        (\<lambda>s. ''\"'' @ s @ ''\"'') (\<lambda>s. Inr (s, s, s)) (\<lambda>s. Some [s]) (\<lambda>s. None))"

lemma ref_extern_simps [simp]:
  "is_dns1123_label ref_extern = is_dns1123_label rfc1123"
  "is_dns1123_subdomain ref_extern = is_dns1123_subdomain rfc1123"
  "add_finalizer ref_extern = ref_add_finalizer"
  "remove_finalizer ref_extern = ref_remove_finalizer"
  "set_status_condition ref_extern = ref_set_condition"
  "find_status_condition ref_extern = ref_find_condition"
  "json_token ref_extern = (\<lambda>s. Inr (s, s, s))"
  "json_strings ref_extern = (\<lambda>s. Some [s])"
  "json_string ref_extern = (\<lambda>s. None)"
  by (simp_all add: ref_extern_def validation.defs extern.defs)

end
