(* ===== verification/Failure.thy ===== *)
theory Failure
  imports Prelude
begin

text \<open>
  Errors as values, and \<open>internal/databricks/failure.go\<close>: \<open>KindOf\<close>, which classifies one, and
  \<open>Reason\<close>, which takes the message out of one. Lemmas: both look through any wrapping of an
  error that is not itself text.
\<close>

section \<open>Errors\<close>

text \<open>
  The SDK's \<open>apierr.APIError\<close>: the fields the operator reads, the text of its \<open>Error\<close>, and which
  of the SDK's sentinels \<open>errors.Is\<close> finds in it. The SDK decides all of them.
\<close>

record api_error =
  ae_status_code :: int
  ae_error_code :: string
  ae_message :: string
  ae_text :: string
  ae_permission_denied :: bool
  ae_unauthenticated :: bool
  ae_resource_does_not_exist :: bool
  ae_not_found :: bool
  ae_resource_conflict :: bool

datatype kube_reason = KubeNotFound | KubeAlreadyExists | KubeConflict | KubeOther

text \<open>\<open>Wrapped pre e post\<close> is \<open>fmt.Errorf\<close> with one \<open>%w\<close>, \<open>ErrorText\<close> the same with none.\<close>

datatype error =
    ErrNotConfigured (err_name: string) (err_namespace: string) (err_reason: string)
  | ErrMalformedCoordinate (err_field: string) (err_value: string) (err_cause: error)
  | ErrNoIssuer
  | APIError api_error
  | KubeError kube_reason string
  | ErrorText string
  | Wrapped string error string

text \<open>The error and everything \<open>errors.Unwrap\<close> reaches from it, in the order \<open>errors.As\<close> looks.\<close>

fun error_chain :: "error \<Rightarrow> error list" where
  "error_chain (Wrapped pre e post) = Wrapped pre e post # error_chain e"
| "error_chain (ErrMalformedCoordinate f v c) = ErrMalformedCoordinate f v c # error_chain c"
| "error_chain e = [e]"

fun error_string :: "(string \<Rightarrow> string) \<Rightarrow> error \<Rightarrow> string" where
  "error_string quote (ErrNotConfigured name namespace reason) =
     (if reason \<noteq> '''' then ''DatabricksAccount '' @ namespace @ ''/'' @ name @ '' is not usable: '' @ reason
      else ''no usable DatabricksAccount '' @ namespace @ ''/'' @ name @
           '': the operator does not know which Databricks account to act in'')"
| "error_string quote (ErrMalformedCoordinate field value cause) =
     field @ '' '' @ quote value @ '' is not a Databricks coordinate: '' @ error_string quote cause"
| "error_string quote ErrNoIssuer = ''no issuer to mark the service principal with''"
| "error_string quote (APIError e) = ae_text e"
| "error_string quote (KubeError r text) = text"
| "error_string quote (ErrorText text) = text"
| "error_string quote (Wrapped pre e post) = pre @ error_string quote e @ post"

section \<open>What errors.As and errors.Is find\<close>

definition not_configured :: "error \<Rightarrow> bool" where
  "not_configured err = list_ex (\<lambda>e. case e of ErrNotConfigured _ _ _ \<Rightarrow> True | _ \<Rightarrow> False) (error_chain err)"

definition as_malformed :: "error \<Rightarrow> bool" where
  "as_malformed err = list_ex (\<lambda>e. case e of ErrMalformedCoordinate _ _ _ \<Rightarrow> True | _ \<Rightarrow> False) (error_chain err)"

fun first_api_error :: "error list \<Rightarrow> api_error option" where
  "first_api_error [] = None"
| "first_api_error (e # es) = (case e of APIError a \<Rightarrow> Some a | _ \<Rightarrow> first_api_error es)"

definition as_api_error :: "error \<Rightarrow> api_error option" where
  "as_api_error err = first_api_error (error_chain err)"

definition is_sentinel :: "(api_error \<Rightarrow> bool) \<Rightarrow> error \<Rightarrow> bool" where
  "is_sentinel s err = list_ex (\<lambda>e. case e of APIError a \<Rightarrow> s a | _ \<Rightarrow> False) (error_chain err)"

fun first_kube_reason :: "error list \<Rightarrow> kube_reason option" where
  "first_kube_reason [] = None"
| "first_kube_reason (e # es) = (case e of KubeError r _ \<Rightarrow> Some r | _ \<Rightarrow> first_kube_reason es)"

text \<open>\<open>apierrors.IsNotFound\<close> and its siblings, and \<open>client.IgnoreNotFound\<close>.\<close>

definition is_kube :: "kube_reason \<Rightarrow> error \<Rightarrow> bool" where
  "is_kube r err \<longleftrightarrow> first_kube_reason (error_chain err) = Some r"

abbreviation is_not_found :: "error \<Rightarrow> bool" where "is_not_found \<equiv> is_kube KubeNotFound"
abbreviation is_already_exists :: "error \<Rightarrow> bool" where "is_already_exists \<equiv> is_kube KubeAlreadyExists"
abbreviation is_conflict :: "error \<Rightarrow> bool" where "is_conflict \<equiv> is_kube KubeConflict"

definition ignore_not_found :: "error option \<Rightarrow> error option" where
  "ignore_not_found err = (case err of Some e \<Rightarrow> if is_not_found e then None else Some e | None \<Rightarrow> None)"

section \<open>KindOf and Reason\<close>

datatype failure_kind = NoFailure | Unavailable | NotFound | Rejected | Malformed | NotConfigured | Denied

definition is_status :: "error \<Rightarrow> int \<Rightarrow> bool" where
  "is_status err code = (case as_api_error err of Some a \<Rightarrow> ae_status_code a = code | None \<Rightarrow> False)"

definition kind_of :: "error option \<Rightarrow> failure_kind" where
  "kind_of err =
     (case err of None \<Rightarrow> NoFailure
      | Some e \<Rightarrow>
          if not_configured e then NotConfigured
          else if as_malformed e then Malformed
          else if is_sentinel ae_permission_denied e \<or> is_sentinel ae_unauthenticated e then Denied
          else if is_sentinel ae_resource_does_not_exist e \<or> is_sentinel ae_not_found e then NotFound
          else if is_status e 400 then Rejected
          else Unavailable)"

definition reason_of :: "(string \<Rightarrow> string) \<Rightarrow> error option \<Rightarrow> string" where
  "reason_of quote err =
     (case err of None \<Rightarrow> ''''
      | Some e \<Rightarrow>
          (case as_api_error e of
             Some a \<Rightarrow>
               if ae_message a \<noteq> '''' then
                 (if ae_error_code a \<noteq> '''' then ae_error_code a @ '': '' @ ae_message a else ae_message a)
               else error_string quote e
           | None \<Rightarrow> error_string quote e))"

section \<open>Looking through wrapping\<close>

lemma classify_Wrapped [simp]:
  "not_configured (Wrapped pre e post) = not_configured e"
  "as_malformed (Wrapped pre e post) = as_malformed e"
  "as_api_error (Wrapped pre e post) = as_api_error e"
  "is_sentinel s (Wrapped pre e post) = is_sentinel s e"
  "is_status (Wrapped pre e post) code = is_status e code"
  "is_kube r (Wrapped pre e post) = is_kube r e"
  by (simp_all add: not_configured_def as_malformed_def as_api_error_def is_sentinel_def is_status_def
      is_kube_def)

lemma classify_simps [simp]:
  "not_configured (ErrNotConfigured n ns w)" "\<not> not_configured ErrNoIssuer"
  "\<not> not_configured (APIError a)" "\<not> not_configured (ErrorText t)" "\<not> not_configured (KubeError k t)"
  "as_malformed (ErrMalformedCoordinate f v c)" "\<not> as_malformed ErrNoIssuer"
  "\<not> as_malformed (APIError a)" "\<not> as_malformed (ErrorText t)" "\<not> as_malformed (KubeError k t)"
  "is_sentinel s (APIError a) = s a" "\<not> is_sentinel s ErrNoIssuer"
  "\<not> is_sentinel s (ErrorText t)" "\<not> is_sentinel s (KubeError k t)"
  "is_status (APIError a) code \<longleftrightarrow> ae_status_code a = code" "\<not> is_status ErrNoIssuer code"
  "\<not> is_status (ErrorText t) code" "\<not> is_status (KubeError k t) code"
  "is_kube r (KubeError k t) \<longleftrightarrow> k = r"
  by (auto simp: not_configured_def as_malformed_def is_sentinel_def is_status_def as_api_error_def
      is_kube_def)

lemma kind_of_Wrapped [simp]: "kind_of (Some (Wrapped pre e post)) = kind_of (Some e)"
  by (simp add: kind_of_def)

lemma kind_of_simps [simp]:
  "kind_of None = NoFailure"
  "kind_of (Some (ErrNotConfigured n ns r)) = NotConfigured"
  "kind_of (Some ErrNoIssuer) = Unavailable"
  "kind_of (Some (ErrorText t)) = Unavailable"
  "kind_of (Some (KubeError k t)) = Unavailable"
  "kind_of (Some (ErrMalformedCoordinate f v (ErrorText t))) = Malformed"
  by (simp_all add: kind_of_def) (simp add: not_configured_def)

lemma kind_of_Some [simp]: "kind_of (Some e) \<noteq> NoFailure"
  by (simp add: kind_of_def)

end
