(* ===== verification/Config.thy ===== *)
theory Config
  imports ApiTypes Failure
begin

text \<open>
  \<open>internal/databricks/config.go\<close>, what the operator needs to reach Databricks as itself, and
  \<open>internal/databricks/tokenclaims.go\<close> with \<open>IssuerOf\<close>, the claims read out of its own projected
  token (reading the file is an effect, in \<open>ServicePrincipals\<close>). Lemmas: what a validated
  configuration carries, and what the token has to be for its claims to be read.
\<close>

section \<open>Config\<close>

record config =
  cf_account_host :: string
  cf_account_id :: string
  cf_client_id :: string
  cf_oidc_token_filepath :: string
  cf_token_audience :: string

definition config_zero :: config where
  "config_zero = \<lparr>cf_account_host = '''', cf_account_id = '''', cf_client_id = '''',
     cf_oidc_token_filepath = '''', cf_token_audience = ''''\<rparr>"

definition EnvOIDCTokenFilepath :: string where "EnvOIDCTokenFilepath = ''DATABRICKS_OIDC_TOKEN_FILEPATH''"
definition EnvTokenAudience :: string where "EnvTokenAudience = ''DATABRICKS_TOKEN_AUDIENCE''"

text \<open>The argument is \<open>os.Getenv\<close>.\<close>

definition runtime_from_env :: "(string \<Rightarrow> string) \<Rightarrow> config" where
  "runtime_from_env getenv = config_zero
     \<lparr>cf_oidc_token_filepath := trim_space (getenv EnvOIDCTokenFilepath),
      cf_token_audience := trim_space (getenv EnvTokenAudience)\<rparr>"

definition for_account :: "config \<Rightarrow> string \<Rightarrow> string \<Rightarrow> string \<Rightarrow> config" where
  "for_account c host account_id client_id =
     c\<lparr>cf_account_host := host, cf_account_id := account_id, cf_client_id := client_id\<rparr>"

definition validate :: "config \<Rightarrow> error option" where
  "validate c =
     (if cf_account_host c = '''' then Some (ErrorText ''the account has no host'')
      else if cf_account_id c = '''' then Some (ErrorText ''the account has no accountId'')
      else if cf_oidc_token_filepath c \<noteq> '''' \<and> cf_client_id c = '''' then
        Some (ErrorText (''the operator has a projected token but the account has no clientId: token '' @
          ''exchange without it fails as TOKEN_INVALID with a message that blames the federation '' @
          ''policy instead''))
      else None)"

definition uses_workload_identity :: "config \<Rightarrow> bool" where
  "uses_workload_identity c \<longleftrightarrow> cf_oidc_token_filepath c \<noteq> ''''"

text \<open>The SDK's \<open>Config\<close>, the fields that are set here.\<close>

record sdk_config =
  sdk_host :: string
  sdk_account_id :: string
  sdk_auth_type :: string
  sdk_client_id :: string
  sdk_oidc_token_filepath :: string
  sdk_token_audience :: string

definition sdk_config_of :: "config \<Rightarrow> sdk_config" where
  "sdk_config_of c =
     (let cfg = \<lparr>sdk_host = cf_account_host c, sdk_account_id = cf_account_id c, sdk_auth_type = '''',
                 sdk_client_id = '''', sdk_oidc_token_filepath = '''', sdk_token_audience = ''''\<rparr>
      in if \<not> uses_workload_identity c then cfg
         else cfg\<lparr>sdk_auth_type := ''file-oidc'', sdk_client_id := cf_client_id c,
                  sdk_oidc_token_filepath := cf_oidc_token_filepath c,
                  sdk_token_audience := cf_token_audience c\<rparr>)"

section \<open>Base64\<close>

text \<open>
  \<open>base64.RawURLEncoding.DecodeString\<close>: the URL alphabet without padding, carriage returns and
  line feeds skipped, trailing bits ignored; \<open>Inl\<close> is the offset of the offending byte.
\<close>

definition base64_url_alphabet :: string where
  "base64_url_alphabet = upper_chars @ lower_chars @ digit_chars @ ''-_''"

definition base64_value :: "char \<Rightarrow> nat option" where
  "base64_value c = map_of (zip base64_url_alphabet [0..<64]) c"

fun base64_digits :: "nat \<Rightarrow> nat list \<Rightarrow> string \<Rightarrow> nat + nat list" where
  "base64_digits i out [] = (if length out mod 4 = 1 then Inl (i - 1) else Inr (rev out))"
| "base64_digits i out (c # cs) =
     (case base64_value c of
        Some v \<Rightarrow> base64_digits (Suc i) (v # out) cs
      | None \<Rightarrow> if c = CHR 0x0A \<or> c = CHR 0x0D then base64_digits (Suc i) out cs else Inl i)"

fun base64_bytes :: "nat list \<Rightarrow> string" where
  "base64_bytes (a # b # c # d # ds) =
     char_of (a * 4 + b div 16) # char_of ((b mod 16) * 16 + c div 4) #
     char_of ((c mod 4) * 64 + d) # base64_bytes ds"
| "base64_bytes [a, b, c] = [char_of (a * 4 + b div 16), char_of ((b mod 16) * 16 + c div 4)]"
| "base64_bytes [a, b] = [char_of (a * 4 + b div 16)]"
| "base64_bytes _ = []"

definition base64_decode :: "string \<Rightarrow> error + string" where
  "base64_decode s =
     (case base64_digits 0 [] s of
        Inl i \<Rightarrow> Inl (ErrorText (''illegal base64 data at input byte '' @ show_nat i))
      | Inr ds \<Rightarrow> Inr (base64_bytes ds))"

section \<open>Token claims\<close>

record token_claims =
  tc_issuer :: string
  tc_subject :: string
  tc_audience :: "string list"

definition parse_token_claims :: "extern \<Rightarrow> string \<Rightarrow> error + token_claims" where
  "parse_token_claims x token =
     (let parts = split_on (CHR ''.'') token
      in if length parts \<noteq> 3 then
           Inl (ErrorText (''the projected token is not a JWT: '' @ show_nat (length parts) @ '' segments, want 3''))
         else
           (case base64_decode (parts ! 1) of
              Inl err \<Rightarrow> Inl (Wrapped (''decoding the projected token'' @ [CHR 0x27] @ ''s payload: '') err '''')
            | Inr payload \<Rightarrow>
                (case json_token x payload of
                   Inl text \<Rightarrow>
                     Inl (Wrapped (''parsing the projected token'' @ [CHR 0x27] @ ''s payload: '') (ErrorText text) '''')
                 | Inr (iss, sub, aud) \<Rightarrow>
                     if aud \<noteq> '''' then
                       (case json_strings x aud of
                          Some many \<Rightarrow> Inr \<lparr>tc_issuer = iss, tc_subject = sub, tc_audience = many\<rparr>
                        | None \<Rightarrow>
                            (case json_string x aud of
                               None \<Rightarrow> Inl (ErrorText (''the projected token'' @ [CHR 0x27] @
                                 ''s aud claim is neither a string nor an array''))
                             | Some one \<Rightarrow> Inr \<lparr>tc_issuer = iss, tc_subject = sub, tc_audience = [one]\<rparr>))
                     else Inr \<lparr>tc_issuer = iss, tc_subject = sub, tc_audience = []\<rparr>)))"

definition issuer_of :: "token_claims \<Rightarrow> error + string" where
  "issuer_of claims =
     (if trim_space (tc_issuer claims) = '''' then
        Inl (ErrorText (''the operator'' @ [CHR 0x27] @
          ''s own token carries no iss claim, so the issuer to trust is unknown''))
      else Inr (tc_issuer claims))"

section \<open>Lemmas\<close>

lemma for_account_simps [simp]:
  "cf_account_host (for_account c h a i) = h" "cf_account_id (for_account c h a i) = a"
  "cf_client_id (for_account c h a i) = i"
  "cf_oidc_token_filepath (for_account c h a i) = cf_oidc_token_filepath c"
  "cf_token_audience (for_account c h a i) = cf_token_audience c"
  by (simp_all add: for_account_def)

lemma issuer_of_Inr: "issuer_of claims = Inr issuer \<longleftrightarrow> issuer = tc_issuer claims \<and> trim_space issuer \<noteq> ''''"
  by (auto simp: issuer_of_def)

lemma validate_None:
  "validate c = None \<longleftrightarrow>
     cf_account_host c \<noteq> '''' \<and> cf_account_id c \<noteq> '''' \<and>
     (cf_oidc_token_filepath c = '''' \<or> cf_client_id c \<noteq> '''')"
  by (simp add: validate_def)

lemma base64_value_bound: "base64_value c = Some v \<Longrightarrow> v < 64"
  unfolding base64_value_def by (drule map_of_SomeD, drule set_zip_rightD) simp

lemma base64_digits_bound:
  "base64_digits i out s = Inr ds \<Longrightarrow> (\<forall>v \<in> set out. v < 64) \<Longrightarrow> \<forall>v \<in> set ds. v < 64"
  by (induction i out s rule: base64_digits.induct)
    (auto split: if_splits option.splits dest: base64_value_bound)

text \<open>No byte of a decoded payload comes from an overflowing value: \<open>char_of\<close> truncates nothing.\<close>

lemma base64_bytes_fit:
  assumes "a < 64" "b < 64" "c < 64" "d < (64 :: nat)"
  shows "a * 4 + b div 16 < 256 \<and> (b mod 16) * 16 + c div 4 < 256 \<and> (c mod 4) * 64 + d < 256"
proof -
  from assms have "b div 16 < 4" "b mod 16 < 16" "c div 4 < 16" "c mod 4 < 4" by linarith+
  with assms show ?thesis by linarith
qed

end
