(* ===== verification/AccountInUse.thy ===== *)
theory AccountInUse
  imports Config
begin

text \<open>
  \<open>internal/databricks/account_in_use.go\<close>, the one slot saying which Databricks account the
  operator acts in, and the two implementations of the \<open>Clients\<close> interface behind it: the clients
  of \<open>client.go\<close>, which are their configuration, and the stand-in \<open>unconfigured\<close>. The mutex makes
  each operation atomic, so the slot is a value and each operation a function on it. Lemmas:
  a snapshot is total, and what the slot holds is decided by the last write alone.
\<close>

datatype clients =
    Installed config
  | Unconfigured (un_name: string) (un_namespace: string) (un_reason: string)

record account_in_use =
  au_name :: string
  au_namespace :: string
  au_clients :: "clients option"
  au_built_from :: config
  au_reason :: string

definition new_account_in_use :: "string \<Rightarrow> string \<Rightarrow> account_in_use" where
  "new_account_in_use namespace name =
     \<lparr>au_name = name, au_namespace = namespace, au_clients = None, au_built_from = config_zero,
      au_reason = ''''\<rparr>"

definition slot_set :: "config \<Rightarrow> clients \<Rightarrow> account_in_use \<Rightarrow> account_in_use" where
  "slot_set built_from clients a =
     a\<lparr>au_clients := Some clients, au_built_from := built_from, au_reason := ''''\<rparr>"

definition built_from :: "account_in_use \<Rightarrow> config \<times> bool" where
  "built_from a = (au_built_from a, au_clients a \<noteq> None)"

definition slot_clear :: "string \<Rightarrow> account_in_use \<Rightarrow> account_in_use" where
  "slot_clear reason a = a\<lparr>au_clients := None, au_built_from := config_zero, au_reason := reason\<rparr>"

definition configured :: "account_in_use \<Rightarrow> bool" where
  "configured a \<longleftrightarrow> au_clients a \<noteq> None"

definition snapshot :: "account_in_use \<Rightarrow> clients" where
  "snapshot a = (case au_clients a of
     None \<Rightarrow> Unconfigured (au_name a) (au_namespace a) (au_reason a)
   | Some c \<Rightarrow> c)"

definition unconfigured_err :: "string \<Rightarrow> string \<Rightarrow> string \<Rightarrow> error" where
  "unconfigured_err name namespace reason = ErrNotConfigured name namespace reason"

text \<open>\<open>AccountID\<close>, and \<open>AccountClient\<close> (\<open>None\<close> is nil; a client is the configuration it was built from).\<close>

definition clients_account_id :: "clients \<Rightarrow> string" where
  "clients_account_id c = (case c of Installed cfg \<Rightarrow> cf_account_id cfg | Unconfigured _ _ _ \<Rightarrow> '''')"

definition account_client :: "clients \<Rightarrow> config option" where
  "account_client c = (case c of Installed cfg \<Rightarrow> Some cfg | Unconfigured _ _ _ \<Rightarrow> None)"

section \<open>The slot over time\<close>

datatype slot_write = SlotSet config clients | SlotClear string

fun slot_apply :: "account_in_use \<Rightarrow> slot_write \<Rightarrow> account_in_use" where
  "slot_apply a (SlotSet cfg c) = slot_set cfg c a"
| "slot_apply a (SlotClear reason) = slot_clear reason a"

lemma slot_apply_fixed [simp]:
  "au_name (slot_apply a w) = au_name a" "au_namespace (slot_apply a w) = au_namespace a"
  by (cases w; simp add: slot_set_def slot_clear_def)+

lemma slot_fold_fixed [simp]:
  "au_name (foldl slot_apply a ws) = au_name a" "au_namespace (foldl slot_apply a ws) = au_namespace a"
  by (induction ws arbitrary: a) simp_all

text \<open>Whatever was installed and withdrawn before, the slot holds what its last write left:
  the clients and the declaration of a \<open>Set\<close> together, or nothing and the reason of a \<open>Clear\<close>;
  and a snapshot always has an answer, which with nothing installed names the DatabricksAccount
  the operator was told to use, gives the reason, and is in no account.\<close>
theorem slot_last_write:
  "snapshot (new_account_in_use namespace name) = Unconfigured name namespace '''' \<and>
   snapshot (foldl slot_apply (new_account_in_use namespace name) (ws @ [SlotSet cfg c])) = c \<and>
   built_from (foldl slot_apply (new_account_in_use namespace name) (ws @ [SlotSet cfg c])) = (cfg, True) \<and>
   snapshot (foldl slot_apply (new_account_in_use namespace name) (ws @ [SlotClear reason])) =
     Unconfigured name namespace reason \<and>
   clients_account_id (Unconfigured name namespace reason) = '''' \<and>
   configured (foldl slot_apply (new_account_in_use namespace name) (ws @ [SlotClear reason])) = False"
  by (simp add: snapshot_def built_from_def configured_def slot_set_def slot_clear_def
      clients_account_id_def) (simp add: new_account_in_use_def)

end
