(* ===== verification/ApplyConfigurations.thy ===== *)
theory ApplyConfigurations
  imports ApiTypes
begin

text \<open>
  The apply configurations the operator builds what it sends with: \<open>projectedidentity.go\<close>,
  \<open>databricksserviceaccountstatus.go\<close> and \<open>databricksserviceaccount.go\<close> of
  \<open>applyconfiguration/api/v1alpha1\<close>. Every field is a pointer, so a field is set or not said; a method
  \<open>With\<close> sets one and returns the receiver. Their arguments that are pointers are never nil here, so
  the panics on nil cannot be reached. Lemmas: what a reader of the object finds of an entry that was
  applied is the entry.
\<close>

section \<open>One identity\<close>

record applied_identity =
  ai_profile :: "string option"
  ai_operator :: "string option"
  ai_issued :: "string option"
  ai_service_principal_id :: "string option"
  ai_account_id :: "string option"
  ai_client_id :: "string option"
  ai_removed_at :: "time option"
  ai_subject :: "string option"
  ai_audience :: "string option"
  ai_conditions :: "condition list"

definition new_applied_identity :: applied_identity where
  "new_applied_identity =
     \<lparr>ai_profile = None, ai_operator = None, ai_issued = None, ai_service_principal_id = None, ai_account_id = None,
      ai_client_id = None, ai_removed_at = None, ai_subject = None, ai_audience = None, ai_conditions = []\<rparr>"

definition with_profile :: "string \<Rightarrow> applied_identity \<Rightarrow> applied_identity" where
  "with_profile value b = b\<lparr>ai_profile := Some value\<rparr>"

definition with_operator :: "string \<Rightarrow> applied_identity \<Rightarrow> applied_identity" where
  "with_operator value b = b\<lparr>ai_operator := Some value\<rparr>"

definition with_issued :: "string \<Rightarrow> applied_identity \<Rightarrow> applied_identity" where
  "with_issued value b = b\<lparr>ai_issued := Some value\<rparr>"

definition with_service_principal_id :: "string \<Rightarrow> applied_identity \<Rightarrow> applied_identity" where
  "with_service_principal_id value b = b\<lparr>ai_service_principal_id := Some value\<rparr>"

definition with_account_id :: "string \<Rightarrow> applied_identity \<Rightarrow> applied_identity" where
  "with_account_id value b = b\<lparr>ai_account_id := Some value\<rparr>"

definition with_client_id :: "string \<Rightarrow> applied_identity \<Rightarrow> applied_identity" where
  "with_client_id value b = b\<lparr>ai_client_id := Some value\<rparr>"

definition with_removed_at :: "time \<Rightarrow> applied_identity \<Rightarrow> applied_identity" where
  "with_removed_at value b = b\<lparr>ai_removed_at := Some value\<rparr>"

definition with_subject :: "string \<Rightarrow> applied_identity \<Rightarrow> applied_identity" where
  "with_subject value b = b\<lparr>ai_subject := Some value\<rparr>"

definition with_audience :: "string \<Rightarrow> applied_identity \<Rightarrow> applied_identity" where
  "with_audience value b = b\<lparr>ai_audience := Some value\<rparr>"

definition with_conditions :: "condition list \<Rightarrow> applied_identity \<Rightarrow> applied_identity" where
  "with_conditions values b = fold (\<lambda>c b. b\<lparr>ai_conditions := ai_conditions b @ [c]\<rparr>) values b"

lemmas with_identity_defs = with_profile_def with_operator_def with_issued_def with_service_principal_id_def
  with_account_id_def with_client_id_def with_removed_at_def with_subject_def with_audience_def

lemma with_conditions_appends [simp]: "with_conditions cs b = b\<lparr>ai_conditions := ai_conditions b @ cs\<rparr>"
  unfolding with_conditions_def by (induction cs arbitrary: b) simp_all

section \<open>The object\<close>

record applied_status =
  ap_identities :: "applied_identity list"

definition new_applied_status :: applied_status where
  "new_applied_status = \<lparr>ap_identities = []\<rparr>"

definition with_identities :: "applied_identity list \<Rightarrow> applied_status \<Rightarrow> applied_status" where
  "with_identities values b = fold (\<lambda>i b. b\<lparr>ap_identities := ap_identities b @ [i]\<rparr>) values b"

lemma with_identities_appends [simp]: "with_identities is b = b\<lparr>ap_identities := ap_identities b @ is\<rparr>"
  unfolding with_identities_def by (induction "is" arbitrary: b) simp_all

text \<open>Of client-go's metadata configuration, what is set here.\<close>

record applied_meta =
  am_name :: "string option"
  am_namespace :: "string option"

record applied_object =
  ao_kind :: "string option"
  ao_api_version :: "string option"
  ao_meta :: "applied_meta option"
  ao_status :: "applied_status option"

definition ensure_applied_meta :: "applied_object \<Rightarrow> applied_meta" where
  "ensure_applied_meta b = (case ao_meta b of None \<Rightarrow> \<lparr>am_name = None, am_namespace = None\<rparr> | Some m \<Rightarrow> m)"

definition with_kind :: "string \<Rightarrow> applied_object \<Rightarrow> applied_object" where
  "with_kind value b = b\<lparr>ao_kind := Some value\<rparr>"

definition with_api_version :: "string \<Rightarrow> applied_object \<Rightarrow> applied_object" where
  "with_api_version value b = b\<lparr>ao_api_version := Some value\<rparr>"

definition with_name :: "string \<Rightarrow> applied_object \<Rightarrow> applied_object" where
  "with_name value b = b\<lparr>ao_meta := Some ((ensure_applied_meta b)\<lparr>am_name := Some value\<rparr>)\<rparr>"

definition with_namespace :: "string \<Rightarrow> applied_object \<Rightarrow> applied_object" where
  "with_namespace value b = b\<lparr>ao_meta := Some ((ensure_applied_meta b)\<lparr>am_namespace := Some value\<rparr>)\<rparr>"

definition with_status :: "applied_status \<Rightarrow> applied_object \<Rightarrow> applied_object" where
  "with_status value b = b\<lparr>ao_status := Some value\<rparr>"

definition new_applied_object :: "string \<Rightarrow> string \<Rightarrow> applied_object" where
  "new_applied_object name namespace =
     (let b = \<lparr>ao_kind = None, ao_api_version = None, ao_meta = None, ao_status = None\<rparr>;
          b = with_name name b;
          b = with_namespace namespace b;
          b = with_kind ''DatabricksServiceAccount'' b
      in with_api_version ''databricks.workload-identity.io/v1alpha1'' b)"

lemma new_applied_object_fields:
  "new_applied_object name namespace =
     \<lparr>ao_kind = Some ''DatabricksServiceAccount'', ao_api_version = Some ''databricks.workload-identity.io/v1alpha1'',
      ao_meta = Some \<lparr>am_name = Some name, am_namespace = Some namespace\<rparr>, ao_status = None\<rparr>"
  by (simp add: new_applied_object_def with_name_def with_namespace_def with_kind_def with_api_version_def
      ensure_applied_meta_def)

text \<open>What the client sends of it: the key of the object, and the entries.\<close>

definition applied_key :: "applied_object \<Rightarrow> namespaced_name" where
  "applied_key b =
     (let m = ensure_applied_meta b; said = (\<lambda>v. case v of None \<Rightarrow> '''' | Some s \<Rightarrow> s)
      in \<lparr>nn_namespace = said (am_namespace m), nn_name = said (am_name m)\<rparr>)"

definition applied_entries :: "applied_object \<Rightarrow> applied_identity list" where
  "applied_entries b = (case ao_status b of None \<Rightarrow> [] | Some s \<Rightarrow> ap_identities s)"

section \<open>Reading it back\<close>

text \<open>A field that was not said reads as the empty one.\<close>

definition read_back :: "applied_identity \<Rightarrow> projected_identity" where
  "read_back a =
     (let said = (\<lambda>v. case v of None \<Rightarrow> '''' | Some s \<Rightarrow> s)
      in \<lparr>pi_profile = said (ai_profile a), pi_operator = said (ai_operator a), pi_issued = said (ai_issued a),
          pi_service_principal_id = said (ai_service_principal_id a), pi_account_id = said (ai_account_id a),
          pi_client_id = said (ai_client_id a), pi_removed_at = ai_removed_at a, pi_subject = said (ai_subject a),
          pi_audience = said (ai_audience a), pi_conditions = ai_conditions a\<rparr>)"

end
