(* ===== verification/Effects.thy ===== *)
theory Effects
  imports AccountInUse ApplyConfigurations
begin

text \<open>
  What the operator's code does to the world outside it, as values. A pass is a \<open>prog\<close>: a tree whose
  nodes are the requests the code makes of the API server (through the cache or live), of the
  Databricks account, of the clock, of the file system and of the slot holding the clients, and
  whose branches are the answers. None of the answering code is in the repository, so nothing is
  assumed about the answers here; each property states the ones it relies on.

  \<open>after p es\<close> is where the pass is once the exchanges \<open>es\<close> have taken place, so a pass that crashes
  is one that got through a prefix only. \<open>always P Q p h\<close> is the program logic the
  controllers' properties are proved with: every request of \<open>p\<close>, made after the exchanges \<open>h\<close>,
  satisfies \<open>P\<close>, and every result satisfies \<open>Q\<close>.
\<close>

section \<open>What Databricks keeps, as the SDK shows it\<close>

record principal =
  pr_id :: string
  pr_application_id :: string
  pr_external_id :: string
  pr_display_name :: string

record oidc_policy =
  oi_issuer :: string
  oi_subject :: string
  oi_audiences :: "string list"

record policy =
  po_id :: string
  po_description :: string
  po_oidc :: "oidc_policy option"

section \<open>Requests\<close>

datatype issued_request =
    GetIssued namespaced_name
  | CreateIssued issued
  | UpdateIssued issued
  | UpdateIssuedStatus issued

datatype issued_scope = IssuedIn string | IssuedToUid string string | IssuedAnywhere

datatype account_request =
    GetAccount namespaced_name
  | UpdateAccount account
  | UpdateAccountStatus account

datatype service_account_request = CachedServiceAccount namespaced_name | LiveServiceAccount namespaced_name

datatype identities_request =
    GetIdentities namespaced_name
  | CreateIdentities databricks_service_account service_account \<comment> \<open>with its controller reference\<close>


text \<open>The requests whose answer is only whether they succeeded.\<close>

datatype write_request =
    DeleteIssued issued
  | DeleteIdentities databricks_service_account
  | ApplyIdentities namespaced_name "applied_identity list" string \<comment> \<open>the last is the field owner\<close>
  | ApplyNamespace string go_map go_map string bool \<comment> \<open>labels, annotations, field owner, force\<close>

datatype principal_request =
    CreatePrincipal string string bool \<comment> \<open>display name, external id, active\<close>
  | GetPrincipal string

datatype policy_request =
    GetPolicy int string
  | CreatePolicy int string policy
  | UpdatePolicy int string string policy \<comment> \<open>the third is the update mask\<close>

datatype account_call =
    DeletePrincipal string
  | DeletePolicy int string
  | ListWorkspaces

section \<open>Passes\<close>

datatype 'a prog =
    Ret 'a
  | AskIssued issued_request "error + issued \<Rightarrow> 'a prog"
  | AskIssuedList issued_scope "error + issued list \<Rightarrow> 'a prog"
  | AskAccount account_request "error + account \<Rightarrow> 'a prog"
  | AskServiceAccount service_account_request "error + service_account \<Rightarrow> 'a prog"
  | AskServiceAccounts "string option" "error + service_account list \<Rightarrow> 'a prog"
  | AskNamespace string "error + namespace_object \<Rightarrow> 'a prog"
  | AskNamespaces "string \<times> string" "error + namespace_object list \<Rightarrow> 'a prog"
  | AskIdentities identities_request "error + databricks_service_account \<Rightarrow> 'a prog"
  | AskPods string "error + pod list \<Rightarrow> 'a prog"
  | AskWrite write_request "error option \<Rightarrow> 'a prog"
  | AskPrincipal config principal_request "error + principal \<Rightarrow> 'a prog"
  | AskPrincipals config "string option" "error + principal list \<Rightarrow> 'a prog"
  | AskPolicy config policy_request "error + policy \<Rightarrow> 'a prog"
  | AskPolicies config int "error + policy list \<Rightarrow> 'a prog"
  | AskCall config account_call "error option \<Rightarrow> 'a prog"
  | AskClient sdk_config "error option \<Rightarrow> 'a prog"
  | AskFile string "error + string \<Rightarrow> 'a prog"
  | AskNow "time \<Rightarrow> 'a prog"
  | AskSlot "account_in_use \<Rightarrow> 'a prog"
  | PutSlot slot_write "'a prog"

text \<open>One exchange: a request with its answer.\<close>

datatype event =
    EIssued issued_request "error + issued"
  | EIssuedList issued_scope "error + issued list"
  | EAccount account_request "error + account"
  | EServiceAccount service_account_request "error + service_account"
  | EServiceAccounts "string option" "error + service_account list"
  | ENamespace string "error + namespace_object"
  | ENamespaces "string \<times> string" "error + namespace_object list"
  | EIdentities identities_request "error + databricks_service_account"
  | EPods string "error + pod list"
  | EWrite write_request "error option"
  | EPrincipal config principal_request "error + principal"
  | EPrincipals config "string option" "error + principal list"
  | EPolicy config policy_request "error + policy"
  | EPolicies config int "error + policy list"
  | ECall config account_call "error option"
  | EClient sdk_config "error option"
  | EFile string "error + string"
  | ENow time
  | ESlot account_in_use
  | EPut slot_write

primrec then_do :: "'a prog \<Rightarrow> ('a \<Rightarrow> 'b prog) \<Rightarrow> 'b prog" where
  "then_do (Ret a) f = f a"
| "then_do (AskIssued q k) f = AskIssued q (\<lambda>r. then_do (k r) f)"
| "then_do (AskIssuedList q k) f = AskIssuedList q (\<lambda>r. then_do (k r) f)"
| "then_do (AskAccount q k) f = AskAccount q (\<lambda>r. then_do (k r) f)"
| "then_do (AskServiceAccount q k) f = AskServiceAccount q (\<lambda>r. then_do (k r) f)"
| "then_do (AskServiceAccounts q k) f = AskServiceAccounts q (\<lambda>r. then_do (k r) f)"
| "then_do (AskNamespace q k) f = AskNamespace q (\<lambda>r. then_do (k r) f)"
| "then_do (AskNamespaces q k) f = AskNamespaces q (\<lambda>r. then_do (k r) f)"
| "then_do (AskIdentities q k) f = AskIdentities q (\<lambda>r. then_do (k r) f)"
| "then_do (AskPods q k) f = AskPods q (\<lambda>r. then_do (k r) f)"
| "then_do (AskWrite q k) f = AskWrite q (\<lambda>r. then_do (k r) f)"
| "then_do (AskPrincipal c q k) f = AskPrincipal c q (\<lambda>r. then_do (k r) f)"
| "then_do (AskPrincipals c q k) f = AskPrincipals c q (\<lambda>r. then_do (k r) f)"
| "then_do (AskPolicy c q k) f = AskPolicy c q (\<lambda>r. then_do (k r) f)"
| "then_do (AskPolicies c q k) f = AskPolicies c q (\<lambda>r. then_do (k r) f)"
| "then_do (AskCall c q k) f = AskCall c q (\<lambda>r. then_do (k r) f)"
| "then_do (AskClient q k) f = AskClient q (\<lambda>r. then_do (k r) f)"
| "then_do (AskFile q k) f = AskFile q (\<lambda>r. then_do (k r) f)"
| "then_do (AskNow k) f = AskNow (\<lambda>r. then_do (k r) f)"
| "then_do (AskSlot k) f = AskSlot (\<lambda>r. then_do (k r) f)"
| "then_do (PutSlot w p) f = PutSlot w (then_do p f)"

section \<open>Running a pass against given answers\<close>

primrec feed :: "'a prog \<Rightarrow> event \<Rightarrow> 'a prog option" where
  "feed (Ret a) e = None"
| "feed (AskIssued q k) e = (case e of EIssued q' r \<Rightarrow> if q' = q then Some (k r) else None | _ \<Rightarrow> None)"
| "feed (AskIssuedList q k) e =
     (case e of EIssuedList q' r \<Rightarrow> if q' = q then Some (k r) else None | _ \<Rightarrow> None)"
| "feed (AskAccount q k) e = (case e of EAccount q' r \<Rightarrow> if q' = q then Some (k r) else None | _ \<Rightarrow> None)"
| "feed (AskServiceAccount q k) e =
     (case e of EServiceAccount q' r \<Rightarrow> if q' = q then Some (k r) else None | _ \<Rightarrow> None)"
| "feed (AskServiceAccounts q k) e =
     (case e of EServiceAccounts q' r \<Rightarrow> if q' = q then Some (k r) else None | _ \<Rightarrow> None)"
| "feed (AskNamespace q k) e =
     (case e of ENamespace q' r \<Rightarrow> if q' = q then Some (k r) else None | _ \<Rightarrow> None)"
| "feed (AskNamespaces q k) e =
     (case e of ENamespaces q' r \<Rightarrow> if q' = q then Some (k r) else None | _ \<Rightarrow> None)"
| "feed (AskIdentities q k) e =
     (case e of EIdentities q' r \<Rightarrow> if q' = q then Some (k r) else None | _ \<Rightarrow> None)"
| "feed (AskPods q k) e = (case e of EPods q' r \<Rightarrow> if q' = q then Some (k r) else None | _ \<Rightarrow> None)"
| "feed (AskWrite q k) e = (case e of EWrite q' r \<Rightarrow> if q' = q then Some (k r) else None | _ \<Rightarrow> None)"
| "feed (AskPrincipal c q k) e =
     (case e of EPrincipal c' q' r \<Rightarrow> if c' = c \<and> q' = q then Some (k r) else None | _ \<Rightarrow> None)"
| "feed (AskPrincipals c q k) e =
     (case e of EPrincipals c' q' r \<Rightarrow> if c' = c \<and> q' = q then Some (k r) else None | _ \<Rightarrow> None)"
| "feed (AskPolicy c q k) e =
     (case e of EPolicy c' q' r \<Rightarrow> if c' = c \<and> q' = q then Some (k r) else None | _ \<Rightarrow> None)"
| "feed (AskPolicies c q k) e =
     (case e of EPolicies c' q' r \<Rightarrow> if c' = c \<and> q' = q then Some (k r) else None | _ \<Rightarrow> None)"
| "feed (AskCall c q k) e =
     (case e of ECall c' q' r \<Rightarrow> if c' = c \<and> q' = q then Some (k r) else None | _ \<Rightarrow> None)"
| "feed (AskClient q k) e = (case e of EClient q' r \<Rightarrow> if q' = q then Some (k r) else None | _ \<Rightarrow> None)"
| "feed (AskFile q k) e = (case e of EFile q' r \<Rightarrow> if q' = q then Some (k r) else None | _ \<Rightarrow> None)"
| "feed (AskNow k) e = (case e of ENow r \<Rightarrow> Some (k r) | _ \<Rightarrow> None)"
| "feed (AskSlot k) e = (case e of ESlot r \<Rightarrow> Some (k r) | _ \<Rightarrow> None)"
| "feed (PutSlot w p) e = (case e of EPut w' \<Rightarrow> if w' = w then Some p else None | _ \<Rightarrow> None)"

fun after :: "'a prog \<Rightarrow> event list \<Rightarrow> 'a prog option" where
  "after p [] = Some p"
| "after p (e # es) = (case feed p e of None \<Rightarrow> None | Some p' \<Rightarrow> after p' es)"

text \<open>\<open>es\<close> is how far a pass got, and, of one that returned, what it returned.\<close>

definition runs :: "'a prog \<Rightarrow> event list \<Rightarrow> bool" where
  "runs p es \<longleftrightarrow> after p es \<noteq> None"

definition returns :: "'a prog \<Rightarrow> event list \<Rightarrow> 'a \<Rightarrow> bool" where
  "returns p es a \<longleftrightarrow> after p es = Some (Ret a)"

section \<open>The program logic\<close>

primrec always ::
  "(event list \<Rightarrow> event \<Rightarrow> bool) \<Rightarrow> ('a \<Rightarrow> event list \<Rightarrow> bool) \<Rightarrow> 'a prog \<Rightarrow> event list \<Rightarrow> bool" where
  "always P Q (Ret a) h = Q a h"
| "always P Q (AskIssued q k) h = (\<forall>r. P h (EIssued q r) \<and> always P Q (k r) (h @ [EIssued q r]))"
| "always P Q (AskIssuedList q k) h = (\<forall>r. P h (EIssuedList q r) \<and> always P Q (k r) (h @ [EIssuedList q r]))"
| "always P Q (AskAccount q k) h = (\<forall>r. P h (EAccount q r) \<and> always P Q (k r) (h @ [EAccount q r]))"
| "always P Q (AskServiceAccount q k) h =
     (\<forall>r. P h (EServiceAccount q r) \<and> always P Q (k r) (h @ [EServiceAccount q r]))"
| "always P Q (AskServiceAccounts q k) h =
     (\<forall>r. P h (EServiceAccounts q r) \<and> always P Q (k r) (h @ [EServiceAccounts q r]))"
| "always P Q (AskNamespace q k) h = (\<forall>r. P h (ENamespace q r) \<and> always P Q (k r) (h @ [ENamespace q r]))"
| "always P Q (AskNamespaces q k) h = (\<forall>r. P h (ENamespaces q r) \<and> always P Q (k r) (h @ [ENamespaces q r]))"
| "always P Q (AskIdentities q k) h = (\<forall>r. P h (EIdentities q r) \<and> always P Q (k r) (h @ [EIdentities q r]))"
| "always P Q (AskPods q k) h = (\<forall>r. P h (EPods q r) \<and> always P Q (k r) (h @ [EPods q r]))"
| "always P Q (AskWrite q k) h = (\<forall>r. P h (EWrite q r) \<and> always P Q (k r) (h @ [EWrite q r]))"
| "always P Q (AskPrincipal c q k) h =
     (\<forall>r. P h (EPrincipal c q r) \<and> always P Q (k r) (h @ [EPrincipal c q r]))"
| "always P Q (AskPrincipals c q k) h =
     (\<forall>r. P h (EPrincipals c q r) \<and> always P Q (k r) (h @ [EPrincipals c q r]))"
| "always P Q (AskPolicy c q k) h = (\<forall>r. P h (EPolicy c q r) \<and> always P Q (k r) (h @ [EPolicy c q r]))"
| "always P Q (AskPolicies c q k) h = (\<forall>r. P h (EPolicies c q r) \<and> always P Q (k r) (h @ [EPolicies c q r]))"
| "always P Q (AskCall c q k) h = (\<forall>r. P h (ECall c q r) \<and> always P Q (k r) (h @ [ECall c q r]))"
| "always P Q (AskClient q k) h = (\<forall>r. P h (EClient q r) \<and> always P Q (k r) (h @ [EClient q r]))"
| "always P Q (AskFile q k) h = (\<forall>r. P h (EFile q r) \<and> always P Q (k r) (h @ [EFile q r]))"
| "always P Q (AskNow k) h = (\<forall>r. P h (ENow r) \<and> always P Q (k r) (h @ [ENow r]))"
| "always P Q (AskSlot k) h = (\<forall>r. P h (ESlot r) \<and> always P Q (k r) (h @ [ESlot r]))"
| "always P Q (PutSlot w p) h = (P h (EPut w) \<and> always P Q p (h @ [EPut w]))"

lemma always_then_do:
  "always P Q (then_do p f) h = always P (\<lambda>a h'. always P Q (f a) h') p h"
  by (induction p arbitrary: h) simp_all

lemma always_mono:
  "always P Q p h \<Longrightarrow> (\<And>h e. P h e \<Longrightarrow> P' h e) \<Longrightarrow> (\<And>a h. Q a h \<Longrightarrow> Q' a h) \<Longrightarrow> always P' Q' p h"
  by (induction p arbitrary: h) (simp; blast)+

lemma always_feed:
  "always P Q p h \<Longrightarrow> feed p e = Some p' \<Longrightarrow> P h e \<and> always P Q p' (h @ [e])"
  by (cases p) (auto split: event.splits if_splits)

lemma always_after:
  assumes "always P Q p h" "after p es = Some p'"
  shows "always P Q p' (h @ es) \<and> (\<forall>pre e post. es = pre @ e # post \<longrightarrow> P (h @ pre) e)"
  using assms
proof (induction es arbitrary: p h)
  case (Cons e es)
  then obtain p1 where f: "feed p e = Some p1" and a: "after p1 es = Some p'"
    by (auto split: option.splits)
  from always_feed [OF Cons.prems(1) f] Cons.IH [OF _ a, of "h @ [e]"]
  show ?case by (auto simp: Cons_eq_append_conv)
qed simp

theorem always_runs:
  assumes "always P Q p []" "runs p es" "es = pre @ e # post"
  shows "P pre e"
  using assms always_after [of P Q p "[]" es] by (auto simp: runs_def)

theorem always_returns:
  assumes "always P Q p []" "returns p es a"
  shows "Q a es"
  using assms always_after [of P Q p "[]" es "Ret a"] by (simp add: returns_def)

lemma after_then_do:
  "after p es = Some (Ret a) \<Longrightarrow> after (then_do p f) (es @ fs) = after (f a) fs"
proof (induction es arbitrary: p)
  case (Cons e es)
  then obtain p1 where f: "feed p e = Some p1" and a: "after p1 es = Some (Ret a)"
    by (auto split: option.splits)
  have "feed (then_do p f) e = Some (then_do p1 f)"
    using f by (cases p) (auto split: event.splits if_splits)
  with Cons.IH [OF a] show ?case by simp
qed simp

section \<open>Inversion of complete runs\<close>

lemma returns_simps [simp]:
  "returns (Ret a) es b \<longleftrightarrow> es = [] \<and> b = a"
  "returns (AskIssued q k) es b \<longleftrightarrow> (\<exists>r es'. es = EIssued q r # es' \<and> returns (k r) es' b)"
  "returns (AskIssuedList s k1) es b \<longleftrightarrow> (\<exists>r es'. es = EIssuedList s r # es' \<and> returns (k1 r) es' b)"
  "returns (AskAccount qa ka) es b \<longleftrightarrow> (\<exists>r es'. es = EAccount qa r # es' \<and> returns (ka r) es' b)"
  "returns (AskServiceAccount qs ks) es b \<longleftrightarrow> (\<exists>r es'. es = EServiceAccount qs r # es' \<and> returns (ks r) es' b)"
  "returns (AskServiceAccounts ql kl) es b \<longleftrightarrow> (\<exists>r es'. es = EServiceAccounts ql r # es' \<and> returns (kl r) es' b)"
  "returns (AskNamespace n kn) es b \<longleftrightarrow> (\<exists>r es'. es = ENamespace n r # es' \<and> returns (kn r) es' b)"
  "returns (AskNamespaces m km) es b \<longleftrightarrow> (\<exists>r es'. es = ENamespaces m r # es' \<and> returns (km r) es' b)"
  "returns (AskIdentities qi ki) es b \<longleftrightarrow> (\<exists>r es'. es = EIdentities qi r # es' \<and> returns (ki r) es' b)"
  "returns (AskPods n kp) es b \<longleftrightarrow> (\<exists>r es'. es = EPods n r # es' \<and> returns (kp r) es' b)"
  "returns (AskWrite w kw) es b \<longleftrightarrow> (\<exists>r es'. es = EWrite w r # es' \<and> returns (kw r) es' b)"
  "returns (AskPrincipal c qp kq) es b \<longleftrightarrow> (\<exists>r es'. es = EPrincipal c qp r # es' \<and> returns (kq r) es' b)"
  "returns (AskPrincipals c f kf) es b \<longleftrightarrow> (\<exists>r es'. es = EPrincipals c f r # es' \<and> returns (kf r) es' b)"
  "returns (AskPolicy c qo ko) es b \<longleftrightarrow> (\<exists>r es'. es = EPolicy c qo r # es' \<and> returns (ko r) es' b)"
  "returns (AskPolicies c i kc) es b \<longleftrightarrow> (\<exists>r es'. es = EPolicies c i r # es' \<and> returns (kc r) es' b)"
  "returns (AskCall c qc kw) es b \<longleftrightarrow> (\<exists>r es'. es = ECall c qc r # es' \<and> returns (kw r) es' b)"
  "returns (AskClient sc kw) es b \<longleftrightarrow> (\<exists>r es'. es = EClient sc r # es' \<and> returns (kw r) es' b)"
  "returns (AskFile n kg) es b \<longleftrightarrow> (\<exists>r es'. es = EFile n r # es' \<and> returns (kg r) es' b)"
  "returns (AskNow kt) es b \<longleftrightarrow> (\<exists>r es'. es = ENow r # es' \<and> returns (kt r) es' b)"
  "returns (AskSlot kz) es b \<longleftrightarrow> (\<exists>r es'. es = ESlot r # es' \<and> returns (kz r) es' b)"
  "returns (PutSlot v p) es b \<longleftrightarrow> (\<exists>es'. es = EPut v # es' \<and> returns p es' b)"
  by (cases es; auto simp: returns_def split: event.splits option.splits if_splits)+

lemma feed_then_do:
  "(\<And>a. p \<noteq> Ret a) \<Longrightarrow> feed (then_do p f) e = map_option (\<lambda>p1. then_do p1 f) (feed p e)"
  by (cases p) (auto split: event.splits)

lemma then_do_split:
  "after (then_do p f) es = Some (Ret b) \<Longrightarrow>
     \<exists>es1 es2 a. es = es1 @ es2 \<and> after p es1 = Some (Ret a) \<and> after (f a) es2 = Some (Ret b)"
proof (induction es arbitrary: p)
  case Nil
  then show ?case by (cases p) simp_all
next
  case (Cons e es)
  show ?case
  proof (cases "\<exists>a. p = Ret a")
    case True
    with Cons.prems show ?thesis by (auto intro: exI [of _ "[]"])
  next
    case False
    with Cons.prems obtain p1 where p1: "feed p e = Some p1" "after (then_do p1 f) es = Some (Ret b)"
      by (auto simp: feed_then_do split: option.splits)
    from Cons.IH [OF p1(2)] obtain es1 es2 a where
      "es = es1 @ es2" "after p1 es1 = Some (Ret a)" "after (f a) es2 = Some (Ret b)" by blast
    with p1(1) show ?thesis by (intro exI [of _ "e # es1"] exI [of _ es2] exI [of _ a]) simp
  qed
qed

lemma returns_then_do [simp]:
  "returns (then_do p f) es b \<longleftrightarrow>
     (\<exists>es1 es2 a. es = es1 @ es2 \<and> returns p es1 a \<and> returns (f a) es2 b)"
  unfolding returns_def using then_do_split [of p f es b] by (auto simp: after_then_do)

lemma returns_runs: "returns p es a \<Longrightarrow> runs p es"
  by (simp add: returns_def runs_def)

lemma runs_prefix: "runs p (es @ fs) \<Longrightarrow> runs p es"
  by (induction es arbitrary: p) (auto simp: runs_def split: option.splits)

text \<open>The same for what the code branches on; not simplification rules by default.\<close>

lemma returns_branches:
  "returns (case s of Inl a \<Rightarrow> f a | Inr b \<Rightarrow> g b) es c \<longleftrightarrow>
     (\<exists>a. s = Inl a \<and> returns (f a) es c) \<or> (\<exists>b. s = Inr b \<and> returns (g b) es c)"
  "returns (case w of None \<Rightarrow> p | Some d \<Rightarrow> h d) es c \<longleftrightarrow>
     w = None \<and> returns p es c \<or> (\<exists>d. w = Some d \<and> returns (h d) es c)"
  "returns (if t then p else q) es c \<longleftrightarrow> t \<and> returns p es c \<or> \<not> t \<and> returns q es c"
  by ((cases s; simp), (cases w; simp), simp)

section \<open>The exchanges a pass can make at all\<close>

text \<open>\<open>emits K p\<close>: whatever is answered, every exchange of \<open>p\<close> is one of \<open>K\<close>.\<close>

primrec emits :: "(event \<Rightarrow> bool) \<Rightarrow> 'a prog \<Rightarrow> bool" where
  "emits K (Ret a) = True"
| "emits K (AskIssued q k) = (\<forall>r. K (EIssued q r) \<and> emits K (k r))"
| "emits K (AskIssuedList q k) = (\<forall>r. K (EIssuedList q r) \<and> emits K (k r))"
| "emits K (AskAccount q k) = (\<forall>r. K (EAccount q r) \<and> emits K (k r))"
| "emits K (AskServiceAccount q k) = (\<forall>r. K (EServiceAccount q r) \<and> emits K (k r))"
| "emits K (AskServiceAccounts q k) = (\<forall>r. K (EServiceAccounts q r) \<and> emits K (k r))"
| "emits K (AskNamespace q k) = (\<forall>r. K (ENamespace q r) \<and> emits K (k r))"
| "emits K (AskNamespaces q k) = (\<forall>r. K (ENamespaces q r) \<and> emits K (k r))"
| "emits K (AskIdentities q k) = (\<forall>r. K (EIdentities q r) \<and> emits K (k r))"
| "emits K (AskPods q k) = (\<forall>r. K (EPods q r) \<and> emits K (k r))"
| "emits K (AskWrite q k) = (\<forall>r. K (EWrite q r) \<and> emits K (k r))"
| "emits K (AskPrincipal c q k) = (\<forall>r. K (EPrincipal c q r) \<and> emits K (k r))"
| "emits K (AskPrincipals c q k) = (\<forall>r. K (EPrincipals c q r) \<and> emits K (k r))"
| "emits K (AskPolicy c q k) = (\<forall>r. K (EPolicy c q r) \<and> emits K (k r))"
| "emits K (AskPolicies c q k) = (\<forall>r. K (EPolicies c q r) \<and> emits K (k r))"
| "emits K (AskCall c q k) = (\<forall>r. K (ECall c q r) \<and> emits K (k r))"
| "emits K (AskClient q k) = (\<forall>r. K (EClient q r) \<and> emits K (k r))"
| "emits K (AskFile q k) = (\<forall>r. K (EFile q r) \<and> emits K (k r))"
| "emits K (AskNow k) = (\<forall>r. K (ENow r) \<and> emits K (k r))"
| "emits K (AskSlot k) = (\<forall>r. K (ESlot r) \<and> emits K (k r))"
| "emits K (PutSlot w p) = (K (EPut w) \<and> emits K p)"

lemma emits_then_do: "emits K p \<Longrightarrow> (\<And>a. emits K (f a)) \<Longrightarrow> emits K (then_do p f)"
  by (induction p) simp_all

lemma emits_mono: "emits K p \<Longrightarrow> (\<And>e. K e \<Longrightarrow> K' e) \<Longrightarrow> emits K' p"
  by (induction p) simp_all

lemma emits_always: "emits K p \<Longrightarrow> always (\<lambda>_. K) (\<lambda>_ _. True) p h"
  by (induction p arbitrary: h) simp_all

lemma always_conj:
  "always P1 Q1 p h \<Longrightarrow> always P2 Q2 p h \<Longrightarrow> always (\<lambda>h e. P1 h e \<and> P2 h e) (\<lambda>a h. Q1 a h \<and> Q2 a h) p h"
  by (induction p arbitrary: h) simp_all

text \<open>Induction over a pass by the exchanges it can make, instead of by its constructors.\<close>

lemma feed_induct:
  assumes step: "\<And>p. (\<And>e p'. feed p e = Some p' \<Longrightarrow> X p') \<Longrightarrow> X p"
  shows "X p"
proof (induction p)
  case (Ret a)
  show ?case by (rule step) simp
qed (rule step; force split: event.splits if_splits)+

lemma always_by_feed:
  "always P Q p h \<longleftrightarrow> (\<forall>a. p = Ret a \<longrightarrow> Q a h) \<and>
     (\<forall>e p'. feed p e = Some p' \<longrightarrow> P h e \<and> always P Q p' (h @ [e]))"
  by (cases p) (auto split: event.splits)

lemma always_if_returns:
  "(\<And>a es. returns p es a \<Longrightarrow> Q a (h @ es)) \<Longrightarrow> always (\<lambda>_ _. True) Q p h"
proof (induction p arbitrary: h rule: feed_induct)
  case (1 p)
  have "always (\<lambda>_ _. True) Q p' (h @ [e])" if f: "feed p e = Some p'" for e p'
  proof (rule "1.IH" [OF f])
    fix a es assume "returns p' es a"
    with f have "returns p (e # es) a" by (simp add: returns_def)
    from "1.prems" [OF this] show "Q a ((h @ [e]) @ es)" by simp
  qed
  moreover have "Q a h" if "p = Ret a" for a
    using "1.prems" [of "[]" a] that by simp
  ultimately show ?case by (subst always_by_feed) blast
qed

lemma always_returned: "always (\<lambda>_ _. True) (\<lambda>a h'. \<exists>es. h' = h @ es \<and> returns p es a) p h"
  by (rule always_if_returns) blast

lemma emits_returns: "emits K p \<Longrightarrow> returns p es a \<Longrightarrow> list_all K es"
  using always_runs [OF emits_always] returns_runs by (metis list_all_iff split_list)

text \<open>Splitting a pass off its first step, knowing what that step can exchange and return.\<close>

lemma always_bind:
  assumes "emits K p" "\<And>h' e. K e \<Longrightarrow> P h' e"
    and "\<And>a es. returns p es a \<Longrightarrow> list_all K es \<Longrightarrow> always P Q (f a) (h @ es)"
  shows "always P Q (then_do p f) h"
  unfolding always_then_do
  using always_conj [OF emits_always [OF assms(1), of h] always_returned [of h p]] assms(2,3)
    emits_returns [OF assms(1)]
  by (auto intro: always_mono)

lemma always_quiet:
  assumes "emits K p" "\<And>h' e. K e \<Longrightarrow> P h' e"
  shows "always P (\<lambda>_ _. True) p h"
  by (rule always_mono [OF emits_always [OF assms(1)]]) (use assms(2) in auto)

lemma emits_runs: "emits K p \<Longrightarrow> runs p es \<Longrightarrow> e \<in> set es \<Longrightarrow> K e"
  using always_runs [OF emits_always] by (metis split_list)

lemma runs_simps [simp]:
  "runs (Ret a) es \<longleftrightarrow> es = []"
  "runs (AskIssued q k) es \<longleftrightarrow> es = [] \<or> (\<exists>r es'. es = EIssued q r # es' \<and> runs (k r) es')"
  "runs (AskSlot ks) es \<longleftrightarrow> es = [] \<or> (\<exists>s es'. es = ESlot s # es' \<and> runs (ks s) es')"
  by (cases es; auto simp: runs_def split: event.splits option.splits if_splits)+

lemma runs_write: "runs (AskWrite w k) es \<longleftrightarrow> es = [] \<or> (\<exists>r es'. es = EWrite w r # es' \<and> runs (k r) es')"
  by (cases es; auto simp: runs_def split: event.splits option.splits if_splits)

lemma runs_now: "runs (AskNow k) es \<longleftrightarrow> es = [] \<or> (\<exists>t es'. es = ENow t # es' \<and> runs (k t) es')"
  by (cases es; auto simp: runs_def split: event.splits option.splits if_splits)

lemma always_then:
  "always P (\<lambda>_ _. True) p h \<Longrightarrow> (\<And>a h'. always P Q (f a) h') \<Longrightarrow> always P Q (then_do p f) h"
  unfolding always_then_do by (rule always_mono) simp_all

lemma runs_then_do:
  "runs (then_do p f) es \<Longrightarrow> (\<exists>es1 es2 a. es = es1 @ es2 \<and> returns p es1 a \<and> runs (f a) es2) \<or> runs p es"
proof (induction es arbitrary: p)
  case Nil
  then show ?case by (simp add: runs_def)
next
  case (Cons e es)
  show ?case
  proof (cases "\<exists>a. p = Ret a")
    case True
    with Cons.prems show ?thesis by auto
  next
    case False
    with Cons.prems obtain p1 where p1: "feed p e = Some p1" "runs (then_do p1 f) es"
      by (auto simp: runs_def feed_then_do split: option.splits)
    from Cons.IH [OF p1(2)] show ?thesis
    proof
      assume "\<exists>es1 es2 a. es = es1 @ es2 \<and> returns p1 es1 a \<and> runs (f a) es2"
      then obtain es1 es2 a where "es = es1 @ es2" "returns p1 es1 a" "runs (f a) es2" by blast
      with p1(1) have "e # es = (e # es1) @ es2" "returns p (e # es1) a" by (simp_all add: returns_def)
      with \<open>runs (f a) es2\<close> show ?thesis by blast
    qed (use p1(1) in \<open>simp add: runs_def\<close>)
  qed
qed

text \<open>An exchange the first step cannot make is made by the rest.\<close>

lemma runs_rest:
  assumes "runs (then_do p f) (pre @ e # post)" "emits K p" "\<not> K e"
  obtains es1 es2 a where "pre = es1 @ es2" "returns p es1 a" "runs (f a) (es2 @ e # post)"
proof -
  have "\<not> runs p (pre @ e # post)" using assms(2,3) emits_runs by (metis in_set_conv_decomp)
  with runs_then_do [OF assms(1)] obtain es1 es2 a where
    es: "pre @ e # post = es1 @ es2" and r: "returns p es1 a" "runs (f a) es2" by blast
  from emits_returns [OF assms(2) r(1)] assms(3) have "e \<notin> set es1" by (auto simp: list_all_iff)
  with es obtain us where "pre = es1 @ us" "es2 = us @ e # post"
    by (auto simp: append_eq_append_conv2 append_eq_Cons_conv Cons_eq_append_conv)
  with r that show thesis by blast
qed

lemma always_later: "\<exists>es. h = h0 @ es \<Longrightarrow> always (\<lambda>h' e. \<exists>es. h' = h0 @ es) (\<lambda>_ _. True) p h"
  by (induction p arbitrary: h) auto

section \<open>Exchanges that matter to more than one controller\<close>

text \<open>A request to write a record.\<close>

definition is_new_record :: "event \<Rightarrow> bool" where
  "is_new_record e = (case e of EIssued (CreateIssued _) _ \<Rightarrow> True | _ \<Rightarrow> False)"

lemma is_new_record_simps [simp]:
  "is_new_record (EIssued (CreateIssued i) ri)" "\<not> is_new_record (EIssued (GetIssued n) rg)"
  "\<not> is_new_record (EIssued (UpdateIssued iu) ru)" "\<not> is_new_record (EIssued (UpdateIssuedStatus iz) rz)"
  "\<not> is_new_record (EIssuedList s rl)" "\<not> is_new_record (EAccount qa ra)" "\<not> is_new_record (EServiceAccount qs rs)"
  "\<not> is_new_record (EServiceAccounts ns rss)" "\<not> is_new_record (ENamespace m rn)" "\<not> is_new_record (ENamespaces kv rns)"
  "\<not> is_new_record (EIdentities qd rd)" "\<not> is_new_record (EPods m' rp)" "\<not> is_new_record (EWrite w rw)"
  "\<not> is_new_record (EPrincipal c1 qp rq)" "\<not> is_new_record (EPrincipals c2 f rf)" "\<not> is_new_record (EPolicy c3 qo ro)"
  "\<not> is_new_record (EPolicies c4 n1 rps)" "\<not> is_new_record (ECall c5 qc rc)" "\<not> is_new_record (EClient sc rk)"
  "\<not> is_new_record (EFile pa rfi)" "\<not> is_new_record (ENow t)" "\<not> is_new_record (ESlot sl)" "\<not> is_new_record (EPut pw)"
  by (simp_all add: is_new_record_def)

end
