(* ===== verification/Sha256.thy ===== *)
theory Sha256
  imports Prelude "HOL-Library.Word"
begin

text \<open>
  The two standard-library encodings the names of this operator are made with: SHA-256
  (\<open>crypto/sha256\<close>, FIPS 180-4, on 32-bit words whose addition wraps) and unpadded base32
  (\<open>encoding/base32\<close> with the standard alphabet). Lemmas: the digest is 32 bytes, its base32
  text is 52 characters of the alphabet, and lower-cased they are letters and digits.
\<close>

unbundle bit_operations_syntax

section \<open>SHA-256\<close>

type_synonym w32 = "32 word"
type_synonym byte = "8 word"

text \<open>
  The constants as FIPS 180-4 defines them: the first 32 bits of the fractional parts of the cube
  roots of the first 64 primes, and of the square roots of the first eight. \<open>digits_of_root k t n r\<close> adds to
  \<open>r\<close> the greatest number below \<open>2 ^ n\<close> with which its \<open>k\<close>th power stays within \<open>t\<close>; no root here
  is above 8, so 35 binary digits hold each with its 32 fractional ones.
\<close>

primrec digits_of_root :: "nat \<Rightarrow> int \<Rightarrow> nat \<Rightarrow> int \<Rightarrow> int" where
  "digits_of_root k t 0 r = r"
| "digits_of_root k t (Suc n) r = digits_of_root k t n (if (r + 2 ^ n) ^ k \<le> t then r + 2 ^ n else r)"

definition fraction_of_root :: "nat \<Rightarrow> int \<Rightarrow> w32" where
  "fraction_of_root k p = word_of_int (digits_of_root k (p * 2 ^ (32 * k)) 35 0)"

definition first_primes :: "nat \<Rightarrow> int list" where
  "first_primes n = take n (filter (\<lambda>p. list_all (\<lambda>d. p mod d \<noteq> 0) [2..p - 1]) [2..311])"

definition round_constants :: "w32 list" where
  "round_constants = map (fraction_of_root 3) (first_primes 64)"

definition initial_hash :: "w32 list" where
  "initial_hash = map (fraction_of_root 2) (first_primes 8)"

text \<open>\<open>bits.RotateLeft32\<close> with a negative count.\<close>

definition rotr :: "nat \<Rightarrow> w32 \<Rightarrow> w32" where
  "rotr n x = drop_bit n x OR push_bit (32 - n) x"

definition ch :: "w32 \<Rightarrow> w32 \<Rightarrow> w32 \<Rightarrow> w32" where
  "ch x y z = ((x AND y) XOR (NOT x AND z))"

definition maj :: "w32 \<Rightarrow> w32 \<Rightarrow> w32 \<Rightarrow> w32" where
  "maj x y z = ((x AND y) XOR (x AND z) XOR (y AND z))"

definition big_sigma0 :: "w32 \<Rightarrow> w32" where
  "big_sigma0 x = rotr 2 x XOR rotr 13 x XOR rotr 22 x"

definition big_sigma1 :: "w32 \<Rightarrow> w32" where
  "big_sigma1 x = rotr 6 x XOR rotr 11 x XOR rotr 25 x"

definition small_sigma0 :: "w32 \<Rightarrow> w32" where
  "small_sigma0 x = rotr 7 x XOR rotr 18 x XOR drop_bit 3 x"

definition small_sigma1 :: "w32 \<Rightarrow> w32" where
  "small_sigma1 x = rotr 17 x XOR rotr 19 x XOR drop_bit 10 x"

definition pad :: "byte list \<Rightarrow> byte list" where
  "pad m = m @ 0x80 # replicate ((119 - length m mod 64) mod 64) 0 @
     map (\<lambda>i. ucast (drop_bit (8 * i) (of_nat (8 * length m) :: 64 word))) (rev [0..<8])"

definition word_be :: "byte \<Rightarrow> byte \<Rightarrow> byte \<Rightarrow> byte \<Rightarrow> w32" where
  "word_be a b c d = push_bit 24 (ucast a) OR push_bit 16 (ucast b) OR push_bit 8 (ucast c) OR ucast d"

definition bytes_be :: "w32 \<Rightarrow> byte list" where
  "bytes_be w = [ucast (drop_bit 24 w), ucast (drop_bit 16 w), ucast (drop_bit 8 w), ucast w]"

fun words_of :: "byte list \<Rightarrow> w32 list" where
  "words_of (a # b # c # d # bs) = word_be a b c d # words_of bs"
| "words_of _ = []"

fun blocks :: "w32 list \<Rightarrow> w32 list list" where
  "blocks ws = (if length ws < 16 then [] else take 16 ws # blocks (drop 16 ws))"

declare blocks.simps [simp del]

primrec schedule :: "nat \<Rightarrow> w32 list \<Rightarrow> w32 list" where
  "schedule 0 ws = ws"
| "schedule (Suc n) ws =
     schedule n (ws @ [small_sigma1 (ws ! (length ws - 2)) + ws ! (length ws - 7) +
                       small_sigma0 (ws ! (length ws - 15)) + ws ! (length ws - 16)])"

fun sha_round :: "w32 list \<Rightarrow> w32 \<times> w32 \<Rightarrow> w32 list" where
  "sha_round [a, b, c, d, e, f, g, h] (k, w) =
     (let t1 = h + big_sigma1 e + ch e f g + k + w;
          t2 = big_sigma0 a + maj a b c
      in [t1 + t2, a, b, c, d + t1, e, f, g])"
| "sha_round s _ = s"

definition compress :: "w32 list \<Rightarrow> w32 list \<Rightarrow> w32 list" where
  "compress h block = map2 (+) h (foldl sha_round h (zip round_constants (schedule 48 block)))"

definition sha256_sum :: "string \<Rightarrow> byte list" where
  "sha256_sum s =
     concat (map bytes_be (foldl compress initial_hash (blocks (words_of (pad (map of_char s))))))"

section \<open>Base32\<close>

definition base32_alphabet :: string where
  "base32_alphabet = ''ABCDEFGHIJKLMNOPQRSTUVWXYZ234567''"

definition byte_bits :: "byte \<Rightarrow> bool list" where
  "byte_bits b = map (\<lambda>i. bit b (7 - i)) [0..<8]"

text \<open>One character from at most five bits, the missing ones zero.\<close>

definition quintet :: "bool list \<Rightarrow> char" where
  "quintet bs = base32_alphabet ! (\<Sum>i<5. if i < length bs \<and> bs ! i then 2 ^ (4 - i) else 0)"

fun quintets :: "bool list \<Rightarrow> string" where
  "quintets bs = (if bs = [] then [] else quintet (take 5 bs) # quintets (drop 5 bs))"

declare quintets.simps [simp del]

definition base32 :: "byte list \<Rightarrow> string" where
  "base32 bytes = quintets (concat (map byte_bits bytes))"

section \<open>Lengths and alphabets\<close>

lemma length_sha_round: "length s = 8 \<Longrightarrow> length (sha_round s kw) = 8"
  by (induction s kw rule: sha_round.induct) (auto simp: Let_def)

lemma length_foldl_sha_round: "length s = 8 \<Longrightarrow> length (foldl sha_round s kws) = 8"
  by (induction kws arbitrary: s) (auto simp: length_sha_round)

lemma length_compress: "length h = 8 \<Longrightarrow> length (compress h b) = 8"
  by (simp add: compress_def length_foldl_sha_round)

lemma length_foldl_compress: "length h = 8 \<Longrightarrow> length (foldl compress h bs) = 8"
  by (induction bs arbitrary: h) (auto simp: length_compress)

lemma length_concat_map: "(\<And>x. length (f x) = k) \<Longrightarrow> length (concat (map f xs)) = k * length xs"
  by (induction xs) auto

lemma length_initial_hash: "length initial_hash = 8"
proof -
  let ?prime = "\<lambda>p :: int. list_all (\<lambda>d. p mod d \<noteq> 0) [2..p - 1]"
  have "filter ?prime [2..19] = [2, 3, 5, 7, 11, 13, 17, 19]" by code_simp
  moreover have "\<exists>rest. [2..311] = [2..19] @ (rest :: int list)"
    by (rule exI [of _ "[19 + 1..311]"], rule upto_split2) simp_all
  then obtain rest where "[2..311] = [2..19] @ (rest :: int list)" ..
  ultimately have "length (first_primes 8) = 8" by (simp only: first_primes_def filter_append) simp
  then show ?thesis by (simp add: initial_hash_def)
qed

lemma length_sha256 [simp]: "length (sha256_sum s) = 32"
  unfolding sha256_sum_def
  by (subst length_concat_map [where k = 4])
    (simp_all add: bytes_be_def length_foldl_compress length_initial_hash)

lemma length_quintets: "length (quintets bs) = (length bs + 4) div 5"
proof (induction bs rule: quintets.induct)
  case (1 bs)
  show ?case
  proof (cases "bs = []")
    case False
    with "1.IH" show ?thesis
      by (subst quintets.simps) (cases "length bs < 5"; auto simp: div_if)
  qed (simp add: quintets.simps)
qed

lemma length_base32: "length (base32 bs) = (8 * length bs + 4) div 5"
  unfolding base32_def length_quintets
  by (subst length_concat_map [where k = 8]) (simp_all add: byte_bits_def)

lemma quintet_in_alphabet: "quintet bs \<in> set base32_alphabet"
proof -
  let ?f = "\<lambda>i. if i < length bs \<and> bs ! i then 2 ^ (4 - i) else (0 :: nat)"
  have "(\<Sum>i<5. ?f i) \<le> (\<Sum>i<5. 2 ^ (4 - i))" by (rule sum_mono) auto
  also have "(\<Sum>i<5::nat. 2 ^ (4 - i)) = (31 :: nat)" by (simp add: eval_nat_numeral)
  finally have "(\<Sum>i<5. ?f i) < length base32_alphabet" by (simp add: base32_alphabet_def)
  then show ?thesis unfolding quintet_def by (rule nth_mem)
qed

lemma set_quintets: "set (quintets bs) \<subseteq> set base32_alphabet"
proof (induction bs rule: quintets.induct)
  case (1 bs)
  then show ?case by (subst quintets.simps) (auto simp: quintet_in_alphabet)
qed

lemma set_base32: "set (base32 bs) \<subseteq> set base32_alphabet"
  unfolding base32_def by (rule set_quintets)

lemma length_to_lower [simp]: "length (to_lower s) = length s"
  by (simp add: to_lower_def)

lemma to_lower_append [simp]: "to_lower (s @ t) = to_lower s @ to_lower t"
  by (simp add: to_lower_def)

lemma to_lower_base32: "set s \<subseteq> set base32_alphabet \<Longrightarrow> set (to_lower s) \<subseteq> set lower_chars \<union> set ''234567''"
proof -
  have "list_all (\<lambda>c. (case map_of (zip upper_chars lower_chars) c of None \<Rightarrow> c | Some d \<Rightarrow> d)
      \<in> set (lower_chars @ ''234567'')) base32_alphabet"
    by code_simp
  then show "set s \<subseteq> set base32_alphabet \<Longrightarrow> ?thesis" by (auto simp: to_lower_def list_all_iff)
qed

end
