(* ===== verification/Naming.thy ===== *)
theory Naming
  imports ApiTypes Sha256
begin

text \<open>
  The names the operator derives: the record of one issuing (\<open>IssuedNameFor\<close> of
  \<open>api/v1alpha1\<close>) and what it writes into Databricks (\<open>DisplayNameFor\<close>, \<open>SubjectFor\<close>,
  \<open>MarkerFor\<close>, \<open>FederationPolicyIDFor\<close> of \<open>internal/databricks/serviceprincipals.go\<close>).
  Lemmas: every derived name fits the limit of the field it goes into and keeps its alphabet,
  for every legal input, and two issuings are told apart as far as the hash does.
\<close>

section \<open>The record of an issuing\<close>

definition issued_name_limit :: nat where "issued_name_limit = 253"
definition issued_suffix :: nat where "issued_suffix = 10"

definition issued_name_suffix :: "string \<Rightarrow> string \<Rightarrow> string" where
  "issued_name_suffix identity uid =
     to_lower (take issued_suffix (base32 (sha256_sum (uid @ ''/'' @ identity))))"

definition issued_name_for :: "string \<Rightarrow> string \<Rightarrow> string \<Rightarrow> string \<Rightarrow> string" where
  "issued_name_for namespace name identity uid =
     (let suffix = issued_name_suffix identity uid;
          readable = namespace @ ''.'' @ name;
          readable = (if identity \<noteq> '''' then readable @ ''.'' @ identity else readable);
          room = issued_name_limit - length suffix - 1;
          readable = (if room < length readable then trim_suffix (take room readable) ''.'' else readable)
      in readable @ ''-'' @ suffix)"

section \<open>What Databricks is told\<close>

definition display_name_limit :: nat where "display_name_limit = 100"
definition display_name_prefix :: string where "display_name_prefix = ''k8s-''"

definition display_name_for :: "string \<Rightarrow> string \<Rightarrow> string \<Rightarrow> string" where
  "display_name_for namespace name identity =
     (let full = display_name_prefix @ namespace @ ''-'' @ name;
          full = (if identity \<noteq> '''' then full @ ''-'' @ identity else full)
      in if length full \<le> display_name_limit then full else take display_name_limit full)"

definition subject_for :: "string \<Rightarrow> string \<Rightarrow> string" where
  "subject_for namespace name = ''system:serviceaccount:'' @ namespace @ '':'' @ name"

definition marker_limit :: nat where "marker_limit = 36"

record issuing =
  ig_issuer :: string
  ig_namespace :: string
  ig_name :: string
  ig_uid :: string
  ig_operator :: string
  ig_identity :: string

definition issuing_subject :: "issuing \<Rightarrow> string" where
  "issuing_subject i = subject_for (ig_namespace i) (ig_name i)"

text \<open>Go's slice would panic beyond the 52 characters of the text; both widths are 12.\<close>

definition truncated_hash :: "string \<Rightarrow> nat \<Rightarrow> string" where
  "truncated_hash s width = take width (base32 (sha256_sum s))"

definition part :: "string \<Rightarrow> string" where
  "part s = truncated_hash s (marker_limit div 3)"

definition marker_for :: "issuing \<Rightarrow> string" where
  "marker_for i = part (ig_issuer i) @ part (ig_operator i) @ part (ig_uid i @ ''/'' @ ig_identity i)"

definition cluster_marker :: "string \<Rightarrow> string" where
  "cluster_marker issuer = part issuer"

definition federation_policy_id_prefix :: string where "federation_policy_id_prefix = ''k8s-''"
definition federation_policy_id_part :: nat where "federation_policy_id_part = 12"
definition federation_policy_id_floor :: nat where "federation_policy_id_floor = 2"
definition federation_policy_id_ceiling :: nat where "federation_policy_id_ceiling = 63"

definition federation_policy_id_for :: "string \<Rightarrow> string \<Rightarrow> string" where
  "federation_policy_id_for issuer subject =
     federation_policy_id_prefix @
     to_lower (truncated_hash issuer federation_policy_id_part @
               truncated_hash subject federation_policy_id_part)"

section \<open>Hash texts\<close>

lemma length_hash_text [simp]: "length (base32 (sha256_sum s)) = 52"
  by (simp add: length_base32)

lemma length_truncated_hash: "width \<le> 52 \<Longrightarrow> length (truncated_hash s width) = width"
  by (simp add: truncated_hash_def)

lemma length_part [simp]: "length (part s) = 12"
  by (simp add: part_def length_truncated_hash marker_limit_def)

lemma set_take_within: "set xs \<subseteq> A \<Longrightarrow> set (take n xs) \<subseteq> A"
  using set_take_subset [of n xs] by blast

lemma set_truncated_hash: "set (truncated_hash s width) \<subseteq> set base32_alphabet"
  unfolding truncated_hash_def by (rule set_take_within [OF set_base32])

lemma lower_hash_alnum: "set s \<subseteq> set base32_alphabet \<Longrightarrow> c \<in> set (to_lower s) \<Longrightarrow> lower_alnum c"
proof -
  have digits: "set ''234567'' \<subseteq> set digit_chars" by code_simp
  assume "set s \<subseteq> set base32_alphabet" "c \<in> set (to_lower s)"
  then have "c \<in> set lower_chars \<union> set ''234567''" using to_lower_base32 by blast
  with digits show ?thesis unfolding lower_alnum_def by blast
qed

lemma length_issued_name_suffix [simp]: "length (issued_name_suffix identity uid) = 10"
  by (simp add: issued_name_suffix_def issued_suffix_def)

lemma issued_name_suffix_alnum: "c \<in> set (issued_name_suffix identity uid) \<Longrightarrow> lower_alnum c"
  unfolding issued_name_suffix_def by (erule lower_hash_alnum [OF set_take_within [OF set_base32]])

section \<open>Dotted names cut short\<close>

lemma split_on_snoc:
  "c \<notin> set t \<Longrightarrow> split_on c (p @ t) = butlast (split_on c p) @ [last (split_on c p) @ t]"
proof (induction p)
  case (Cons x p)
  obtain w ws where w: "split_on c p = w # ws" by (cases "split_on c p") simp_all
  with Cons show ?case by (cases ws) simp_all
qed simp

lemma last_split_on_Nil: "last (split_on c p) = [] \<longleftrightarrow> p = [] \<or> last p = c"
proof (cases p rule: rev_cases)
  case (snoc q x)
  then show ?thesis by (cases "x = c") (simp_all add: split_on_append [of c q "[]", simplified] split_on_snoc)
qed simp

text \<open>What the last label of a name cut anywhere can be.\<close>

definition dns_pre :: "string \<Rightarrow> bool" where
  "dns_pre w \<longleftrightarrow> w = [] \<or> lower_alnum (hd w) \<and> (\<forall>c \<in> set w. label_char c)"

lemma dns_pre_take: "dns_word (p @ q) \<Longrightarrow> dns_pre p"
  by (cases p) (auto simp: dns_word_def dns_pre_def)

lemma cut_dotted_name:
  "list_all dns_word (split_on (CHR ''.'') (p @ q)) \<Longrightarrow>
     list_all dns_word (butlast (split_on (CHR ''.'') p)) \<and> dns_pre (last (split_on (CHR ''.'') p))"
proof (induction p rule: length_induct)
  case (1 p)
  show ?case
  proof (cases "CHR ''.'' \<in> set p")
    case True
    then obtain a b where p: "p = a @ CHR ''.'' # b" "CHR ''.'' \<notin> set a" by (meson split_list_first)
    with "1.prems" have "dns_word a" "list_all dns_word (split_on (CHR ''.'') (b @ q))"
      by (simp_all add: split_on_append)
    with "1.IH" p show ?thesis by (simp add: split_on_append)
  next
    case False
    show ?thesis
    proof (cases "CHR ''.'' \<in> set q")
      case True
      then obtain a b where "q = a @ CHR ''.'' # b" "CHR ''.'' \<notin> set a" by (meson split_list_first)
      with False "1.prems" have "dns_word (p @ a)"
        using split_on_append [of "CHR ''.''" "p @ a" b] by simp
      with False show ?thesis by (simp add: dns_pre_take)
    next
      case no: False
      with False "1.prems" have "dns_word (p @ q)" by simp
      with False show ?thesis by (simp add: dns_pre_take)
    qed
  qed
qed

lemma dns_pre_suffixed:
  assumes "dns_pre w" "w \<noteq> []" "s \<noteq> []" "\<forall>c \<in> set s. lower_alnum c"
  shows "dns_word (w @ CHR ''-'' # s)"
  using assms by (auto simp: dns_pre_def dns_word_def)

lemma trimmed_readable:
  assumes "list_all dns_word (split_on (CHR ''.'') (p @ q))" "p \<noteq> []"
  defines "r \<equiv> trim_suffix p ''.''"
  shows "list_all dns_word (butlast (split_on (CHR ''.'') r)) \<and>
    dns_pre (last (split_on (CHR ''.'') r)) \<and> last (split_on (CHR ''.'') r) \<noteq> []"
proof (cases "suffix ''.'' p")
  case True
  then obtain r' where p: "p = r' @ ''.''" by (auto simp: suffix_def)
  then have r: "r = r'" using True by (simp add: r_def trim_suffix_def)
  from p have "split_on (CHR ''.'') p = split_on (CHR ''.'') r @ [[]]"
    using split_on_append [of "CHR ''.''" r' "[]"] r by simp
  with cut_dotted_name [OF assms(1)] have w: "list_all dns_word (split_on (CHR ''.'') r)" by simp
  then have "dns_word (last (split_on (CHR ''.'') r))" by (simp add: list_all_iff)
  with w show ?thesis
    by (auto simp: list_all_iff dns_word_def dns_pre_def dest: in_set_butlastD)
next
  case False
  then have r: "r = p" by (simp add: r_def trim_suffix_def)
  have "last p \<noteq> CHR ''.''"
    using False append_butlast_last_id [OF \<open>p \<noteq> []\<close>] by (metis suffix_def)
  with \<open>p \<noteq> []\<close> have "last (split_on (CHR ''.'') p) \<noteq> []" by (simp add: last_split_on_Nil)
  with cut_dotted_name [OF assms(1)] r show ?thesis by simp
qed

definition readable_for :: "string \<Rightarrow> string \<Rightarrow> string \<Rightarrow> string" where
  "readable_for namespace name identity =
     namespace @ ''.'' @ name @ (if identity \<noteq> '''' then ''.'' @ identity else '''')"

lemma issued_name_for_alt:
  "issued_name_for namespace name identity uid =
     (let r = readable_for namespace name identity
      in (if 242 < length r then trim_suffix (take 242 r) ''.'' else r) @ ''-'' @ issued_name_suffix identity uid)"
  by (simp add: issued_name_for_def readable_for_def issued_name_limit_def Let_def)

lemma readable_words:
  assumes "rfc1123_label namespace" "rfc1123_subdomain name" "identity = '''' \<or> dns_word identity"
  shows "list_all dns_word (split_on (CHR ''.'') (readable_for namespace name identity))"
proof -
  have ns: "CHR ''.'' \<notin> set namespace" "dns_word namespace"
    using assms(1) dns_word_no_sep by (auto simp: rfc1123_label_def)
  moreover have "identity \<noteq> '''' \<Longrightarrow> CHR ''.'' \<notin> set identity"
    using assms(3) dns_word_no_sep by auto
  ultimately show ?thesis
    using assms(2,3) by (auto simp: readable_for_def split_on_append rfc1123_subdomain_def)
qed

lemma issued_name_length: "length (issued_name_for namespace name identity uid) \<le> 253"
  by (simp add: issued_name_for_alt Let_def trim_suffix_def)

lemma take_readable_ne: "take 242 (readable_for namespace name identity) \<noteq> []"
  by (simp add: readable_for_def)

lemma trim_no_dot: "length r \<le> 242 \<Longrightarrow> last r \<noteq> CHR ''.'' \<Longrightarrow> r \<noteq> [] \<Longrightarrow> trim_suffix r ''.'' = r"
  by (auto simp: trim_suffix_def suffix_def)

lemma to_lower_inj:
  assumes "set a \<subseteq> set base32_alphabet" "set b \<subseteq> set base32_alphabet" "to_lower a = to_lower b"
  shows "a = b"
proof -
  let ?f = "\<lambda>c. case map_of (zip upper_chars lower_chars) c of None \<Rightarrow> c | Some d \<Rightarrow> d"
  have "distinct (map ?f base32_alphabet)" by code_simp
  then have "inj_on ?f (set base32_alphabet)" by (simp add: distinct_map)
  moreover have "map ?f a = map ?f b" using assms(3) by (simp add: to_lower_def)
  ultimately show ?thesis using assms(1,2) by (metis (no_types, lifting) Un_least inj_on_map_eq_map inj_on_subset)
qed

section \<open>The names fit\<close>

text \<open>C24: The name derived for a record is a valid Kubernetes object name, an RFC 1123 subdomain of
  at most 253 bytes, for every legal namespace, ServiceAccount name and identity name, the ones
  whose readable half has to be cut included.\<close>
theorem issued_name_valid:
  assumes "rfc1123_label namespace" "rfc1123_subdomain name"
    and "identity = '''' \<or> valid_identity_name key identity = None"
  shows "rfc1123_subdomain (issued_name_for namespace name identity uid)"
proof -
  let ?r = "readable_for namespace name identity" and ?s = "issued_name_suffix identity uid"
  define p where "p = take 242 ?r"
  define q where "q = (if 242 < length ?r then trim_suffix p ''.'' else ?r)"
  have id: "identity = '''' \<or> dns_word identity"
    using assms(3) by (auto simp: valid_identity_name_None)
  note words = readable_words [OF assms(1,2) id]
  then have cutwords: "list_all dns_word (split_on (CHR ''.'') (p @ drop 242 ?r))" by (simp add: p_def)
  have "p \<noteq> []" unfolding p_def by (rule take_readable_ne)
  note trimmed = trimmed_readable [OF cutwords this]
  have q: "list_all dns_word (butlast (split_on (CHR ''.'') q))" "dns_pre (last (split_on (CHR ''.'') q))"
    "last (split_on (CHR ''.'') q) \<noteq> []"
  proof (atomize (full), cases "242 < length ?r")
    case False
    have "dns_word (last (split_on (CHR ''.'') ?r))" using words by (simp add: list_all_iff)
    then show "list_all dns_word (butlast (split_on (CHR ''.'') q)) \<and>
        dns_pre (last (split_on (CHR ''.'') q)) \<and> last (split_on (CHR ''.'') q) \<noteq> []"
      using False words by (auto simp: q_def list_all_iff dns_word_def dns_pre_def dest: in_set_butlastD)
  qed (use trimmed in \<open>simp add: q_def\<close>)
  have s: "?s \<noteq> []" "\<forall>c \<in> set ?s. lower_alnum c"
    using issued_name_suffix_alnum length_issued_name_suffix [of identity uid] by force+
  then have dot: "CHR ''.'' \<notin> set (CHR ''-'' # ?s)" by auto
  have "list_all dns_word (split_on (CHR ''.'') (q @ CHR ''-'' # ?s))"
    using q(1) dns_pre_suffixed [OF q(2,3) s] by (simp add: split_on_snoc [OF dot])
  moreover have "issued_name_for namespace name identity uid = q @ CHR ''-'' # ?s"
    by (simp add: issued_name_for_alt Let_def q_def p_def)
  ultimately show ?thesis
    using issued_name_length [of namespace name identity uid] by (simp add: rfc1123_subdomain_def)
qed

theorem issued_name_valid_witness:
  "rfc1123_subdomain (issued_name_for ''team-a'' (replicate 240 (CHR ''a'')) ''reader'' ''7f1c'')"
proof (rule issued_name_valid [where key = "''k''"])
  show "rfc1123_label ''team-a''" by code_simp
  have "split_on (CHR ''.'') (replicate 240 (CHR ''a'')) = [replicate 240 (CHR ''a'')]" by simp
  moreover have "dns_word (replicate 240 (CHR ''a''))"
    by (simp add: dns_word_def lower_alnum_def lower_chars_def label_char_def)
  ultimately show "rfc1123_subdomain (replicate 240 (CHR ''a''))" by (simp add: rfc1123_subdomain_def)
  show "''reader'' = '''' \<or> valid_identity_name ''k'' ''reader'' = None" by code_simp
qed

text \<open>Two issuings whose ServiceAccount uid or identity name differ get different record names,
  whatever the readable halves are cut back to, as long as the hash keeps the two inputs apart.\<close>
theorem issued_names_apart:
  assumes "CHR ''/'' \<notin> set uid" "CHR ''/'' \<notin> set uid'"
    and "issued_name_suffix identity uid = issued_name_suffix identity' uid' \<longrightarrow>
           uid @ ''/'' @ identity = uid' @ ''/'' @ identity'"
    and "issued_name_for namespace name identity uid = issued_name_for namespace' name' identity' uid'"
  shows "uid = uid' \<and> identity = identity'"
proof -
  from assms(4) have "issued_name_suffix identity uid = issued_name_suffix identity' uid'"
    by (simp add: issued_name_for_alt Let_def append_eq_append_conv)
  with assms(3) have eq: "uid @ CHR ''/'' # identity = uid' @ CHR ''/'' # identity'" by simp
  with assms(1,2) show ?thesis by (metis cut_append prod.inject)
qed

theorem issued_names_apart_witness:
  "issued_name_for ''a'' ''b'' '''' ''u'' = issued_name_for ''a'' ''b'' '''' ''u'' \<and> ''u'' = ''u''"
  using issued_names_apart [of "''u''" "''u''" "''''" "''''" "''a''" "''b''" "''a''" "''b''"] by simp

text \<open>Every marker is exactly the 36 characters \<open>externalId\<close> holds, begins with the marker
  of its cluster, and, as far as the hash tells its inputs apart, is carried by one issuing
  only: the same issuer, operator, ServiceAccount uid and identity name.\<close>
theorem marker_identifies:
  assumes "CHR ''/'' \<notin> set (ig_uid i)" "CHR ''/'' \<notin> set (ig_uid j)"
    and "part (ig_issuer i) = part (ig_issuer j) \<longrightarrow> ig_issuer i = ig_issuer j"
    and "part (ig_operator i) = part (ig_operator j) \<longrightarrow> ig_operator i = ig_operator j"
    and "part (ig_uid i @ ''/'' @ ig_identity i) = part (ig_uid j @ ''/'' @ ig_identity j) \<longrightarrow>
           ig_uid i @ ''/'' @ ig_identity i = ig_uid j @ ''/'' @ ig_identity j"
  shows "length (marker_for i) = 36 \<and> take 12 (marker_for i) = cluster_marker (ig_issuer i) \<and>
    (marker_for i = marker_for j \<longleftrightarrow>
       ig_issuer i = ig_issuer j \<and> ig_operator i = ig_operator j \<and>
       ig_uid i = ig_uid j \<and> ig_identity i = ig_identity j)"
proof (intro conjI)
  show "length (marker_for i) = 36" by (simp add: marker_for_def)
  show "take 12 (marker_for i) = cluster_marker (ig_issuer i)"
    by (simp add: marker_for_def cluster_marker_def)
  have "marker_for i = marker_for j \<longleftrightarrow>
      part (ig_issuer i) = part (ig_issuer j) \<and> part (ig_operator i) = part (ig_operator j) \<and>
      part (ig_uid i @ ''/'' @ ig_identity i) = part (ig_uid j @ ''/'' @ ig_identity j)"
    by (simp add: marker_for_def append_eq_append_conv)
  also have "\<dots> \<longleftrightarrow> ig_issuer i = ig_issuer j \<and> ig_operator i = ig_operator j \<and>
      ig_uid i @ CHR ''/'' # ig_identity i = ig_uid j @ CHR ''/'' # ig_identity j"
    using assms(3-5) by (metis append_Cons append_Nil)
  also have "ig_uid i @ CHR ''/'' # ig_identity i = ig_uid j @ CHR ''/'' # ig_identity j \<longleftrightarrow>
      ig_uid i = ig_uid j \<and> ig_identity i = ig_identity j"
    using assms(1,2) by (metis cut_append prod.inject)
  finally show "marker_for i = marker_for j \<longleftrightarrow>
       ig_issuer i = ig_issuer j \<and> ig_operator i = ig_operator j \<and>
       ig_uid i = ig_uid j \<and> ig_identity i = ig_identity j" .
qed

theorem marker_identifies_witness:
  "length (marker_for \<lparr>ig_issuer = ''https://issuer'', ig_namespace = ''team-a'', ig_name = ''etl'',
      ig_uid = ''7f1c'', ig_operator = ''ops/acc'', ig_identity = ''reader''\<rparr>) = 36"
  using marker_identifies [of "\<lparr>ig_issuer = ''https://issuer'', ig_namespace = ''team-a'', ig_name = ''etl'',
      ig_uid = ''7f1c'', ig_operator = ''ops/acc'', ig_identity = ''reader''\<rparr>"
      "\<lparr>ig_issuer = ''https://issuer'', ig_namespace = ''team-a'', ig_name = ''etl'',
      ig_uid = ''7f1c'', ig_operator = ''ops/acc'', ig_identity = ''reader''\<rparr>"]
  by simp

text \<open>Every federation policy id has 28 characters, within the 2 to 63 Databricks accepts, all of
  them lowercase letters, digits or hyphens, and it is decided by the hashes of the issuer and
  the subject: two ids are equal exactly when both hashes are.\<close>
theorem federation_policy_id_fits:
  "length (federation_policy_id_for issuer subject) = 28 \<and>
   federation_policy_id_floor \<le> 28 \<and> 28 \<le> federation_policy_id_ceiling \<and>
   list_all label_char (federation_policy_id_for issuer subject) \<and>
   (federation_policy_id_for issuer subject = federation_policy_id_for issuer' subject' \<longleftrightarrow>
      part issuer = part issuer' \<and> part subject = part subject')"
proof (intro conjI)
  let ?h = "\<lambda>s. truncated_hash s federation_policy_id_part"
  have len: "length (?h s) = 12" for s
    by (simp add: length_truncated_hash federation_policy_id_part_def)
  show "length (federation_policy_id_for issuer subject) = 28"
    by (simp add: federation_policy_id_for_def federation_policy_id_prefix_def len)
  have "list_all label_char federation_policy_id_prefix" by code_simp
  moreover have "set (?h issuer @ ?h subject) \<subseteq> set base32_alphabet"
    using set_truncated_hash by simp
  then have "\<forall>c \<in> set (to_lower (?h issuer @ ?h subject)). label_char c"
    using lower_hash_alnum lower_alnum_label by blast
  ultimately show "list_all label_char (federation_policy_id_for issuer subject)"
    by (simp add: federation_policy_id_for_def list_all_iff ball_Un)
  have "part s = ?h s" for s by (simp add: part_def marker_limit_def federation_policy_id_part_def)
  moreover have "to_lower (?h issuer @ ?h subject) = to_lower (?h issuer' @ ?h subject') \<longleftrightarrow>
      ?h issuer @ ?h subject = ?h issuer' @ ?h subject'"
    by (metis set_truncated_hash set_append Un_least to_lower_inj)
  ultimately show "federation_policy_id_for issuer subject = federation_policy_id_for issuer' subject' \<longleftrightarrow>
      part issuer = part issuer' \<and> part subject = part subject'"
    using len by (simp add: federation_policy_id_for_def)
qed (simp_all add: federation_policy_id_floor_def federation_policy_id_ceiling_def)

end
