(* ===== verification/ServicePrincipals.thy ===== *)
theory ServicePrincipals
  imports Effects Naming
begin

text \<open>
  The calls the operator makes of a Databricks account: \<open>internal/databricks/serviceprincipals.go\<close>,
  \<open>New\<close> of \<open>client.go\<close> and \<open>ReadTokenClaims\<close> of \<open>tokenclaims.go\<close>. Each method of \<open>Clients\<close> is
  a pass over the SDK's requests, with the stand-in \<open>unconfigured\<close> as its other case. Lemmas: what
  each call asks of Databricks, and what its answer says about what was answered to it.
\<close>

section \<open>Numbers\<close>

text \<open>\<open>strconv.ParseInt(s, 10, 64)\<close>.\<close>

definition digit_value :: "char \<Rightarrow> nat option" where
  "digit_value c = map_of (zip digit_chars [0..<10]) c"

text \<open>\<open>ParseUint\<close> gives up at the first character that is no digit or takes the value past 64 bits.\<close>

fun parse_digits :: "nat \<Rightarrow> string \<Rightarrow> string + nat" where
  "parse_digits n [] = Inr n"
| "parse_digits n (c # cs) =
     (case digit_value c of
        None \<Rightarrow> Inl ''invalid syntax''
      | Some d \<Rightarrow> if 2 ^ 64 \<le> n * 10 + d then Inl ''value out of range'' else parse_digits (n * 10 + d) cs)"

definition parse_int64 :: "(string \<Rightarrow> string) \<Rightarrow> string \<Rightarrow> error + int" where
  "parse_int64 q s =
     (let fail = (\<lambda>why. Inl (ErrorText (''strconv.ParseInt: parsing '' @ q s @ '': '' @ why)));
          neg = (s \<noteq> [] \<and> hd s = CHR ''-'');
          digits = (if s \<noteq> [] \<and> (hd s = CHR ''-'' \<or> hd s = CHR ''+'') then tl s else s)
      in if digits = [] then fail ''invalid syntax''
         else (case parse_digits 0 digits of
             Inl why \<Rightarrow> fail why
           | Inr n \<Rightarrow>
               if \<not> neg \<and> 2 ^ 63 \<le> n then fail ''value out of range''
               else if neg \<and> 2 ^ 63 < n then fail ''value out of range''
               else Inr (if neg then - int n else int n)))"

lemma digit_value_simps [simp]:
  "digit_value (CHR ''0'') = Some 0" "digit_value (CHR ''1'') = Some 1" "digit_value (CHR ''2'') = Some 2"
  "digit_value (CHR ''3'') = Some 3" "digit_value (CHR ''4'') = Some 4" "digit_value (CHR ''5'') = Some 5"
  "digit_value (CHR ''6'') = Some 6" "digit_value (CHR ''7'') = Some 7" "digit_value (CHR ''8'') = Some 8"
  "digit_value (CHR ''9'') = Some 9"
  by code_simp+

lemma parse_int64_17: "parse_int64 q ''17'' = Inr 17"
  by (simp add: parse_int64_def Let_def)

lemma parse_int64_empty: "parse_int64 q s = Inr n \<Longrightarrow> s \<noteq> ''''"
  by (auto simp: parse_int64_def Let_def)

section \<open>Building the clients and reading the token\<close>

definition new_clients :: "config \<Rightarrow> (error + clients) prog" where
  "new_clients cfg =
     (case validate cfg of
        Some err \<Rightarrow> Ret (Inl err)
      | None \<Rightarrow> AskClient (sdk_config_of cfg) (\<lambda>r.
          (case r of
             Some err \<Rightarrow> Ret (Inl (Wrapped ''building the Databricks account client: '' err ''''))
           | None \<Rightarrow> Ret (Inr (Installed cfg)))))"

definition read_token_claims :: "extern \<Rightarrow> string \<Rightarrow> (error + token_claims) prog" where
  "read_token_claims x path =
     (if path = '''' then Ret (Inl (ErrorText ''no projected token file is configured''))
      else AskFile path (\<lambda>r.
        (case r of
           Inl err \<Rightarrow> Ret (Inl (Wrapped (''reading the projected token at '' @ path @ '': '') err ''''))
         | Inr raw \<Rightarrow> Ret (parse_token_claims x raw))))"

section \<open>Service principals\<close>

definition no_issuer_for :: "issuing \<Rightarrow> error" where
  "no_issuer_for i = Wrapped '''' ErrNoIssuer ('' for '' @ issuing_subject i)"

definition creating_failed :: "issuing \<Rightarrow> error \<Rightarrow> error" where
  "creating_failed i err = Wrapped (''creating a service principal for '' @ issuing_subject i @ '': '') err ''''"

definition create_service_principal :: "clients \<Rightarrow> issuing \<Rightarrow> (error + string \<times> string) prog" where
  "create_service_principal c i =
     (case c of
        Unconfigured name ns reason \<Rightarrow> Ret (Inl (unconfigured_err name ns reason))
      | Installed cfg \<Rightarrow>
          if trim_space (ig_issuer i) = '''' then Ret (Inl (no_issuer_for i))
          else AskPrincipal cfg
            (CreatePrincipal (display_name_for (ig_namespace i) (ig_name i) (ig_identity i)) (marker_for i) True)
            (\<lambda>r. (case r of
               Inl err \<Rightarrow>
                 Ret (Inl (creating_failed i err))
             | Inr created \<Rightarrow> Ret (Inr (pr_id created, pr_application_id created)))))"

definition carrying :: "principal list \<Rightarrow> string \<Rightarrow> principal list" where
  "carrying principals marker = filter (\<lambda>p. pr_external_id p = marker) principals"

definition display_name_filter :: "(string \<Rightarrow> string) \<Rightarrow> string \<Rightarrow> string" where
  "display_name_filter q display = ''displayName eq '' @ q display"

definition several_carry :: "nat \<Rightarrow> issuing \<Rightarrow> error" where
  "several_carry n i =
     ErrorText (show_nat n @ '' service principals in this account carry '' @ marker_for i @ '', which is '' @
       issuing_subject i @ [CHR 0x27] @
       ''s marker; which of them belongs to it cannot be told from here'')"

definition pick_carrier :: "issuing \<Rightarrow> principal list \<Rightarrow> error + (string \<times> string) option" where
  "pick_carrier i candidates =
     (case candidates of
        [] \<Rightarrow> Inr None
      | [p] \<Rightarrow> Inr (Some (pr_id p, pr_application_id p))
      | _ \<Rightarrow> Inl (several_carry (length candidates) i))"

definition looking_failed :: "string \<Rightarrow> error \<Rightarrow> error" where
  "looking_failed display err = Wrapped (''looking for a service principal named '' @ display @ '': '') err ''''"

definition listing_failed :: "issuing \<Rightarrow> error \<Rightarrow> error" where
  "listing_failed i err =
     Wrapped (''listing this account'' @ [CHR 0x27] @ ''s service principals to find the one marked '' @
       marker_for i @ '' for '' @ issuing_subject i @ '': '') err ''''"

definition find_service_principal ::
  "extern \<Rightarrow> clients \<Rightarrow> issuing \<Rightarrow> (error + (string \<times> string) option) prog" where
  "find_service_principal x c i =
     (case c of
        Unconfigured name ns reason \<Rightarrow> Ret (Inl (unconfigured_err name ns reason))
      | Installed cfg \<Rightarrow>
          if trim_space (ig_issuer i) = '''' then Ret (Inl (no_issuer_for i))
          else
            (let display = display_name_for (ig_namespace i) (ig_name i) (ig_identity i);
                 marker = marker_for i
             in AskPrincipals cfg (Some (display_name_filter (quote x) display)) (\<lambda>r.
                (case r of
                   Inl err \<Rightarrow>
                     Ret (Inl (looking_failed display err))
                 | Inr namesakes \<Rightarrow>
                     if carrying namesakes marker = [] then
                       AskPrincipals cfg None (\<lambda>r.
                         (case r of
                            Inl err \<Rightarrow>
                              Ret (Inl (listing_failed i err))
                          | Inr everything \<Rightarrow> Ret (pick_carrier i (carrying everything marker))))
                     else Ret (pick_carrier i (carrying namesakes marker))))))"

definition no_id_to_look_up :: error where
  "no_id_to_look_up =
     ErrorText (''no service principal id to look up: an empty one asks Databricks '' @
       ''for the whole collection, which answers 200'')"

definition lookup_failed :: "string \<Rightarrow> error \<Rightarrow> error" where
  "lookup_failed sp err = Wrapped (''looking up service principal '' @ sp @ '': '') err ''''"

definition service_principal_exists :: "clients \<Rightarrow> string \<Rightarrow> (error + bool) prog" where
  "service_principal_exists c sp =
     (case c of
        Unconfigured name ns reason \<Rightarrow> Ret (Inl (unconfigured_err name ns reason))
      | Installed cfg \<Rightarrow>
          if sp = '''' then
            Ret (Inl no_id_to_look_up)
          else AskPrincipal cfg (GetPrincipal sp) (\<lambda>r.
            (case r of
               Inl err \<Rightarrow>
                 if kind_of (Some err) = NotFound then Ret (Inr False)
                 else Ret (Inl (lookup_failed sp err))
             | Inr _ \<Rightarrow> Ret (Inr True))))"

definition deleting_failed :: "string \<Rightarrow> error \<Rightarrow> error" where
  "deleting_failed sp err = Wrapped (''deleting service principal '' @ sp @ '': '') err ''''"

definition delete_service_principal :: "clients \<Rightarrow> string \<Rightarrow> error option prog" where
  "delete_service_principal c sp =
     (case c of
        Unconfigured name ns reason \<Rightarrow> Ret (Some (unconfigured_err name ns reason))
      | Installed cfg \<Rightarrow> AskCall cfg (DeletePrincipal sp) (\<lambda>r.
          (case r of
             Some err \<Rightarrow>
               if kind_of (Some err) = NotFound then Ret None
               else Ret (Some (deleting_failed sp err))
           | None \<Rightarrow> Ret None)))"

section \<open>Federation policies\<close>

definition federation_policy_for :: "string \<Rightarrow> string \<Rightarrow> string \<Rightarrow> policy" where
  "federation_policy_for issuer subject audience =
     \<lparr>po_id = '''', po_description = ''Kubernetes workload '' @ subject,
      po_oidc = Some \<lparr>oi_issuer = issuer, oi_subject = subject, oi_audiences = [audience]\<rparr>\<rparr>"

definition trusts :: "oidc_policy option \<Rightarrow> string \<Rightarrow> string \<Rightarrow> string \<Rightarrow> bool" where
  "trusts p issuer subject audience =
     (case p of None \<Rightarrow> False
      | Some o1 \<Rightarrow> oi_issuer o1 = issuer \<and> oi_subject o1 = subject \<and> oi_audiences o1 = [audience])"

definition already_exists :: "error \<Rightarrow> bool" where
  "already_exists err = is_sentinel ae_resource_conflict err"

definition restating_failed :: "extern \<Rightarrow> string \<Rightarrow> string \<Rightarrow> string \<Rightarrow> string \<Rightarrow> error \<Rightarrow> error" where
  "restating_failed x sp policy_id subject audience err =
     Wrapped (''restating policy '' @ policy_id @ '', which is what trusts '' @ subject @
       '' on service principal '' @ sp @ '', to name audience '' @ quote x audience @ '': '') err ''''"

definition restate_federation_policy ::
  "extern \<Rightarrow> config \<Rightarrow> int \<Rightarrow> string \<Rightarrow> string \<Rightarrow> string \<Rightarrow> string \<Rightarrow> string \<Rightarrow> error option prog" where
  "restate_federation_policy x cfg numeric sp policy_id issuer subject audience =
     AskPolicy cfg (UpdatePolicy numeric policy_id ''oidc_policy'' (federation_policy_for issuer subject audience))
       (\<lambda>r. (case r of
          Inl err \<Rightarrow>
            Ret (Some (restating_failed x sp policy_id subject audience err))
        | Inr _ \<Rightarrow> Ret None))"

definition named_otherwise :: "string \<Rightarrow> string \<Rightarrow> string \<Rightarrow> string \<Rightarrow> error" where
  "named_otherwise subject sp policy_id made =
     ErrorText (''the policy trusting '' @ subject @ '' on service principal '' @ sp @
       '' was asked to be named '' @ policy_id @ '' and Databricks named it '' @ made @
       '', so nothing here can find it again'')"

definition policy_lookup_failed :: "string \<Rightarrow> string \<Rightarrow> string \<Rightarrow> error \<Rightarrow> error" where
  "policy_lookup_failed policy_id subject sp err =
     Wrapped (''looking for policy '' @ policy_id @ '', which is what trusts '' @ subject @
       '' on service principal '' @ sp @ '': '') err ''''"

definition trusting_failed :: "string \<Rightarrow> string \<Rightarrow> error \<Rightarrow> error" where
  "trusting_failed subject sp err =
     Wrapped (''trusting '' @ subject @ '' on service principal '' @ sp @ '': '') err ''''"

definition ensure_federation_policy ::
  "extern \<Rightarrow> clients \<Rightarrow> string \<Rightarrow> string \<Rightarrow> string \<Rightarrow> string \<Rightarrow> error option prog" where
  "ensure_federation_policy x c sp issuer subject audience =
     (case c of
        Unconfigured name ns reason \<Rightarrow> Ret (Some (unconfigured_err name ns reason))
      | Installed cfg \<Rightarrow>
          (case parse_int64 (quote x) sp of
             Inl err \<Rightarrow> Ret (Some (ErrMalformedCoordinate ''servicePrincipalId'' sp err))
           | Inr numeric \<Rightarrow>
               (let policy_id = federation_policy_id_for issuer subject
                in AskPolicy cfg (GetPolicy numeric policy_id) (\<lambda>r.
                   (case r of
                      Inr standing \<Rightarrow>
                        if trusts (po_oidc standing) issuer subject audience then Ret None
                        else restate_federation_policy x cfg numeric sp policy_id issuer subject audience
                    | Inl err \<Rightarrow>
                        if kind_of (Some err) \<noteq> NotFound then
                          Ret (Some (policy_lookup_failed policy_id subject sp err))
                        else AskPolicy cfg
                          (CreatePolicy numeric policy_id (federation_policy_for issuer subject audience))
                          (\<lambda>r. (case r of
                             Inr created \<Rightarrow>
                               if po_id created \<noteq> '''' \<and> po_id created \<noteq> policy_id
                               then Ret (Some (named_otherwise subject sp policy_id (po_id created)))
                               else Ret None
                           | Inl err \<Rightarrow>
                               if already_exists err
                               then restate_federation_policy x cfg numeric sp policy_id issuer subject audience
                               else Ret (Some (trusting_failed subject sp err)))))))))"

definition forget_policy :: "config \<Rightarrow> int \<Rightarrow> string \<Rightarrow> error option prog" where
  "forget_policy cfg numeric policy_id =
     AskCall cfg (DeletePolicy numeric policy_id) (\<lambda>r.
       (case r of
          Some err \<Rightarrow> if kind_of (Some err) \<noteq> NotFound then Ret (Some err) else Ret None
        | None \<Rightarrow> Ret None))"

definition removing_the_trust :: "string \<Rightarrow> string \<Rightarrow> error \<Rightarrow> error" where
  "removing_the_trust subject sp err =
     Wrapped (''removing the trust in '' @ subject @ '' on service principal '' @ sp @ '': '') err ''''"

definition to_be_removed :: "string \<Rightarrow> string \<Rightarrow> string \<Rightarrow> policy \<Rightarrow> bool" where
  "to_be_removed issuer subject except p \<longleftrightarrow>
     \<not> (po_id p = except \<or>
        (case po_oidc p of None \<Rightarrow> True | Some o1 \<Rightarrow> oi_issuer o1 \<noteq> issuer \<or> oi_subject o1 \<noteq> subject))"

primrec remove_each_policy ::
  "config \<Rightarrow> int \<Rightarrow> string \<Rightarrow> string \<Rightarrow> string \<Rightarrow> string \<Rightarrow> policy list \<Rightarrow> error option prog" where
  "remove_each_policy cfg numeric sp issuer subject except [] = Ret None"
| "remove_each_policy cfg numeric sp issuer subject except (p # ps) =
     (if \<not> to_be_removed issuer subject except p
      then remove_each_policy cfg numeric sp issuer subject except ps
      else then_do (forget_policy cfg numeric (po_id p)) (\<lambda>r.
        (case r of
           Some err \<Rightarrow> Ret (Some (removing_the_trust subject sp err))
         | None \<Rightarrow> remove_each_policy cfg numeric sp issuer subject except ps)))"

definition policy_listing_failed :: "string \<Rightarrow> error \<Rightarrow> error" where
  "policy_listing_failed sp err =
     Wrapped (''listing the federation policies on service principal '' @ sp @ '': '') err ''''"

definition remove_listed_policies ::
  "config \<Rightarrow> int \<Rightarrow> string \<Rightarrow> string \<Rightarrow> string \<Rightarrow> string \<Rightarrow> error option prog" where
  "remove_listed_policies cfg numeric sp issuer subject except =
     AskPolicies cfg numeric (\<lambda>r.
       (case r of
          Inl err \<Rightarrow>
            Ret (Some (policy_listing_failed sp err))
        | Inr listed \<Rightarrow> remove_each_policy cfg numeric sp issuer subject except listed))"

definition remove_federation_policies ::
  "extern \<Rightarrow> clients \<Rightarrow> string \<Rightarrow> string \<Rightarrow> string \<Rightarrow> error option prog" where
  "remove_federation_policies x c sp issuer subject =
     (case c of
        Unconfigured name ns reason \<Rightarrow> Ret (Some (unconfigured_err name ns reason))
      | Installed cfg \<Rightarrow>
          (case parse_int64 (quote x) sp of
             Inl err \<Rightarrow> Ret (Some (ErrMalformedCoordinate ''servicePrincipalId'' sp err))
           | Inr numeric \<Rightarrow>
               (let named = federation_policy_id_for issuer subject
                in then_do (forget_policy cfg numeric named) (\<lambda>r.
                   (case r of
                      Some err \<Rightarrow> Ret (Some (removing_the_trust subject sp err))
                    | None \<Rightarrow> remove_listed_policies cfg numeric sp issuer subject named)))))"

section \<open>The contract every method of Clients keeps\<close>

text \<open>Which account an exchange was made in, if it was made in one.\<close>

definition event_account :: "event \<Rightarrow> config option" where
  "event_account e =
     (case e of EPrincipal cfg _ _ \<Rightarrow> Some cfg | EPrincipals cfg _ _ \<Rightarrow> Some cfg | EPolicy cfg _ _ \<Rightarrow> Some cfg
      | EPolicies cfg _ _ \<Rightarrow> Some cfg | ECall cfg _ _ \<Rightarrow> Some cfg | _ \<Rightarrow> None)"

lemma event_account_simps [simp]:
  "event_account (EPrincipal cfg q p) = Some cfg" "event_account (EPrincipals cfg f ps) = Some cfg"
  "event_account (EPolicy cfg o1 po) = Some cfg" "event_account (EPolicies cfg n pos) = Some cfg"
  "event_account (ECall cfg a r) = Some cfg"
  "event_account (EIssued qi ri) = None" "event_account (EIssuedList s rl) = None"
  "event_account (EAccount qa ra) = None" "event_account (EServiceAccount qs rs) = None"
  "event_account (EServiceAccounts ns rss) = None" "event_account (ENamespace m rn) = None"
  "event_account (ENamespaces kv rns) = None" "event_account (EIdentities qd rd) = None"
  "event_account (EPods m' rp) = None" "event_account (EWrite w rw) = None"
  "event_account (EClient sc rc) = None" "event_account (EFile pa rf) = None"
  "event_account (ENow t) = None" "event_account (ESlot sl) = None" "event_account (EPut pw) = None"
  by (simp_all add: event_account_def)

definition in_snapshot :: "clients \<Rightarrow> event \<Rightarrow> bool" where
  "in_snapshot c e \<longleftrightarrow> (\<forall>cfg. event_account e = Some cfg \<longrightarrow> c = Installed cfg)"

text \<open>
  What the controllers rely on of the interface: with nothing installed a method asks nothing and
  refuses with \<open>ErrNotConfigured\<close>, and otherwise everything it asks goes to the one account its
  clients were built from.
\<close>

locale client_method =
  fixes ask :: "clients \<Rightarrow> 'a prog" and refuses :: "error \<Rightarrow> 'a"
  assumes unconfigured: "ask (Unconfigured name ns why) = Ret (refuses (ErrNotConfigured name ns why))"
    and confined: "emits (\<lambda>e. event_account e = Some cfg) (ask (Installed cfg))"
begin

lemma calls_confined: "emits (\<lambda>e. event_account e = account_client c \<and> account_client c \<noteq> None) (ask c)"
  by (cases c) (auto simp: unconfigured account_client_def intro: emits_mono [OF confined])

lemma snapshot_confined: "emits (in_snapshot c) (ask c)"
  by (rule emits_mono [OF calls_confined]) (auto simp: in_snapshot_def account_client_def split: clients.splits)

lemma unconfigured_returns [simp]:
  "returns (ask (Unconfigured name ns why)) es r \<longleftrightarrow> es = [] \<and> r = refuses (ErrNotConfigured name ns why)"
  by (simp add: unconfigured)

end

lemma restate_confined:
  "emits (\<lambda>e. event_account e = Some cfg) (restate_federation_policy x cfg n sp pid iss sub aud)"
  by (simp add: restate_federation_policy_def split: sum.split)

lemma forget_confined: "emits (\<lambda>e. event_account e = Some cfg) (forget_policy cfg n pid)"
  by (auto simp: forget_policy_def split: option.split)

lemma remove_each_confined:
  "emits (\<lambda>e. event_account e = Some cfg) (remove_each_policy cfg n sp iss sub except ps)"
  by (induction ps) (auto intro!: emits_then_do forget_confined split: option.split)

interpretation create_m: client_method "\<lambda>c. create_service_principal c i" Inl for i
  by unfold_locales (auto simp: create_service_principal_def unconfigured_err_def split: sum.split)

interpretation find_m: client_method "\<lambda>c. find_service_principal x c i" Inl for x i
  by unfold_locales (auto simp: find_service_principal_def unconfigured_err_def Let_def split: sum.split)

interpretation exists_m: client_method "\<lambda>c. service_principal_exists c sp" Inl for sp
  by unfold_locales (auto simp: service_principal_exists_def unconfigured_err_def split: sum.split)

interpretation delete_m: client_method "\<lambda>c. delete_service_principal c sp" Some for sp
  by unfold_locales (auto simp: delete_service_principal_def unconfigured_err_def split: option.split)

interpretation ensure_m: client_method "\<lambda>c. ensure_federation_policy x c sp iss sub aud" Some for x sp iss sub aud
  by unfold_locales
    (auto simp: ensure_federation_policy_def unconfigured_err_def Let_def restate_confined split: sum.split)

interpretation remove_m: client_method "\<lambda>c. remove_federation_policies x c sp iss sub" Some for x sp iss sub
  by unfold_locales
    (auto simp: remove_federation_policies_def remove_listed_policies_def unconfigured_err_def Let_def
      remove_each_confined intro!: emits_then_do forget_confined split: sum.split option.split)

text \<open>With no usable DatabricksAccount installed, every method of the clients returns at once,
  having asked nothing of Databricks, with an error that is classified \<open>NotConfigured\<close>.\<close>
theorem unconfigured_asks_nothing:
  fixes name ns why
  defines "c \<equiv> Unconfigured name ns why"
  defines "err \<equiv> ErrNotConfigured name ns why"
  shows "(returns (create_service_principal c i) es r1 \<longleftrightarrow> es = [] \<and> r1 = Inl err) \<and>
    (returns (find_service_principal x c i) es r2 \<longleftrightarrow> es = [] \<and> r2 = Inl err) \<and>
    (returns (service_principal_exists c sp) es r3 \<longleftrightarrow> es = [] \<and> r3 = Inl err) \<and>
    (returns (delete_service_principal c sp) es r4 \<longleftrightarrow> es = [] \<and> r4 = Some err) \<and>
    (returns (ensure_federation_policy x c sp iss sub aud) es r5 \<longleftrightarrow> es = [] \<and> r5 = Some err) \<and>
    (returns (remove_federation_policies x c sp iss sub) es r6 \<longleftrightarrow> es = [] \<and> r6 = Some err) \<and>
    kind_of (Some err) = NotConfigured"
  by (simp add: c_def err_def)

section \<open>Finding a service principal\<close>

lemma pick_carrier_simps:
  "pick_carrier i ps = Inr (Some (sp, cid)) \<longleftrightarrow>
     (\<exists>p. ps = [p] \<and> pr_id p = sp \<and> pr_application_id p = cid)"
  "pick_carrier i ps = Inr None \<longleftrightarrow> ps = []"
  by (auto simp: pick_carrier_def split: list.split)

lemma find_adopts:
  "returns (find_service_principal x c i) es (Inr (Some (sp, cid))) \<Longrightarrow>
     \<exists>cfg f listed p. c = Installed cfg \<and> EPrincipals cfg f (Inr listed) \<in> set es \<and>
       carrying listed (marker_for i) = [p] \<and> pr_id p = sp"
  by (cases c) (auto simp: find_service_principal_def Let_def returns_branches unconfigured_err_def
      dest!: sym [of "Inr (Some _)" "pick_carrier i _"] simp: pick_carrier_simps, blast)

lemma delete_confirmed:
  "returns (delete_service_principal c sp) es None \<Longrightarrow>
     \<exists>cfg reply. c = Installed cfg \<and> ECall cfg (DeletePrincipal sp) reply \<in> set es \<and>
       (\<forall>err. reply = Some err \<longrightarrow> kind_of (Some err) = NotFound)"
  by (cases c) (auto simp: delete_service_principal_def returns_branches unconfigured_err_def)

text \<open>C20: A service principal is adopted only when, in a listing of the account the clients act in, it
  is the one and only carrier of the issuing's marker, and it is its id and client id that are
  returned; none is reported only when a listing of the whole account carries no marker of this
  issuing; two carriers in the listing that decides are an error; and nothing is written.\<close>
theorem find_service_principal_sound:
  assumes "returns (find_service_principal x (Installed cfg) i) es r"
  shows "(\<forall>sp cid. r = Inr (Some (sp, cid)) \<longrightarrow>
      (\<exists>f listed p. EPrincipals cfg f (Inr listed) = last es \<and> es \<noteq> [] \<and> carrying listed (marker_for i) = [p] \<and>
         pr_id p = sp \<and> pr_application_id p = cid)) \<and>
    (r = Inr None \<longrightarrow>
      (\<exists>listed. EPrincipals cfg None (Inr listed) \<in> set es \<and>
         (\<forall>p \<in> set listed. pr_external_id p \<noteq> marker_for i))) \<and>
    (\<forall>f listed. es \<noteq> [] \<and> last es = EPrincipals cfg f (Inr listed) \<and> 2 \<le> length (carrying listed (marker_for i)) \<longrightarrow>
      (\<exists>err. r = Inl err)) \<and>
    (\<forall>e \<in> set es. \<exists>f reply. e = EPrincipals cfg f reply)"
proof -
  let ?m = "marker_for i"
  have two: "2 \<le> length ps \<Longrightarrow> \<exists>err. pick_carrier i ps = Inl err" for ps
    by (auto simp: pick_carrier_def split: list.split)
  from assms consider
      (blank) err where "es = []" "r = Inl err"
    | (failed) f fail err where "es = [EPrincipals cfg f (Inl fail)]" "r = Inl err"
    | (failed_whole) f named fail err where
        "es = [EPrincipals cfg f (Inr named), EPrincipals cfg None (Inl fail)]" "r = Inl err"
    | (named) f named where "es = [EPrincipals cfg f (Inr named)]" "carrying named ?m \<noteq> []"
        "r = pick_carrier i (carrying named ?m)"
    | (whole) f named all where "es = [EPrincipals cfg f (Inr named), EPrincipals cfg None (Inr all)]"
        "r = pick_carrier i (carrying all ?m)"
    by (auto simp: find_service_principal_def Let_def returns_branches)
  then show ?thesis
  proof cases
    case named
    then show ?thesis using two [of "carrying named ?m"] by (auto simp: pick_carrier_simps dest: sym)
  next
    case whole
    then show ?thesis using two [of "carrying all ?m"]
      by (auto simp: pick_carrier_simps dest: sym) (auto simp: carrying_def filter_empty_conv)
  qed auto
qed

theorem find_service_principal_sound_witness:
  fixes x :: extern
  defines "i \<equiv> \<lparr>ig_issuer = ''https://k8s'', ig_namespace = ''team-a'', ig_name = ''etl'', ig_uid = ''7f1c'',
      ig_operator = ''ops/acc'', ig_identity = ''''\<rparr>"
    and "p \<equiv> \<lambda>m. \<lparr>pr_id = ''17'', pr_application_id = ''app'', pr_external_id = m, pr_display_name = ''k8s''\<rparr>"
  shows "\<exists>f listed q. EPrincipals config_zero f (Inr listed) = EPrincipals config_zero None (Inr [p (marker_for i)]) \<and>
    carrying listed (marker_for i) = [q] \<and> pr_id q = ''17'' \<and> pr_application_id q = ''app''"
proof -
  have t: "trim_space (ig_issuer i) \<noteq> ''''"
    unfolding i_def by code_simp
  have "returns (find_service_principal x (Installed config_zero) i)
      [EPrincipals config_zero (Some (display_name_filter (quote x)
         (display_name_for (ig_namespace i) (ig_name i) (ig_identity i)))) (Inr []),
       EPrincipals config_zero None (Inr [p (marker_for i)])] (Inr (Some (''17'', ''app'')))"
    using t by (simp add: find_service_principal_def Let_def carrying_def p_def pick_carrier_def)
  from find_service_principal_sound [OF this] show ?thesis by simp
qed

section \<open>Writing and taking back the trust\<close>

lemma federation_policy_for_trusts [simp]:
  "trusts (po_oidc (federation_policy_for issuer subject audience)) issuer subject audience"
  by (simp add: federation_policy_for_def trusts_def)

text \<open>
  What the operator relies on of the account's policies, as the API documents them: a get answers
  with the policy of that name or with a 404, a create under a free name makes the policy under it,
  an update replaces the fields its mask names, comma-separated or all of them under a star, and
  nothing else moves.
\<close>

definition mask_names :: "string \<Rightarrow> string \<Rightarrow> bool" where
  "mask_names which field \<longleftrightarrow> which = ''*'' \<or> field \<in> set (split_on (CHR '','') which)"

definition masked :: "string \<Rightarrow> policy \<Rightarrow> policy \<Rightarrow> policy" where
  "masked which new old =
     old\<lparr>po_description := (if mask_names which ''description'' then po_description new else po_description old),
         po_oidc := (if mask_names which ''oidc_policy'' then po_oidc new else po_oidc old)\<rparr>"

lemma masked_oidc [simp]: "masked ''oidc_policy'' new old = old\<lparr>po_oidc := po_oidc new\<rparr>"
  by (simp add: masked_def mask_names_def)

text \<open>The policy that stands once the trust is written: a new one, or the old one with that one field restated.\<close>

definition trusting :: "string \<Rightarrow> string \<Rightarrow> string \<Rightarrow> policy option \<Rightarrow> policy" where
  "trusting issuer subject audience standing =
     (let wanted = federation_policy_for issuer subject audience
      in case standing of
           None \<Rightarrow> wanted\<lparr>po_id := federation_policy_id_for issuer subject\<rparr>
         | Some old \<Rightarrow> old\<lparr>po_oidc := po_oidc wanted\<rparr>)"

lemma trusting_trusts [simp]: "trusts (po_oidc (trusting issuer subject audience standing)) issuer subject audience"
  by (simp add: trusting_def Let_def split: option.split)

lemma trusting_standing: "trusts (po_oidc p) issuer subject audience \<Longrightarrow> trusting issuer subject audience (Some p) = p"
  by (cases p) (auto simp: trusting_def trusts_def federation_policy_for_def split: option.splits)

locale policy_account =
  fixes policy_of :: "'s \<Rightarrow> int \<Rightarrow> string \<Rightarrow> policy option"
    and serve :: "'s \<Rightarrow> policy_request \<Rightarrow> (error + policy) \<times> 's"
  assumes get_there: "policy_of s n pid = Some p \<Longrightarrow> serve s (GetPolicy n pid) = (Inr p, s)"
    and get_missing: "policy_of s n pid = None \<Longrightarrow>
      \<exists>err. serve s (GetPolicy n pid) = (Inl err, s) \<and> kind_of (Some err) = NotFound"
    and create_free: "policy_of s n pid = None \<Longrightarrow>
      \<exists>s'. serve s (CreatePolicy n pid p) = (Inr (p\<lparr>po_id := pid\<rparr>), s') \<and>
        policy_of s' n pid = Some (p\<lparr>po_id := pid\<rparr>) \<and>
        (\<forall>m q. (m, q) \<noteq> (n, pid) \<longrightarrow> policy_of s' m q = policy_of s m q)"
    and update_there: "policy_of s n pid = Some old \<Longrightarrow>
      \<exists>s'. serve s (UpdatePolicy n pid which p) = (Inr (masked which p old), s') \<and>
        policy_of s' n pid = Some (masked which p old) \<and>
        (\<forall>m q. (m, q) \<noteq> (n, pid) \<longrightarrow> policy_of s' m q = policy_of s m q)"
begin

text \<open>The exchanges of a pass that talks to this account only.\<close>

fun served :: "'s \<Rightarrow> event list \<Rightarrow> 's \<Rightarrow> bool" where
  "served s [] s' \<longleftrightarrow> s' = s"
| "served s (EPolicy cfg q r # es) s' \<longleftrightarrow> r = fst (serve s q) \<and> served (snd (serve s q)) es s'"
| "served s (_ # es) s' \<longleftrightarrow> False"

text \<open>A call this account serves: it ends, whichever way it goes, and so.\<close>

definition serves_call :: "'s \<Rightarrow> 'a prog \<Rightarrow> ('a \<Rightarrow> 's \<Rightarrow> nat \<Rightarrow> bool) \<Rightarrow> bool" where
  "serves_call s p Q \<longleftrightarrow>
     (\<exists>es a s'. returns p es a \<and> served s es s') \<and>
     (\<forall>es a s'. returns p es a \<and> served s es s' \<longrightarrow> Q a s' (length es))"

lemma serves_call_Ret [simp]: "serves_call s (Ret a) Q \<longleftrightarrow> Q a s 0"
  by (force simp: serves_call_def)

lemma serves_call_ask [simp]:
  "serves_call s (AskPolicy cfg q k) Q \<longleftrightarrow> serves_call (snd (serve s q)) (k (fst (serve s q))) (\<lambda>a s' l. Q a s' (Suc l))"
proof -
  have ex: "(\<exists>es a s'. returns (AskPolicy cfg q k) es a \<and> served s es s') \<longleftrightarrow>
      (\<exists>es a s'. returns (k (fst (serve s q))) es a \<and> served (snd (serve s q)) es s')"
    (is "?l \<longleftrightarrow> ?r")
  proof
    assume ?r
    then obtain es a s' where "returns (k (fst (serve s q))) es a" "served (snd (serve s q)) es s'" by blast
    then show ?l by (intro exI [of _ "EPolicy cfg q (fst (serve s q)) # es"]) auto
  qed (auto simp: returns_branches, blast)
  have all: "(\<forall>es a s'. returns (AskPolicy cfg q k) es a \<and> served s es s' \<longrightarrow> Q a s' (length es)) \<longleftrightarrow>
      (\<forall>es a s'. returns (k (fst (serve s q))) es a \<and> served (snd (serve s q)) es s' \<longrightarrow> Q a s' (Suc (length es)))"
    (is "?l \<longleftrightarrow> ?r")
  proof
    assume l: ?l
    show ?r
    proof (intro allI impI)
      fix es a s' assume "returns (k (fst (serve s q))) es a \<and> served (snd (serve s q)) es s'"
      with l [THEN spec, of "EPolicy cfg q (fst (serve s q)) # es"] show "Q a s' (Suc (length es))" by simp
    qed
  qed (auto simp: returns_branches)
  show ?thesis unfolding serves_call_def ex all ..
qed

lemma ensure_standing:
  assumes "parse_int64 (quote x) sp = Inr n" "policy_of s n (federation_policy_id_for issuer subject) = Some p"
    and "trusts (po_oidc p) issuer subject audience"
  shows "serves_call s (ensure_federation_policy x (Installed cfg) sp issuer subject audience)
    (\<lambda>a s' l. a = None \<and> s' = s \<and> l = 1)"
  using assms(1,3) get_there [OF assms(2)] by (simp add: ensure_federation_policy_def Let_def)

lemma ensure_serves:
  assumes "parse_int64 (quote x) sp = Inr n"
  shows "serves_call s (ensure_federation_policy x (Installed cfg) sp issuer subject audience) (\<lambda>a s' l. a = None \<and>
    policy_of s' n (federation_policy_id_for issuer subject) =
      Some (trusting issuer subject audience (policy_of s n (federation_policy_id_for issuer subject))) \<and>
    (\<forall>m q. (m, q) \<noteq> (n, federation_policy_id_for issuer subject) \<longrightarrow> policy_of s' m q = policy_of s m q))"
proof -
  let ?pid = "federation_policy_id_for issuer subject" and ?pol = "federation_policy_for issuer subject audience"
  show ?thesis
  proof (cases "policy_of s n ?pid")
    case None
    from get_missing [OF None] obtain err where
      g: "serve s (GetPolicy n ?pid) = (Inl err, s)" "kind_of (Some err) = NotFound" by blast
    from create_free [OF None, of ?pol] obtain s' where
      c: "serve s (CreatePolicy n ?pid ?pol) = (Inr (?pol\<lparr>po_id := ?pid\<rparr>), s')"
        "policy_of s' n ?pid = Some (?pol\<lparr>po_id := ?pid\<rparr>)"
        "\<forall>m q. (m, q) \<noteq> (n, ?pid) \<longrightarrow> policy_of s' m q = policy_of s m q" by blast
    from None assms g c show ?thesis by (simp add: ensure_federation_policy_def Let_def trusting_def)
  next
    case (Some p)
    show ?thesis
    proof (cases "trusts (po_oidc p) issuer subject audience")
      case True
      with assms get_there [OF Some] Some show ?thesis
        by (simp add: ensure_federation_policy_def Let_def trusting_standing)
    next
      case False
      from update_there [OF Some, of "''oidc_policy''" ?pol] obtain s' where
        u: "serve s (UpdatePolicy n ?pid ''oidc_policy'' ?pol) = (Inr (p\<lparr>po_oidc := po_oidc ?pol\<rparr>), s')"
          "policy_of s' n ?pid = Some (p\<lparr>po_oidc := po_oidc ?pol\<rparr>)"
          "\<forall>m q. (m, q) \<noteq> (n, ?pid) \<longrightarrow> policy_of s' m q = policy_of s m q" by auto
      from False assms u get_there [OF Some] Some show ?thesis
        by (simp add: ensure_federation_policy_def restate_federation_policy_def Let_def trusting_def)
    qed
  qed
qed

end

text \<open>The documented account written out: the policies of each service principal, by name.\<close>

definition api_failure :: "int \<Rightarrow> string \<Rightarrow> api_error" where
  "api_failure status code =
     \<lparr>ae_status_code = status, ae_error_code = code, ae_message = code, ae_text = code,
      ae_permission_denied = (status = 403), ae_unauthenticated = (status = 401),
      ae_resource_does_not_exist = (status = 404), ae_not_found = (status = 404),
      ae_resource_conflict = (status = 409)\<rparr>"

type_synonym policy_store = "int \<Rightarrow> string \<Rightarrow> policy option"

definition put_policy :: "policy_store \<Rightarrow> int \<Rightarrow> string \<Rightarrow> policy \<Rightarrow> policy_store" where
  "put_policy s n pid p = s(n := (s n)(pid := Some p))"

definition ref_serve :: "policy_store \<Rightarrow> policy_request \<Rightarrow> (error + policy) \<times> policy_store" where
  "ref_serve s q =
     (case q of
        GetPolicy n pid \<Rightarrow>
          (case s n pid of Some p \<Rightarrow> (Inr p, s) | None \<Rightarrow> (Inl (APIError (api_failure 404 ''RESOURCE_DOES_NOT_EXIST'')), s))
      | CreatePolicy n pid p \<Rightarrow>
          (case s n pid of
             Some _ \<Rightarrow> (Inl (APIError (api_failure 409 ''RESOURCE_ALREADY_EXISTS'')), s)
           | None \<Rightarrow> (Inr (p\<lparr>po_id := pid\<rparr>), put_policy s n pid (p\<lparr>po_id := pid\<rparr>)))
      | UpdatePolicy n pid which p \<Rightarrow>
          (case s n pid of
             None \<Rightarrow> (Inl (APIError (api_failure 404 ''RESOURCE_DOES_NOT_EXIST'')), s)
           | Some old \<Rightarrow> (Inr (masked which p old), put_policy s n pid (masked which p old))))"

interpretation ref_policies: policy_account "\<lambda>s n pid. s n pid" ref_serve
  by unfold_locales
    (auto simp: ref_serve_def put_policy_def kind_of_def not_configured_def as_malformed_def is_sentinel_def
      api_failure_def)

text \<open>A call that reports the trust as written has one exchange of its own that says so: the named
  policy was there trusting exactly this issuer, subject and audience and nothing was written, or
  a create under the derived name was answered without another name, or an update of the named
  policy was; and what was written trusts exactly them. The id has to be a 64-bit integer.\<close>
theorem ensure_federation_policy_sound:
  assumes "returns (ensure_federation_policy x (Installed cfg) sp issuer subject audience) es None"
  shows "\<exists>n. parse_int64 (quote x) sp = Inr n \<and>
    (let pid = federation_policy_id_for issuer subject; p = federation_policy_for issuer subject audience
     in trusts (po_oidc p) issuer subject audience \<and>
       ((\<exists>standing. es = [EPolicy cfg (GetPolicy n pid) (Inr standing)] \<and>
           trusts (po_oidc standing) issuer subject audience) \<or>
        (\<exists>missing made. es = [EPolicy cfg (GetPolicy n pid) (Inl missing), EPolicy cfg (CreatePolicy n pid p) (Inr made)] \<and>
           kind_of (Some missing) = NotFound \<and> (po_id made = '''' \<or> po_id made = pid)) \<or>
        (\<exists>pre answer. es = pre @ [EPolicy cfg (UpdatePolicy n pid ''oidc_policy'' p) (Inr answer)] \<and> length pre \<le> 2)))"
proof -
  let ?pid = "federation_policy_id_for issuer subject"
  let ?p = "federation_policy_for issuer subject audience"
  from assms obtain n where n: "parse_int64 (quote x) sp = Inr n"
    by (cases "parse_int64 (quote x) sp") (auto simp: ensure_federation_policy_def)
  with assms consider
      (standing) standing where "es = [EPolicy cfg (GetPolicy n ?pid) (Inr standing)]"
        "trusts (po_oidc standing) issuer subject audience"
    | (restated) standing r where "es = [EPolicy cfg (GetPolicy n ?pid) (Inr standing)] @
        [EPolicy cfg (UpdatePolicy n ?pid ''oidc_policy'' ?p) (Inr r)]"
    | (made) missing made where "es = [EPolicy cfg (GetPolicy n ?pid) (Inl missing),
        EPolicy cfg (CreatePolicy n ?pid ?p) (Inr made)]" "kind_of (Some missing) = NotFound"
        "po_id made = '''' \<or> po_id made = ?pid"
    | (taken) missing conflict r where "es = [EPolicy cfg (GetPolicy n ?pid) (Inl missing),
        EPolicy cfg (CreatePolicy n ?pid ?p) (Inl conflict)] @
        [EPolicy cfg (UpdatePolicy n ?pid ''oidc_policy'' ?p) (Inr r)]"
    by (auto simp: ensure_federation_policy_def restate_federation_policy_def Let_def returns_branches)
  then show ?thesis
  proof cases
    case restated
    then have "\<exists>pre answer. es = pre @ [EPolicy cfg (UpdatePolicy n ?pid ''oidc_policy'' ?p) (Inr answer)] \<and>
        length pre \<le> 2"
      by (intro exI [of _ "[EPolicy cfg (GetPolicy n ?pid) (Inr standing)]"]) simp
    with n show ?thesis by (simp add: Let_def)
  next
    case taken
    then have "\<exists>pre answer. es = pre @ [EPolicy cfg (UpdatePolicy n ?pid ''oidc_policy'' ?p) (Inr answer)] \<and>
        length pre \<le> 2"
      by (intro exI [of _ "[EPolicy cfg (GetPolicy n ?pid) (Inl missing),
          EPolicy cfg (CreatePolicy n ?pid ?p) (Inl conflict)]"]) simp
    with n show ?thesis by (simp add: Let_def)
  qed (use n in \<open>simp_all add: Let_def\<close>)
qed

text \<open>C21: Against any account that keeps policies as the API documents them, an update changing the fields
  its mask names, the call always comes to its end and to success, however the account answers: the
  derived name then trusts exactly this issuer, subject and audience, a policy that stood under it
  keeps everything else it said, no other policy is touched, and the call made again asks once,
  writes nothing and leaves the account as it is.\<close>
theorem ensure_federation_policy_establishes:
  assumes "policy_account policy_of serve" and "parse_int64 (quote x) sp = Inr n"
  shows "let call = ensure_federation_policy x (Installed cfg) sp issuer subject audience;
      pid = federation_policy_id_for issuer subject; served = policy_account.served serve
    in (\<exists>es a s'. returns call es a \<and> served s es s') \<and>
      (\<forall>es a s'. returns call es a \<and> served s es s' \<longrightarrow> a = None \<and>
         (\<exists>p. policy_of s' n pid = Some p \<and> trusts (po_oidc p) issuer subject audience \<and>
            (\<forall>old. policy_of s n pid = Some old \<longrightarrow> p = old\<lparr>po_oidc := po_oidc p\<rparr>)) \<and>
         (\<forall>m q. (m, q) \<noteq> (n, pid) \<longrightarrow> policy_of s' m q = policy_of s m q) \<and>
         (\<exists>es a s''. returns call es a \<and> served s' es s'') \<and>
         (\<forall>es a s''. returns call es a \<and> served s' es s'' \<longrightarrow> a = None \<and> length es = 1 \<and> s'' = s'))"
proof -
  note serves = policy_account.ensure_serves [OF assms, of s cfg issuer subject audience,
      unfolded policy_account.serves_call_def [OF assms(1)]]
  have again: "policy_account.serves_call serve s' (ensure_federation_policy x (Installed cfg) sp issuer subject audience)
      (\<lambda>a s'' l. a = None \<and> s'' = s' \<and> l = 1)"
    if "policy_of s' n (federation_policy_id_for issuer subject) = Some p" "trusts (po_oidc p) issuer subject audience" for s' p
    by (rule policy_account.ensure_standing [OF assms(1,2) that])
  note again = again [unfolded policy_account.serves_call_def [OF assms(1)]]
  have kept: "trusting issuer subject audience (Some old) = old\<lparr>po_oidc := po_oidc (trusting issuer subject audience (Some old))\<rparr>"
    for old by (simp add: trusting_def Let_def)
  show ?thesis
    unfolding Let_def
  proof (intro conjI allI impI, goal_cases)
    case 1
    from conjunct1 [OF serves] show ?case .
  next
    case (3 es a s')
    with conjunct2 [OF serves] kept show ?case by (metis trusting_trusts)
  qed (use conjunct2 [OF serves] again trusting_trusts in \<open>blast+\<close>)
qed

theorem ensure_federation_policy_establishes_witness:
  "\<exists>es s'. returns (ensure_federation_policy ref_extern (Installed config_zero) ''17'' ''iss'' ''sub'' ''aud'') es None \<and>
    ref_policies.served (\<lambda>_ _. None) es s'"
proof -
  have n: "parse_int64 (quote ref_extern) ''17'' = Inr 17" by (rule parse_int64_17)
  note holds = ensure_federation_policy_establishes [OF ref_policies.policy_account_axioms n, unfolded Let_def]
  from conjunct1 [OF holds] obtain es a s' where
    run: "returns (ensure_federation_policy ref_extern (Installed config_zero) ''17'' ''iss'' ''sub'' ''aud'') es a"
      "ref_policies.served (\<lambda>_ _. None) es s'" by blast
  with conjunct2 [OF holds] have "a = None" by blast
  with run show ?thesis by blast
qed

lemma forget_policy_returns:
  "returns (forget_policy cfg n pid) es None \<longleftrightarrow>
     (\<exists>r. es = [ECall cfg (DeletePolicy n pid) r] \<and> (\<forall>err. r = Some err \<longrightarrow> kind_of r = NotFound))"
  by (auto simp: forget_policy_def returns_branches)

lemma remove_each_policy_returns:
  "returns (remove_each_policy cfg n sp issuer subject except ps) es None \<Longrightarrow>
     \<exists>rs. es = map2 (\<lambda>p r. ECall cfg (DeletePolicy n (po_id p)) r) (filter (to_be_removed issuer subject except) ps) rs \<and>
       length rs = length (filter (to_be_removed issuer subject except) ps) \<and>
       (\<forall>err. Some err \<in> set rs \<longrightarrow> kind_of (Some err) = NotFound)"
proof (induction ps arbitrary: es)
  case (Cons p ps)
  show ?case
  proof (cases "to_be_removed issuer subject except p")
    case True
    with Cons.prems obtain r es2 where es: "es = ECall cfg (DeletePolicy n (po_id p)) r # es2"
      "\<forall>err. r = Some err \<longrightarrow> kind_of r = NotFound"
      "returns (remove_each_policy cfg n sp issuer subject except ps) es2 None"
      by (auto simp: returns_branches forget_policy_returns)
    from Cons.IH [OF es(3)] obtain rs where
      "es2 = map2 (\<lambda>p r. ECall cfg (DeletePolicy n (po_id p)) r) (filter (to_be_removed issuer subject except) ps) rs"
      "length rs = length (filter (to_be_removed issuer subject except) ps)"
      "\<forall>err. Some err \<in> set rs \<longrightarrow> kind_of (Some err) = NotFound" by blast
    with es(1,2) True show ?thesis by (intro exI [of _ "r # rs"]) auto
  next
    case False
    with Cons show ?thesis by simp
  qed
qed simp

text \<open>A removal that reports success deleted the named policy and every policy a whole listing of
  the service principal showed for this issuer and this subject, each delete confirmed or
  answered with a 404, and it deleted nothing else: no policy of another issuer, another
  subject or another service principal.\<close>
theorem remove_federation_policies_sound:
  assumes "returns (remove_federation_policies x (Installed cfg) sp issuer subject) es None"
  shows "\<exists>n listed. parse_int64 (quote x) sp = Inr n \<and> EPolicies cfg n (Inr listed) \<in> set es \<and>
    (\<forall>pid. pid = federation_policy_id_for issuer subject \<or>
        (\<exists>p \<in> set listed. po_id p = pid \<and>
           (\<exists>o1. po_oidc p = Some o1 \<and> oi_issuer o1 = issuer \<and> oi_subject o1 = subject))
      \<longleftrightarrow> (\<exists>r. ECall cfg (DeletePolicy n pid) r \<in> set es)) \<and>
    (\<forall>cfg' m pid r. ECall cfg' (DeletePolicy m pid) r \<in> set es \<longrightarrow>
       cfg' = cfg \<and> m = n \<and> (\<forall>err. r = Some err \<longrightarrow> kind_of (Some err) = NotFound))"
proof -
  let ?pid = "federation_policy_id_for issuer subject"
  from assms obtain n where n: "parse_int64 (quote x) sp = Inr n"
    by (cases "parse_int64 (quote x) sp") (auto simp: remove_federation_policies_def)
  with assms obtain r listed es2 where es: "es = ECall cfg (DeletePolicy n ?pid) r # EPolicies cfg n (Inr listed) # es2"
      "\<forall>err. r = Some err \<longrightarrow> kind_of r = NotFound"
      "returns (remove_each_policy cfg n sp issuer subject ?pid listed) es2 None"
    by (auto simp: remove_federation_policies_def remove_listed_policies_def Let_def returns_branches
        forget_policy_returns)
  let ?del = "filter (to_be_removed issuer subject ?pid) listed"
  from remove_each_policy_returns [OF es(3)] obtain rs where
    rs: "es2 = map2 (\<lambda>p r. ECall cfg (DeletePolicy n (po_id p)) r) ?del rs" "length rs = length ?del"
      "\<forall>err. Some err \<in> set rs \<longrightarrow> kind_of (Some err) = NotFound" by blast
  have del: "(\<exists>r. ECall cfg (DeletePolicy n pid) r \<in> set es2) \<longleftrightarrow> (\<exists>p \<in> set ?del. po_id p = pid)" for pid
  proof
    assume "\<exists>p \<in> set ?del. po_id p = pid"
    then obtain p where "p \<in> set ?del" "po_id p = pid" by blast
    then obtain k where "k < length ?del" "po_id (?del ! k) = pid" by (metis in_set_conv_nth)
    with rs(1,2) show "\<exists>r. ECall cfg (DeletePolicy n pid) r \<in> set es2"
      by (auto simp: set_zip intro!: exI [of _ "rs ! k"] image_eqI [of _ _ "(?del ! k, rs ! k)"])
  qed (auto simp: rs(1) dest!: set_zip_leftD)
  have rest: "\<forall>cfg' m pid r. ECall cfg' (DeletePolicy m pid) r \<in> set es2 \<longrightarrow>
      cfg' = cfg \<and> m = n \<and> (\<forall>err. r = Some err \<longrightarrow> kind_of (Some err) = NotFound)"
    using rs(1,3) by (auto dest: set_zip_rightD)
  have calls: "(\<exists>r. ECall cfg (DeletePolicy n pid) r \<in> set es) \<longleftrightarrow> pid = ?pid \<or> (\<exists>p \<in> set ?del. po_id p = pid)" for pid
    unfolding es(1) del [symmetric] by auto
  have matching: "pid = ?pid \<or> (\<exists>p \<in> set ?del. po_id p = pid) \<longleftrightarrow> pid = ?pid \<or> (\<exists>p \<in> set listed. po_id p = pid \<and>
      (\<exists>o1. po_oidc p = Some o1 \<and> oi_issuer o1 = issuer \<and> oi_subject o1 = subject))" for pid
    by (auto simp: to_be_removed_def split: option.splits)
  show ?thesis
  proof (intro exI [of _ n] exI [of _ listed] conjI)
    show "EPolicies cfg n (Inr listed) \<in> set es" unfolding es(1) by simp
    show "\<forall>cfg' m pid r. ECall cfg' (DeletePolicy m pid) r \<in> set es \<longrightarrow>
        cfg' = cfg \<and> m = n \<and> (\<forall>err. r = Some err \<longrightarrow> kind_of (Some err) = NotFound)"
      using rest es(2) unfolding es(1) by auto
  qed (simp_all add: n calls matching del: filter_filter set_filter)
qed

section \<open>Existence and deletion\<close>

text \<open>A service principal is reported absent only on a 404 to a get of its id, and present only on an
  answered get of it; an empty id is refused without asking; and a deletion is reported only when
  the delete of exactly that id was confirmed or answered with a 404.\<close>
theorem existence_and_deletion_sound:
  "(\<forall>there. returns (service_principal_exists (Installed cfg) sp) es (Inr there) \<longleftrightarrow>
      sp \<noteq> '''' \<and> (\<exists>reply. es = [EPrincipal cfg (GetPrincipal sp) reply] \<and>
         (case reply of Inr _ \<Rightarrow> there | Inl err \<Rightarrow> \<not> there \<and> kind_of (Some err) = NotFound))) \<and>
   (returns (service_principal_exists (Installed cfg) '''') es r \<longleftrightarrow> es = [] \<and> r = Inl no_id_to_look_up) \<and>
   (returns (delete_service_principal (Installed cfg) sp) es None \<longleftrightarrow>
      (\<exists>reply. es = [ECall cfg (DeletePrincipal sp) reply] \<and>
         (\<forall>err. reply = Some err \<longrightarrow> kind_of (Some err) = NotFound)))"
proof (intro conjI allI)
  fix there
  show "returns (service_principal_exists (Installed cfg) sp) es (Inr there) \<longleftrightarrow>
      sp \<noteq> '''' \<and> (\<exists>reply. es = [EPrincipal cfg (GetPrincipal sp) reply] \<and>
         (case reply of Inr _ \<Rightarrow> there | Inl err \<Rightarrow> \<not> there \<and> kind_of (Some err) = NotFound))"
    by (auto simp: service_principal_exists_def returns_branches split: sum.split_asm)
qed (auto simp: service_principal_exists_def delete_service_principal_def returns_branches)

theorem existence_and_deletion_sound_witness:
  "returns (service_principal_exists (Installed config_zero) ''17'')
     [EPrincipal config_zero (GetPrincipal ''17'') (Inl (APIError (api_failure 404 ''gone'')))] (Inr False) \<and>
   returns (delete_service_principal (Installed config_zero) ''17'')
     [ECall config_zero (DeletePrincipal ''17'') (Some (APIError (api_failure 404 ''gone'')))] None"
proof -
  have "kind_of (Some (APIError (api_failure 404 ''gone''))) = NotFound" by code_simp
  then show ?thesis
    using existence_and_deletion_sound [where cfg = config_zero and sp = "''17''" and
        es = "[EPrincipal config_zero (GetPrincipal ''17'') (Inl (APIError (api_failure 404 ''gone'')))]"]
      existence_and_deletion_sound [where cfg = config_zero and sp = "''17''" and
        es = "[ECall config_zero (DeletePrincipal ''17'') (Some (APIError (api_failure 404 ''gone'')))]"]
    by simp
qed

section \<open>What each call can exchange\<close>

lemma emits_create_service_principal:
  "(\<And>cfg d m r. K (EPrincipal cfg (CreatePrincipal d m True) r)) \<Longrightarrow> emits K (create_service_principal c i)"
  by (simp add: create_service_principal_def split: clients.split sum.split)

lemma emits_find_service_principal:
  "(\<And>cfg f r. K (EPrincipals cfg f r)) \<Longrightarrow> emits K (find_service_principal x c i)"
  by (simp add: find_service_principal_def Let_def split: clients.split sum.split)

lemma emits_service_principal_exists:
  "(\<And>cfg r. sp \<noteq> '''' \<Longrightarrow> K (EPrincipal cfg (GetPrincipal sp) r)) \<Longrightarrow> emits K (service_principal_exists c sp)"
  by (simp add: service_principal_exists_def split: clients.split sum.split)

lemma emits_delete_service_principal:
  "(\<And>cfg r. K (ECall cfg (DeletePrincipal sp) r)) \<Longrightarrow> emits K (delete_service_principal c sp)"
  by (simp add: delete_service_principal_def split: clients.split option.split)

lemma emits_ensure_federation_policy:
  "(\<And>cfg q r. K (EPolicy cfg q r)) \<Longrightarrow> emits K (ensure_federation_policy x c sp iss sub aud)"
  by (simp add: ensure_federation_policy_def restate_federation_policy_def Let_def
      split: clients.split sum.split)

lemma emits_read_token_claims:
  "(\<And>p r. K (EFile p r)) \<Longrightarrow> emits K (read_token_claims x path)"
  by (simp add: read_token_claims_def split: sum.split)

lemmas emits_calls = emits_create_service_principal emits_find_service_principal
  emits_service_principal_exists emits_delete_service_principal emits_ensure_federation_policy
  emits_read_token_claims

end
