(* ===== verification/Outcome.thy ===== *)
theory Outcome
  imports Effects
begin

text \<open>
  \<open>internal/controller/conditions.go\<close> and \<open>outcome.go\<close>: the condition types and reasons of the status
  API, \<open>setCondition\<close>, what a failure amounts to (\<open>outcomeFor\<close>) and when to look again
  (\<open>retryAfterFor\<close>). Lemmas: which failures go back to the workqueue, and what a condition says
  of a failure.
\<close>

section \<open>Condition types and reasons\<close>

definition conditionReady :: string where "conditionReady = ''Ready''"
definition conditionEquipped :: string where "conditionEquipped = ''Equipped''"
definition conditionPrepared :: string where "conditionPrepared = ''Prepared''"
definition conditionRecordsReleased :: string where "conditionRecordsReleased = ''RecordsReleased''"
definition conditionIdentitiesDestroyed :: string where "conditionIdentitiesDestroyed = ''IdentitiesDestroyed''"
definition conditionRequestsServed :: string where "conditionRequestsServed = ''RequestsServed''"

definition reasonNotFound :: string where "reasonNotFound = ''NotFound''"
definition reasonInvalidSpec :: string where "reasonInvalidSpec = ''InvalidSpec''"
definition reasonDenied :: string where "reasonDenied = ''Denied''"
definition reasonNotConfigured :: string where "reasonNotConfigured = ''NotConfigured''"
definition reasonDatabricksUnavailable :: string where "reasonDatabricksUnavailable = ''DatabricksUnavailable''"
definition reasonRejected :: string where "reasonRejected = ''Rejected''"
definition reasonMalformedRecord :: string where "reasonMalformedRecord = ''MalformedRecord''"
definition reasonPrepared :: string where "reasonPrepared = ''Prepared''"
definition reasonUnprepared :: string where "reasonUnprepared = ''TokenUnreadable''"
definition reasonAccountReady :: string where "reasonAccountReady = ''AccountReady''"
definition reasonNotSelected :: string where "reasonNotSelected = ''NotSelected''"
definition reasonExchangeable :: string where "reasonExchangeable = ''Exchangeable''"
definition reasonRemovedInDatabricks :: string where "reasonRemovedInDatabricks = ''RemovedInDatabricks''"
definition reasonNotEquipped :: string where "reasonNotEquipped = ''NotEquipped''"
definition reasonEquipped :: string where "reasonEquipped = ''Equipped''"
definition reasonRecordsRemain :: string where "reasonRecordsRemain = ''RecordsRemain''"
definition reasonDeleteFailed :: string where "reasonDeleteFailed = ''DeleteFailed''"
definition reasonCreateUnconfirmed :: string where "reasonCreateUnconfirmed = ''CreateUnconfirmed''"
definition reasonMintingNotSuspended :: string where "reasonMintingNotSuspended = ''MintingNotSuspended''"
definition reasonAnotherDestruction :: string where "reasonAnotherDestruction = ''AnotherDestruction''"
definition reasonIdentitiesDestroyed :: string where "reasonIdentitiesDestroyed = ''IdentitiesDestroyed''"
definition reasonDestroyingIdentities :: string where "reasonDestroyingIdentities = ''DestroyingIdentities''"
definition reasonRequestsServed :: string where "reasonRequestsServed = ''RequestsServed''"
definition reasonRequestsNotServed :: string where "reasonRequestsNotServed = ''RequestsNotServed''"
definition reasonAwaitingServicePrincipal :: string where
  "reasonAwaitingServicePrincipal = ''AwaitingServicePrincipal''"

text \<open>\<open>setCondition\<close>; \<open>meta.SetStatusCondition\<close> reads the clock for the transition time it may set.\<close>

definition set_condition ::
  "extern \<Rightarrow> condition list \<Rightarrow> int \<Rightarrow> string \<Rightarrow> condition_status \<Rightarrow> string \<Rightarrow> string \<Rightarrow> condition list prog" where
  "set_condition x conditions generation condition_type status reason message =
     AskNow (\<lambda>now. Ret (set_status_condition x now conditions
       \<lparr>cn_type = condition_type, cn_status = status, cn_observed_generation = generation,
        cn_last_transition = 0, cn_reason = reason, cn_message = message\<rparr>))"

section \<open>Outcomes\<close>

record outcome =
  oc_status :: condition_status
  oc_reason :: string
  oc_message :: string
  oc_err :: "error option"

definition outcome_for :: "extern \<Rightarrow> error \<Rightarrow> outcome" where
  "outcome_for x err =
     (let message = reason_of (quote x) (Some err);
          unset = (\<lambda>status reason. \<lparr>oc_status = status, oc_reason = reason, oc_message = message, oc_err = None\<rparr>)
      in case kind_of (Some err) of
           NotFound \<Rightarrow> unset ConditionFalse reasonNotFound
         | Rejected \<Rightarrow> unset ConditionFalse reasonRejected
         | Malformed \<Rightarrow> unset ConditionFalse reasonMalformedRecord
         | NotConfigured \<Rightarrow> unset ConditionUnknown reasonNotConfigured
         | Denied \<Rightarrow> unset ConditionUnknown reasonDenied
         | _ \<Rightarrow> \<lparr>oc_status = ConditionUnknown, oc_reason = reasonDatabricksUnavailable,
                oc_message = message, oc_err = Some err\<rparr>)"

definition retry_after_for :: "condition_status \<Rightarrow> duration \<Rightarrow> duration \<Rightarrow> duration" where
  "retry_after_for status awaited settled = (if status = ConditionTrue then settled else awaited)"

section \<open>What a reconcile returns\<close>

record ctrl_result =
  rs_requeue :: bool
  rs_requeue_after :: duration

type_synonym reconciled = "ctrl_result \<times> error option"

definition no_result :: ctrl_result where
  "no_result = \<lparr>rs_requeue = False, rs_requeue_after = 0\<rparr>"

definition requeue_after :: "duration \<Rightarrow> ctrl_result" where
  "requeue_after d = \<lparr>rs_requeue = False, rs_requeue_after = d\<rparr>"

definition failure_of :: "error + 'a \<Rightarrow> error option" where
  "failure_of r = (case r of Inl e \<Rightarrow> Some e | Inr _ \<Rightarrow> None)"

lemma failure_of_simps [simp]: "failure_of (Inl e) = Some e" "failure_of (Inr a) = None"
  by (simp_all add: failure_of_def)

lemma outcome_for_err: "oc_err (outcome_for x err) = (if kind_of (Some err) = Unavailable then Some err else None)"
  by (simp add: outcome_for_def Let_def split: failure_kind.split)

lemma outcome_for_status:
  "oc_status (outcome_for x err) =
     (if kind_of (Some err) \<in> {NotFound, Rejected, Malformed} then ConditionFalse else ConditionUnknown)"
  by (simp add: outcome_for_def Let_def split: failure_kind.split)

lemma outcome_for_message [simp]: "oc_message (outcome_for x err) = reason_of (quote x) (Some err)"
  by (simp add: outcome_for_def Let_def split: failure_kind.split)

lemma outcome_for_reason_Wrapped [simp]:
  "oc_reason (outcome_for x (Wrapped pre err post)) = oc_reason (outcome_for x err)"
  by (simp add: outcome_for_def Let_def split: failure_kind.split)

text \<open>A failure is handed back to the workqueue, with its own error, exactly when nothing is known
  about it (\<open>Unavailable\<close>); an operator that is not configured or was denied is reported \<open>Unknown\<close>
  and a request that was answered is reported \<open>False\<close>; no failure is ever reported \<open>True\<close>; and
  wrapping the error with any text changes none of this, nor, when Databricks gave a message,
  the message.\<close>
theorem outcome_for_spec:
  "(oc_err (outcome_for x err) = (if kind_of (Some err) = Unavailable then Some err else None)) \<and>
   (oc_status (outcome_for x err) = ConditionFalse \<longleftrightarrow> kind_of (Some err) \<in> {NotFound, Rejected, Malformed}) \<and>
   oc_status (outcome_for x err) \<noteq> ConditionTrue \<and>
   oc_status (outcome_for x (Wrapped pre err post)) = oc_status (outcome_for x err) \<and>
   oc_reason (outcome_for x (Wrapped pre err post)) = oc_reason (outcome_for x err) \<and>
   (\<forall>a. as_api_error err = Some a \<and> ae_message a \<noteq> '''' \<longrightarrow>
      oc_message (outcome_for x (Wrapped pre err post)) = oc_message (outcome_for x err))"
  by (auto simp: outcome_for_err outcome_for_status reason_of_def)

end
