(* ===== verification/Rfc3339.thy ===== *)
theory Rfc3339
  imports Prelude
begin

text \<open>
  Package \<open>time\<close> as far as the destruction claim uses it: \<open>t.UTC().Format(time.RFC3339)\<close> and
  \<open>time.Parse(time.RFC3339, s)\<close>, on instants from the year 0 on. The layout is
  \<open>2006-01-02T15:04:05Z07:00\<close>; \<open>Parse\<close> also takes an hour of one digit and a fraction of a second the
  layout does not name, after a point or a comma. Lemmas: the calendar arithmetic, and that what is
  formatted is parsed back to the second.
\<close>

section \<open>The calendar\<close>

definition leap :: "int \<Rightarrow> bool" where
  "leap y \<longleftrightarrow> y mod 4 = 0 \<and> (y mod 100 \<noteq> 0 \<or> y mod 400 = 0)"

definition year_length :: "int \<Rightarrow> int" where
  "year_length y = (if leap y then 366 else 365)"

definition month_lengths :: "int \<Rightarrow> int list" where
  "month_lengths y = [31, if leap y then 29 else 28, 31, 30, 31, 30, 31, 31, 30, 31, 30, 31]"

text \<open>The days from the first of January of the year 0 to that of year \<open>y\<close>, and to the epoch.\<close>

definition days_before_year :: "int \<Rightarrow> int" where
  "days_before_year y = 365 * y + (y + 3) div 4 - (y + 99) div 100 + (y + 399) div 400"

definition epoch_day :: int where "epoch_day = days_before_year 1970"

function locate_year :: "int \<Rightarrow> int \<Rightarrow> int \<times> int" where
  "locate_year y d = (if d < year_length y then (y, d) else locate_year (y + 1) (d - year_length y))"
  by pat_completeness auto
termination
  by (relation "measure (\<lambda>(y, d). nat d)") (auto simp: year_length_def split: if_splits)

declare locate_year.simps [simp del]

fun locate :: "int list \<Rightarrow> int \<Rightarrow> nat \<times> int" where
  "locate [] d = (0, d)"
| "locate (l # ls) d = (if d < l then (0, d) else (let (i, r) = locate ls (d - l) in (Suc i, r)))"

section \<open>Formatting\<close>

definition digit_char :: "nat \<Rightarrow> char" where "digit_char n = digit_chars ! n"

primrec fixed_digits :: "nat \<Rightarrow> nat \<Rightarrow> string" where
  "fixed_digits 0 n = ''''"
| "fixed_digits (Suc w) n = fixed_digits w (n div 10) @ [digit_char (n mod 10)]"

definition format_rfc3339 :: "time \<Rightarrow> string" where
  "format_rfc3339 t =
     (let seconds = t div second;
          (y, yday) = locate_year 0 (seconds div 86400 + epoch_day);
          (m, mday) = locate (month_lengths y) yday;
          clock = nat (seconds mod 86400)
      in (if y < 10000 then fixed_digits 4 (nat y) else show_nat (nat y)) @ ''-'' @ fixed_digits 2 (Suc m) @ ''-'' @
         fixed_digits 2 (Suc (nat mday)) @ ''T'' @ fixed_digits 2 (clock div 3600) @ '':'' @ fixed_digits 2 (clock div 60 mod 60) @ '':'' @
         fixed_digits 2 (clock mod 60) @ ''Z'')"

section \<open>Parsing\<close>

definition is_digit :: "char \<Rightarrow> bool" where "is_digit c \<longleftrightarrow> c \<in> set digit_chars"

definition digit_of :: "char \<Rightarrow> nat" where "digit_of c = of_char c - 48"

definition number_of :: "string \<Rightarrow> int" where
  "number_of s = foldl (\<lambda>n c. 10 * n + int (digit_of c)) 0 s"

text \<open>\<open>getnum\<close>: two digits, or one where the width is not fixed.\<close>

fun getnum :: "bool \<Rightarrow> string \<Rightarrow> (nat \<times> string) option" where
  "getnum fixed (a # b # rest) =
     (if \<not> is_digit a then None
      else if is_digit b then Some (10 * digit_of a + digit_of b, rest)
      else if fixed then None else Some (digit_of a, b # rest))"
| "getnum fixed [a] = (if is_digit a \<and> \<not> fixed then Some (digit_of a, '''') else None)"
| "getnum fixed [] = None"

definition getyear :: "string \<Rightarrow> (nat \<times> string) option" where
  "getyear s = (if length s < 4 \<or> \<not> list_all is_digit (take 4 s) then None else Some (nat (number_of (take 4 s)), drop 4 s))"

definition expect :: "char \<Rightarrow> string \<Rightarrow> string option" where
  "expect c s = (case s of [] \<Rightarrow> None | a # rest \<Rightarrow> if a = c then Some rest else None)"

definition getfraction :: "string \<Rightarrow> int \<times> string" where
  "getfraction s =
     (case s of
        p # d # rest \<Rightarrow>
          if (p = CHR ''.'' \<or> p = CHR '','') \<and> is_digit d then
            (let ds = takeWhile is_digit (d # rest); used = take 9 ds
             in (number_of used * 10 ^ (9 - length used), drop (length ds) (d # rest)))
          else (0, s)
      | _ \<Rightarrow> (0, s))"

text \<open>The offset in seconds.\<close>

definition getzone :: "string \<Rightarrow> (int \<times> string) option" where
  "getzone s =
     (if s \<noteq> '''' \<and> hd s = CHR ''Z'' then Some (0, tl s)
      else if length s < 6 \<or> s ! 3 \<noteq> CHR '':'' then None
      else (case (getnum True (take 2 (drop 1 s)), getnum True (take 2 (drop 4 s))) of
          (Some (h, _), Some (m, _)) \<Rightarrow>
            if 24 < h \<or> 60 < m then None
            else if hd s = CHR ''+'' then Some (int ((h * 60 + m) * 60), drop 6 s)
            else if hd s = CHR ''-'' then Some (- int ((h * 60 + m) * 60), drop 6 s)
            else None
        | _ \<Rightarrow> None))"

definition parse_rfc3339 :: "string \<Rightarrow> time option" where
  "parse_rfc3339 s =
     Option.bind (getyear s) (\<lambda>(y, s). Option.bind (expect (CHR ''-'') s) (\<lambda>s.
     Option.bind (getnum True s) (\<lambda>(m, s). Option.bind (expect (CHR ''-'') s) (\<lambda>s.
     Option.bind (getnum True s) (\<lambda>(d, s). Option.bind (expect (CHR ''T'') s) (\<lambda>s.
     Option.bind (getnum False s) (\<lambda>(h, s). Option.bind (expect (CHR '':'') s) (\<lambda>s.
     Option.bind (getnum True s) (\<lambda>(mi, s). Option.bind (expect (CHR '':'') s) (\<lambda>s.
     Option.bind (getnum True s) (\<lambda>(sec, s).
       (let (nanos, s) = getfraction s
        in Option.bind (getzone s) (\<lambda>(offset, s).
          if s \<noteq> '''' \<or> m < 1 \<or> 12 < m \<or> 24 \<le> h \<or> 60 \<le> mi \<or> 60 \<le> sec \<or>
             d < 1 \<or> month_lengths (int y) ! (m - 1) < int d then None
          else Some
            (((days_before_year (int y) + sum_list (take (m - 1) (month_lengths (int y))) + int d - 1 - epoch_day) * 86400 +
               int (h * 3600 + mi * 60 + sec) - offset) * second + nanos))))))))))))))"

section \<open>The calendar is one\<close>

lemma div_next: "(y + k) div k = (y + (k - 1)) div k + (if y mod k = 0 then 1 else 0)" if "0 < k" for y k :: int
proof -
  define q r where "q = y div k" and "r = y mod k"
  have y: "y = k * q + r" and r: "0 \<le> r" "r < k" using that by (simp_all add: q_def r_def)
  have "(y + (k - 1)) div k = q + (r + (k - 1)) div k"
    using that by (simp add: y add.assoc)
  moreover have "(r + (k - 1)) div k = (if r = 0 then 0 else 1)"
    using r by (auto simp: int_div_pos_eq [of _ k 1 "r - 1"] div_pos_pos_trivial)
  moreover have "(y + k) div k = q + 1" using that div_add_self2 [of k y] by (simp add: q_def)
  moreover have "y mod k = 0 \<longleftrightarrow> r = 0" by (simp add: r_def)
  ultimately show ?thesis by simp
qed

lemma div_next_le: "0 < k \<Longrightarrow> j + 1 = k \<Longrightarrow> (y + k) div k = (y + j) div k + (if y mod k = 0 then 1 else 0)" for y k j :: int
proof -
  assume "0 < k" "j + 1 = k"
  then have "j = k - 1" by simp
  with div_next [OF \<open>0 < k\<close>] show ?thesis by simp
qed

lemma year_length_alt:
  "year_length y = 365 + (if y mod 4 = 0 then 1 else 0) - (if y mod 100 = 0 then 1 else 0) + (if y mod 400 = 0 then 1 else 0)"
proof -
  have "(y mod 400) mod 100 = y mod 100" "(y mod 100) mod 4 = y mod 4" by (simp_all add: mod_mod_cancel)
  then have "y mod 400 = 0 \<Longrightarrow> y mod 100 = 0" "y mod 100 = 0 \<Longrightarrow> y mod 4 = 0" by auto
  then show ?thesis
    unfolding year_length_def leap_def by (cases "y mod 4 = 0"; cases "y mod 100 = 0"; cases "y mod 400 = 0"; simp)
qed

lemma days_before_next: "days_before_year (y + 1) = days_before_year y + year_length y"
proof -
  have shift: "y + 1 + 3 = y + 4" "y + 1 + 99 = y + 100" "y + 1 + 399 = y + 400" by simp_all
  have add: "a' = a + e1 \<Longrightarrow> b' = b + e2 \<Longrightarrow> c' = c + e3 \<Longrightarrow>
      365 * (y + 1) + a' - b' + c' = 365 * y + a - b + c + (365 + e1 - e2 + e3)" for a a' b b' c c' e1 e2 e3 :: int
    by simp
  have step: "(y + 4) div 4 = (y + 3) div 4 + (if y mod 4 = 0 then 1 else 0)"
    "(y + 100) div 100 = (y + 99) div 100 + (if y mod 100 = 0 then 1 else 0)"
    "(y + 400) div 400 = (y + 399) div 400 + (if y mod 400 = 0 then 1 else 0)"
    by (rule div_next_le; simp)+
  show ?thesis
    unfolding days_before_year_def year_length_alt shift by (rule add [OF step])
qed

lemma days_before_mono: "y \<le> z \<Longrightarrow> days_before_year y \<le> days_before_year z"
  by (induction z rule: int_ge_induct) (auto simp: days_before_next year_length_def)

lemma locate_year_correct:
  "0 \<le> d \<Longrightarrow> locate_year y d = (y', r) \<Longrightarrow>
     y \<le> y' \<and> 0 \<le> r \<and> r < year_length y' \<and> days_before_year y + d = days_before_year y' + r"
proof (induction y d arbitrary: y' r rule: locate_year.induct)
  case (1 y d)
  show ?case
  proof (cases "d < year_length y")
    case True
    with "1.prems" show ?thesis by (simp add: locate_year.simps)
  next
    case False
    with "1.prems" have "locate_year (y + 1) (d - year_length y) = (y', r)" by (subst (asm) locate_year.simps) simp
    with "1.IH" [OF False] False days_before_next [of y] show ?thesis by fastforce
  qed
qed

lemma locate_correct:
  "0 \<le> d \<Longrightarrow> d < sum_list ls \<Longrightarrow> locate ls d = (i, r) \<Longrightarrow>
     i < length ls \<and> 0 \<le> r \<and> r < ls ! i \<and> d = sum_list (take i ls) + r"
  by (induction ls d arbitrary: i r rule: locate.induct) (auto simp: Let_def split: if_splits prod.splits)

lemma sum_month_lengths: "sum_list (month_lengths y) = year_length y"
  by (simp add: month_lengths_def year_length_def)

lemma length_month_lengths [simp]: "length (month_lengths y) = 12"
  by (simp add: month_lengths_def)

lemma month_length_le: "i < 12 \<Longrightarrow> month_lengths y ! i \<le> 31"
  by (auto simp: month_lengths_def nth_Cons split: nat.split)

section \<open>Digits\<close>

lemma digit_char_digit: "n < 10 \<Longrightarrow> is_digit (digit_char n) \<and> digit_of (digit_char n) = n"
proof -
  have "list_all (\<lambda>n. is_digit (digit_char n) \<and> digit_of (digit_char n) = n) [0..<10]" by code_simp
  then show "n < 10 \<Longrightarrow> ?thesis" by (simp add: list_all_iff)
qed

lemma length_digits [simp]: "length (fixed_digits w n) = w"
  by (induction w arbitrary: n) simp_all

lemma digits_digits: "list_all is_digit (fixed_digits w n)"
  by (induction w arbitrary: n) (simp_all add: digit_char_digit)

lemma number_of_digits: "n < 10 ^ w \<Longrightarrow> number_of (fixed_digits w n) = int n"
proof (induction w arbitrary: n)
  case (Suc w)
  then have "n div 10 < 10 ^ w" by (simp add: less_mult_imp_div_less mult.commute)
  moreover have "10 * int (n div 10) + int (n mod 10) = int n" by (simp add: zdiv_int zmod_int)
  ultimately show ?case using Suc.IH by (simp add: number_of_def digit_char_digit)
qed (simp add: number_of_def)

lemma getnum_fixed: "n < 100 \<Longrightarrow> getnum fixed (fixed_digits 2 n @ s) = Some (n, s)"
  by (simp add: numeral_2_eq_2 digit_char_digit)

lemma getyear_fixed: "n < 10000 \<Longrightarrow> getyear (fixed_digits 4 n @ s) = Some (n, s)"
  using number_of_digits [of n 4] by (simp add: getyear_def digits_digits)

section \<open>What is formatted is parsed back\<close>

lemma format_parses:
  assumes "0 \<le> days_before_year 0 + s div 86400 + epoch_day" "s div 86400 + epoch_day < days_before_year 10000" "s = t div second"
  shows "parse_rfc3339 (format_rfc3339 t) = Some (s * second)"
proof -
  obtain y yday where y: "locate_year 0 (s div 86400 + epoch_day) = (y, yday)" by fastforce
  obtain m mday where m: "locate (month_lengths y) yday = (m, mday)" by fastforce
  have zero: "days_before_year 0 = 0" by (simp add: days_before_year_def)
  from locate_year_correct [OF _ y] assms(1) zero have yr: "0 \<le> y" "0 \<le> yday" "yday < year_length y"
    "s div 86400 + epoch_day = days_before_year y + yday" by simp_all
  have "y < 10000"
  proof (rule ccontr)
    assume "\<not> y < 10000"
    then have "days_before_year 10000 \<le> days_before_year y" by (simp add: days_before_mono)
    with yr assms(2) show False by simp
  qed
  from locate_correct [OF yr(2) _ m] yr(3) have mr: "m < 12" "0 \<le> mday" "mday < month_lengths y ! m"
    "yday = sum_list (take m (month_lengths y)) + mday" by (simp_all add: sum_month_lengths)
  then have "nat mday < 31" using month_length_le [of m y] by simp
  define c where "c = nat (s mod 86400)"
  have c: "c < 86400" "int c = s mod 86400" by (simp_all add: c_def nat_less_iff)
  have hour: "c div 3600 = c div 60 div 60" by (simp add: div_mult2_eq [symmetric])
  have "c div 3600 < 24" using c(1) by (simp add: less_mult_imp_div_less)
  moreover have "c div 3600 * 3600 + c div 60 mod 60 * 60 + c mod 60 = c"
  proof -
    have "c div 60 div 60 * 3600 = c div 60 div 60 * 60 * 60" by simp
    then have "c div 3600 * 3600 + c div 60 mod 60 * 60 = (c div 60 div 60 * 60 + c div 60 mod 60) * 60"
      unfolding hour by (simp only: distrib_right)
    then show ?thesis by (simp only: div_mult_mod_eq)
  qed
  ultimately have clock: "c div 3600 < 24" "c div 60 mod 60 < 60" "c mod 60 < 60"
    "c div 3600 * 3600 + c div 60 mod 60 * 60 + c mod 60 = c" by simp_all
  have "days_before_year y + sum_list (take m (month_lengths y)) + mday - epoch_day = s div 86400"
    using yr(4) mr(4) by simp
  then have at: "(days_before_year y + sum_list (take m (month_lengths y)) + mday - epoch_day) * 86400 + int c = s"
    using c(2) by simp
  have format: "format_rfc3339 t = fixed_digits 4 (nat y) @ CHR ''-'' # fixed_digits 2 (Suc m) @ CHR ''-'' # fixed_digits 2 (Suc (nat mday)) @
      CHR ''T'' # fixed_digits 2 (c div 3600) @ CHR '':'' # fixed_digits 2 (c div 60 mod 60) @ CHR '':'' # fixed_digits 2 (c mod 60) @ ''Z''"
    using y m \<open>y < 10000\<close> by (simp add: format_rfc3339_def Let_def assms(3) [symmetric] c_def)
  have parsed: "parse_rfc3339 (fixed_digits 4 a @ CHR ''-'' # fixed_digits 2 (Suc m) @ CHR ''-'' # fixed_digits 2 (Suc b) @
      CHR ''T'' # fixed_digits 2 h @ CHR '':'' # fixed_digits 2 mi @ CHR '':'' # fixed_digits 2 sec @ ''Z'') =
    Some (((days_before_year (int a) + sum_list (take m (month_lengths (int a))) + int b - epoch_day) * 86400 +
      int (h * 3600 + mi * 60 + sec)) * second)"
    if "a < 10000" "Suc m < 100" "Suc b < 100" "h < 24" "mi < 60" "sec < 60" "m < 12" "int b < month_lengths (int a) ! m"
    for a b m h mi sec
    unfolding parse_rfc3339_def using that
    by (simp add: getyear_fixed getnum_fixed expect_def getfraction_def getzone_def del: fixed_digits.simps mult_Suc)
  have "nat y < 10000" "Suc m < 100" "Suc (nat mday) < 100" "int (nat mday) = mday" "int (nat y) = y"
    "int (nat mday) < month_lengths (int (nat y)) ! m"
    using \<open>y < 10000\<close> yr(1) mr(1-3) \<open>nat mday < 31\<close> by simp_all
  with parsed [OF _ _ _ clock(1-3) mr(1), of "nat y" "nat mday"] at show ?thesis
    unfolding format clock(4) by simp
qed


theorem format_parse_seconds:
  assumes "- 62167219200 * second \<le> t" "t < 253402300800 * second"
  shows "parse_rfc3339 (format_rfc3339 t) = Some (t - t mod second)"
proof -
  have b: "epoch_day = 719528" "days_before_year 10000 = 3652425" "days_before_year 0 = 0"
    by (simp_all add: epoch_day_def days_before_year_def)
  have "- 62167219200 \<le> t div second" "t div second < 253402300800"
    using assms by (simp_all add: second_def)
  then have "- 719528 \<le> t div second div 86400" "t div second div 86400 < 2932897" by (simp_all add: zdiv_mono1)
  then show ?thesis
    using format_parses [of "t div second" t] by (simp add: b minus_mod_eq_div_mult)
qed

end
