(* ===== verification/Destruction.thy ===== *)
theory Destruction
  imports Outcome Rfc3339
begin

text \<open>
  The questions both identity controllers ask of the account and of a namespace, and the claim on a
  namespace whose identities are being destroyed (\<open>databricksAccountServes\<close>,
  \<open>destructionHolderOf\<close>, \<open>destructionHeldBy\<close>, \<open>destructionClaimFor\<close> of
  \<open>databricksaccount_controller.go\<close>; \<open>namespaceMints\<close>, \<open>injecting\<close> and \<open>fieldOwnerFor\<close> of
  \<open>databricksserviceaccount_controller.go\<close>). Lemmas: a claim written is the claim read, and a
  claimed namespace mints nothing.
\<close>

definition databricks_account_serves :: "namespaced_name \<Rightarrow> string \<Rightarrow> (error + bool \<times> bool) prog" where
  "databricks_account_serves account namespace =
     AskAccount (GetAccount account) (\<lambda>r.
       (case r of
          Inl err \<Rightarrow> if is_not_found err then Ret (Inr (False, False)) else Ret (Inl err)
        | Inr a \<Rightarrow> Ret (Inr (True, serves (ac_spec a) namespace))))"

definition destruction_holder_of :: "namespace_object \<Rightarrow> namespaced_name" where
  "destruction_holder_of namespace =
     (let held = map_get (om_labels (ns_meta namespace)) DestroyingIdentitiesLabel
      in if held = '''' then nn_zero
         else \<lparr>nn_namespace = held,
               nn_name = map_get (om_annotations (ns_meta namespace)) DestroyingIdentitiesAccountAnnotation\<rparr>)"

definition destruction_held_by :: "string \<Rightarrow> (error + namespaced_name \<times> bool) prog" where
  "destruction_held_by name =
     AskNamespace name (\<lambda>r.
       (case r of
          Inl err \<Rightarrow> if is_not_found err then Ret (Inr (nn_zero, False)) else Ret (Inl err)
        | Inr namespace \<Rightarrow> Ret (Inr (destruction_holder_of namespace, True))))"

definition field_owner_for :: "namespaced_name \<Rightarrow> string" where
  "field_owner_for account = ''databricks.workload-identity.io/'' @ nn_string account"

text \<open>The labels and annotations of the claim, and the apply that writes it.\<close>

definition destruction_claim_for :: "namespaced_name \<Rightarrow> time \<Rightarrow> go_map \<times> go_map" where
  "destruction_claim_for account at =
     ([(DestroyingIdentitiesLabel, nn_namespace account)],
      [(DestroyingIdentitiesAccountAnnotation, nn_name account),
       (DestroyingIdentitiesSinceAnnotation, format_rfc3339 at)])"

definition namespace_mints :: "string \<Rightarrow> (error + bool) prog" where
  "namespace_mints name =
     AskNamespace name (\<lambda>r.
       (case r of
          Inl err \<Rightarrow> if is_not_found err then Ret (Inr False) else Ret (Inl err)
        | Inr namespace \<Rightarrow>
            if map_of (om_labels (ns_meta namespace)) DestroyingIdentitiesLabel \<noteq> None then Ret (Inr False)
            else Ret (Inr (map_get (om_labels (ns_meta namespace)) MintLabel = Enabled))))"

definition injecting :: "string \<Rightarrow> (error + bool) prog" where
  "injecting name =
     AskNamespace name (\<lambda>r.
       (case r of
          Inl err \<Rightarrow> if is_not_found err then Ret (Inr False) else Ret (Inl err)
        | Inr namespace \<Rightarrow> Ret (Inr (map_get (om_labels (ns_meta namespace)) InjectLabel = Enabled))))"

section \<open>What each can exchange and answer\<close>

lemma account_serves_returns:
  "returns (databricks_account_serves a ns) es (Inr (True, served)) \<longleftrightarrow>
     (\<exists>acc. es = [EAccount (GetAccount a) (Inr acc)] \<and> served = serves (ac_spec acc) ns)"
  by (auto simp: databricks_account_serves_def returns_branches)

lemma held_by_returns:
  "returns (destruction_held_by ns) es (Inr (holder, there)) \<Longrightarrow>
     \<exists>reply. es = [ENamespace ns reply] \<and>
       (\<not> there \<and> (\<exists>err. reply = Inl err \<and> is_not_found err) \<or>
        there \<and> (\<exists>n. reply = Inr n \<and> holder = destruction_holder_of n))"
  by (auto simp: destruction_held_by_def returns_branches)

lemma emits_account_serves: "(\<And>n r. K (EAccount (GetAccount n) r)) \<Longrightarrow> emits K (databricks_account_serves a ns)"
  by (simp add: databricks_account_serves_def split: sum.split)

lemma emits_destruction_held_by: "(\<And>r. K (ENamespace ns r)) \<Longrightarrow> emits K (destruction_held_by ns)"
  by (simp add: destruction_held_by_def split: sum.split)

lemma emits_injecting: "(\<And>r. K (ENamespace ns r)) \<Longrightarrow> emits K (injecting ns)"
  by (simp add: injecting_def split: sum.split)

lemma emits_namespace_mints: "(\<And>r. K (ENamespace ns r)) \<Longrightarrow> emits K (namespace_mints ns)"
  by (simp add: namespace_mints_def split: sum.split)

lemma namespace_mints_returns:
  "returns (namespace_mints ns) es (Inr True) \<longleftrightarrow>
     (\<exists>n. es = [ENamespace ns (Inr n)] \<and> map_get (om_labels (ns_meta n)) MintLabel = Enabled \<and>
        map_of (om_labels (ns_meta n)) DestroyingIdentitiesLabel = None)"
  by (auto simp: namespace_mints_def returns_branches)

section \<open>Claims\<close>

text \<open>What a namespace says after an apply of a claim that succeeded: the API merges the two maps.\<close>

definition claimed :: "namespaced_name \<Rightarrow> time \<Rightarrow> namespace_object \<Rightarrow> namespace_object" where
  "claimed account at namespace =
     namespace\<lparr>ns_meta := ns_meta namespace
       \<lparr>om_labels := fst (destruction_claim_for account at) @ om_labels (ns_meta namespace),
        om_annotations := snd (destruction_claim_for account at) @ om_annotations (ns_meta namespace)\<rparr>\<rparr>"

lemma claim_keys [simp]:
  "DestroyingIdentitiesAccountAnnotation \<noteq> DestroyingIdentitiesSinceAnnotation"
  "DestroyingIdentitiesSinceAnnotation \<noteq> DestroyingIdentitiesAccountAnnotation"
  by (simp_all add: DestroyingIdentitiesAccountAnnotation_def DestroyingIdentitiesSinceAnnotation_def)

text \<open>C25: A claim that was written is read back as held by the account that wrote it, with the second
  it was written in, for any time of the years 0 to 9999, and until it is released no operator mints in the namespace, whatever its mint
  label says.\<close>
theorem claim_round_trip:
  assumes "nn_namespace account \<noteq> ''''" "- 62167219200 * second \<le> at" "at < 253402300800 * second"
  shows "destruction_holder_of (claimed account at namespace) = account \<and>
    parse_rfc3339 (map_get (om_annotations (ns_meta (claimed account at namespace))) DestroyingIdentitiesSinceAnnotation) =
      Some (at - at mod second) \<and>
    returns (namespace_mints name) [ENamespace name (Inr (claimed account at namespace))] (Inr False)"
  using assms format_parse_seconds [OF assms(2,3)]
  by (simp add: destruction_holder_of_def claimed_def destruction_claim_for_def map_get_def Let_def namespace_mints_def)

theorem claim_round_trip_witness:
  "destruction_holder_of (claimed \<lparr>nn_namespace = ''ops'', nn_name = ''acc''\<rparr> 7
     \<lparr>ns_meta = \<lparr>om_namespace = '''', om_name = ''team-a'', om_uid = ''u'', om_resource_version = ''1'',
        om_generation = 1, om_deletion_timestamp = None, om_finalizers = [],
        om_labels = [(MintLabel, Enabled)], om_annotations = []\<rparr>\<rparr>) = \<lparr>nn_namespace = ''ops'', nn_name = ''acc''\<rparr>"
  using claim_round_trip [of "\<lparr>nn_namespace = ''ops'', nn_name = ''acc''\<rparr>" 7] by (simp add: second_def)

lemma namespace_mints_True:
  "returns (namespace_mints name) es (Inr True) \<longleftrightarrow>
     (\<exists>namespace. es = [ENamespace name (Inr namespace)] \<and>
        map_of (om_labels (ns_meta namespace)) DestroyingIdentitiesLabel = None \<and>
        map_get (om_labels (ns_meta namespace)) MintLabel = Enabled)"
  by (auto simp: namespace_mints_def returns_branches)

end
