(* ===== verification/IssuedController.thy ===== *)
theory IssuedController
  imports ServicePrincipals Destruction
begin

text \<open>
  \<open>internal/controller/issueddatabricksserviceprincipal_controller.go\<close>: the controller that owns
  everything the operator does in Databricks. One definition per method, in the order of the
  file; \<open>Reconcile\<close> is \<open>reconcile_issued\<close>. Lemmas: for every pass, whatever is answered to it and
  wherever it stops, when it may create, delete, release and report.
\<close>

record issued_reconciler =
  ir_account :: namespaced_name
  ir_token_path :: string

definition issuedRetryAfterAwaited :: duration where "issuedRetryAfterAwaited = minute"
definition issuedRetryAfterSettled :: duration where "issuedRetryAfterSettled = 10 * minute"

section \<open>Ending a pass\<close>

definition report_ready ::
  "extern \<Rightarrow> issued \<Rightarrow> condition_status \<Rightarrow> string \<Rightarrow> string \<Rightarrow> reconciled prog" where
  "report_ready x issued status reason message =
     then_do (set_condition x (it_conditions (id_status issued)) (om_generation (id_meta issued))
                conditionReady status reason message) (\<lambda>conditions.
       AskIssued (UpdateIssuedStatus (issued\<lparr>id_status := id_status issued\<lparr>it_conditions := conditions\<rparr>\<rparr>)) (\<lambda>r.
         Ret (requeue_after (retry_after_for status issuedRetryAfterAwaited issuedRetryAfterSettled),
              ignore_not_found (failure_of r))))"

definition report_failure :: "extern \<Rightarrow> issued \<Rightarrow> outcome \<Rightarrow> reconciled prog" where
  "report_failure x issued failure =
     then_do (report_ready x issued (oc_status failure) (oc_reason failure) (oc_message failure)) (\<lambda>(result, err).
       (case err of
          Some e \<Rightarrow> Ret (no_result, Some e)
        | None \<Rightarrow>
            (case oc_err failure of
               Some e \<Rightarrow> Ret (no_result, Some e)
             | None \<Rightarrow> Ret (result, None))))"

section \<open>What a pass asks first\<close>

text \<open>Is the ServiceAccount still there, still asking for this identity, and still the same one?\<close>

definition still_wanted :: "extern \<Rightarrow> issued_reconciler \<Rightarrow> issued \<Rightarrow> (error + bool) prog" where
  "still_wanted x r issued =
     AskServiceAccount (LiveServiceAccount
         \<lparr>nn_namespace = is_namespace (ip_service_account (id_spec issued)),
          nn_name = is_name (ip_service_account (id_spec issued))\<rparr>) (\<lambda>reply.
       (case reply of
          Inl err \<Rightarrow> if is_not_found err then Ret (Inr False) else Ret (Inl err)
        | Inr service_account \<Rightarrow>
            if no_longer_asked (requests_for x (om_annotations (sa_meta service_account)) (ir_account r))
                 (ip_identity (id_spec issued))
            then Ret (Inr False)
            else Ret (Inr (om_uid (sa_meta service_account) = is_uid (ip_service_account (id_spec issued))))))"

definition issuing_for :: "issued_reconciler \<Rightarrow> issued \<Rightarrow> string \<Rightarrow> issuing" where
  "issuing_for r issued issuer =
     \<lparr>ig_issuer = issuer,
      ig_namespace = is_namespace (ip_service_account (id_spec issued)),
      ig_name = is_name (ip_service_account (id_spec issued)),
      ig_uid = is_uid (ip_service_account (id_spec issued)),
      ig_operator = nn_string (ir_account r),
      ig_identity = ip_identity (id_spec issued)\<rparr>"

definition no_audience :: error where
  "no_audience =
     ErrorText (''the operator'' @ [CHR 0x27] @
       ''s own token carries no aud claim, so the audience to trust is unknown; '' @
       ''a federation policy naming none is one no token can satisfy'')"

definition issuer_and_audience :: "extern \<Rightarrow> issued_reconciler \<Rightarrow> (error + string \<times> string) prog" where
  "issuer_and_audience x r =
     then_do (read_token_claims x (ir_token_path r)) (\<lambda>reply.
       (case reply of
          Inl err \<Rightarrow> Ret (Inl err)
        | Inr claims \<Rightarrow>
            (case issuer_of claims of
               Inl err \<Rightarrow> Ret (Inl err)
             | Inr issuer \<Rightarrow>
                 (case tc_audience claims of
                    [] \<Rightarrow> Ret (Inl no_audience)
                  | audience # _ \<Rightarrow>
                      if audience = '''' then Ret (Inl no_audience) else Ret (Inr (issuer, audience))))))"

definition token_issuer :: "extern \<Rightarrow> issued_reconciler \<Rightarrow> (error + string) prog" where
  "token_issuer x r =
     then_do (read_token_claims x (ir_token_path r)) (\<lambda>reply.
       (case reply of Inl err \<Rightarrow> Ret (Inl err) | Inr claims \<Rightarrow> Ret (issuer_of claims)))"

section \<open>Destroying\<close>

definition create_sent_at :: "issued \<Rightarrow> time" where
  "create_sent_at issued = (case it_create_sent_at (id_status issued) of None \<Rightarrow> 0 | Some t \<Rightarrow> t)"

definition held_unconfirmed :: "clients \<Rightarrow> issued \<Rightarrow> issuing \<Rightarrow> string" where
  "held_unconfirmed clients issued i =
     ''a create was sent for this identity at '' @ format_rfc3339 (create_sent_at issued) @
     '' and no service principal carrying its marker has appeared, so this record is held rather than let go '' @
     ''of: releasing it now would leave one in Databricks that nothing records. Search account '' @
     clients_account_id clients @ '' for a service principal whose externalId is '' @ marker_for i @
     ''. Whoever has looked and found none removes the finalizer; whoever finds one deletes it there first.''"

definition still_there :: "string \<Rightarrow> string" where
  "still_there message =
     message @ ''; the service principal is still there, and this record is held until it is not''"

text \<open>What there is to delete: an end of the pass, or the id (empty when there is nothing).\<close>

definition what_to_delete :: "extern \<Rightarrow> issued_reconciler \<Rightarrow> clients \<Rightarrow> issued \<Rightarrow> (reconciled + string) prog" where
  "what_to_delete x r clients issued =
     (case service_principal_state (id_status issued) of
        Unsent \<Rightarrow> Ret (Inr '''')
      | Gone \<Rightarrow> Ret (Inr '''')
      | Sent \<Rightarrow>
          then_do (token_issuer x r) (\<lambda>reply.
            (case reply of
               Inl err \<Rightarrow>
                 then_do (report_ready x issued ConditionUnknown reasonUnprepared (error_string (quote x) err))
                   (\<lambda>end. Ret (Inl end))
             | Inr issuer \<Rightarrow>
                 (let i = issuing_for r issued issuer
                  in then_do (find_service_principal x clients i) (\<lambda>found.
                    (case found of
                       Inl err \<Rightarrow> then_do (report_failure x issued (outcome_for x err)) (\<lambda>end. Ret (Inl end))
                     | Inr None \<Rightarrow>
                         then_do (report_ready x issued ConditionUnknown reasonCreateUnconfirmed
                                    (held_unconfirmed clients issued i)) (\<lambda>end. Ret (Inl end))
                     | Inr (Some (sp, _)) \<Rightarrow> Ret (Inr sp))))))
      | Known \<Rightarrow> Ret (Inr (it_service_principal_id (id_status issued))))"

definition release_record :: "extern \<Rightarrow> issued \<Rightarrow> reconciled prog" where
  "release_record x issued =
     AskIssued (UpdateIssued (issued\<lparr>id_meta := id_meta issued
         \<lparr>om_finalizers := remove_finalizer x ServicePrincipalFinalizer (om_finalizers (id_meta issued))\<rparr>\<rparr>)) (\<lambda>reply.
       Ret (no_result, ignore_not_found (failure_of reply)))"

definition destroy_record :: "extern \<Rightarrow> issued_reconciler \<Rightarrow> clients \<Rightarrow> issued \<Rightarrow> reconciled prog" where
  "destroy_record x r clients issued =
     (if \<not> contains_finalizer (id_meta issued) ServicePrincipalFinalizer then Ret (no_result, None)
      else then_do (what_to_delete x r clients issued) (\<lambda>decided.
        (case decided of
           Inl end \<Rightarrow> Ret end
         | Inr sp \<Rightarrow>
             if sp \<noteq> '''' then
               then_do (delete_service_principal clients sp) (\<lambda>failed.
                 (case failed of
                    Some err \<Rightarrow>
                      (let failure = outcome_for x err
                       in report_failure x issued
                            (failure\<lparr>oc_reason := reasonDeleteFailed,
                                     oc_message := still_there (oc_message failure)\<rparr>))
                  | None \<Rightarrow> release_record x issued))
             else release_record x issued)))"

section \<open>Converging\<close>

definition removed_in_databricks_message :: "issued \<Rightarrow> string" where
  "removed_in_databricks_message issued =
     ''service principal '' @ it_service_principal_id (id_status issued) @
     '' was deleted in Databricks and is not replaced. To issue a new identity, remove '' @
     service_principal_annotation_for (ip_identity (id_spec issued)) @ '' from ServiceAccount '' @
     is_namespace (ip_service_account (id_spec issued)) @ ''/'' @ is_name (ip_service_account (id_spec issued)) @
     '' and add it again, which produces a new client id''"

definition create_unconfirmed :: "clients \<Rightarrow> issued \<Rightarrow> issuing \<Rightarrow> string" where
  "create_unconfirmed clients issued i =
     ''a create was sent for this identity at '' @ format_rfc3339 (create_sent_at issued) @
     '' and no service principal carrying its marker has appeared, so nothing is created here: a second one '' @
     ''carrying the same marker could never be told from the first. Search account '' @
     clients_account_id clients @ '' for a service principal whose externalId is '' @ marker_for i @
     ''. Deleting it there, or deleting this record once nothing is left, is what ends this.''"

text \<open>The status a create or a lookup adopted is written with.\<close>

definition adopted :: "clients \<Rightarrow> issued \<Rightarrow> string \<Rightarrow> string \<Rightarrow> string \<Rightarrow> string \<Rightarrow> issued" where
  "adopted clients issued sp client_id issuer audience =
     (let here = clients_account_id clients;
          status = id_status issued\<lparr>it_service_principal_id := sp, it_client_id := client_id\<rparr>;
          status = (if here \<noteq> '''' then status\<lparr>it_account_id := here\<rparr> else status)
      in issued\<lparr>id_status := status\<lparr>it_issuer := issuer, it_audience := audience\<rparr>\<rparr>)"

definition adopt ::
  "clients \<Rightarrow> issued \<Rightarrow> string \<Rightarrow> string \<Rightarrow> string \<Rightarrow> string \<Rightarrow> (error + issued) prog" where
  "adopt clients issued sp client_id issuer audience =
     AskIssued (UpdateIssuedStatus (adopted clients issued sp client_id issuer audience)) Ret"

text \<open>The record as it is marked before a create is sent.\<close>

definition marked_sent :: "clients \<Rightarrow> issued \<Rightarrow> time \<Rightarrow> issued" where
  "marked_sent clients issued sent_at =
     (let here = clients_account_id clients;
          status = (if here \<noteq> '''' \<and> it_account_id (id_status issued) = ''''
                    then id_status issued\<lparr>it_account_id := here\<rparr> else id_status issued)
      in issued\<lparr>id_status := status\<lparr>it_create_sent_at := Some sent_at\<rparr>\<rparr>)"

definition exchanging :: "issued \<Rightarrow> string" where
  "exchanging issued =
     ''exchanging tokens for '' @ ip_subject (id_spec issued) @ '' as client '' @ it_client_id (id_status issued)"

text \<open>The end of \<open>converge\<close>, once the record names a service principal.\<close>

definition write_policy :: "extern \<Rightarrow> clients \<Rightarrow> issued \<Rightarrow> string \<Rightarrow> string \<Rightarrow> reconciled prog" where
  "write_policy x clients issued issuer audience =
     (let issued = issued\<lparr>id_status := id_status issued\<lparr>it_issuer := issuer, it_audience := audience\<rparr>\<rparr>
      in then_do (ensure_federation_policy x clients (it_service_principal_id (id_status issued)) issuer
                    (ip_subject (id_spec issued)) (it_audience (id_status issued))) (\<lambda>failed.
         (case failed of
            Some err \<Rightarrow> report_failure x issued (outcome_for x err)
          | None \<Rightarrow> report_ready x issued ConditionTrue reasonExchangeable (exchanging issued))))"

text \<open>The three branches of the switch on the record's state.\<close>

definition converge_known :: "extern \<Rightarrow> clients \<Rightarrow> issued \<Rightarrow> string \<Rightarrow> string \<Rightarrow> reconciled prog" where
  "converge_known x clients issued issuer audience =
     then_do (service_principal_exists clients (it_service_principal_id (id_status issued))) (\<lambda>there.
       (case there of
          Inl err \<Rightarrow> report_failure x issued (outcome_for x err)
        | Inr False \<Rightarrow>
            AskNow (\<lambda>removed_at.
              (let issued = issued\<lparr>id_status := id_status issued\<lparr>it_removed_at := Some removed_at\<rparr>\<rparr>
               in report_ready x issued ConditionFalse reasonRemovedInDatabricks
                    (removed_in_databricks_message issued)))
        | Inr True \<Rightarrow> write_policy x clients issued issuer audience))"

definition converge_unsent ::
  "extern \<Rightarrow> issued_reconciler \<Rightarrow> clients \<Rightarrow> issued \<Rightarrow> string \<Rightarrow> string \<Rightarrow> reconciled prog" where
  "converge_unsent x r clients issued issuer audience =
     AskNow (\<lambda>sent_at.
       AskIssued (UpdateIssuedStatus (marked_sent clients issued sent_at)) (\<lambda>stored.
         (case stored of
            Inl err \<Rightarrow> Ret (no_result, Some err)
          | Inr issued' \<Rightarrow>
              then_do (create_service_principal clients (issuing_for r issued issuer)) (\<lambda>made.
                (case made of
                   Inl err \<Rightarrow> report_failure x issued' (outcome_for x err)
                 | Inr (sp, client_id) \<Rightarrow>
                     then_do (adopt clients issued' sp client_id issuer audience) (\<lambda>stored.
                       (case stored of
                          Inl err \<Rightarrow> Ret (no_result, Some err)
                        | Inr issued'' \<Rightarrow> write_policy x clients issued'' issuer audience)))))))"

definition converge_sent ::
  "extern \<Rightarrow> issued_reconciler \<Rightarrow> clients \<Rightarrow> issued \<Rightarrow> string \<Rightarrow> string \<Rightarrow> reconciled prog" where
  "converge_sent x r clients issued issuer audience =
     (let i = issuing_for r issued issuer
      in then_do (find_service_principal x clients i) (\<lambda>found.
         (case found of
            Inl err \<Rightarrow> report_failure x issued (outcome_for x err)
          | Inr None \<Rightarrow>
              report_ready x issued ConditionUnknown reasonCreateUnconfirmed (create_unconfirmed clients issued i)
          | Inr (Some (sp, client_id)) \<Rightarrow>
              then_do (adopt clients issued sp client_id issuer audience) (\<lambda>stored.
                (case stored of
                   Inl err \<Rightarrow> Ret (no_result, Some err)
                 | Inr issued' \<Rightarrow> write_policy x clients issued' issuer audience)))))"

definition converge :: "extern \<Rightarrow> issued_reconciler \<Rightarrow> clients \<Rightarrow> issued \<Rightarrow> reconciled prog" where
  "converge x r clients issued =
     (if service_principal_state (id_status issued) = Gone then
        report_ready x issued ConditionFalse reasonRemovedInDatabricks (removed_in_databricks_message issued)
      else then_do (issuer_and_audience x r) (\<lambda>reply.
        (case reply of
           Inl err \<Rightarrow> report_ready x issued ConditionUnknown reasonUnprepared (error_string (quote x) err)
         | Inr (issuer, audience) \<Rightarrow>
             (case service_principal_state (id_status issued) of
                Known \<Rightarrow> converge_known x clients issued issuer audience
              | Unsent \<Rightarrow> converge_unsent x r clients issued issuer audience
              | Sent \<Rightarrow> converge_sent x r clients issued issuer audience
              | Gone \<Rightarrow> write_policy x clients issued issuer audience))))"

section \<open>A namespace the account no longer names\<close>

definition minting_not_suspended :: "issued_reconciler \<Rightarrow> string \<Rightarrow> string" where
  "minting_not_suspended r namespace =
     ''namespace '' @ namespace @ '' is not one DatabricksAccount '' @ nn_string (ir_account r) @
     '' names, so this identity is to be destroyed, and nothing carries '' @ DestroyingIdentitiesLabel @
     '' there. Nothing has been destroyed yet: a destruction begun while identities can still be made here would '' @
     ''leave behind the ones made after it. This operator writes that label on its account'' @ [CHR 0x27] @
     ''s own pass, and the destruction follows.''"

definition another_destruction :: "string \<Rightarrow> namespaced_name \<Rightarrow> string" where
  "another_destruction namespace holder =
     ''namespace '' @ namespace @ '' carries '' @ DestroyingIdentitiesLabel @ ''='' @ nn_namespace holder @
     '' and '' @ DestroyingIdentitiesAccountAnnotation @ ''='' @ nn_name holder @ '', so operator '' @
     nn_string holder @ '' is destroying its identities there and this one waits: one at a time is what keeps '' @
     ''either from working through a set the other is still adding to. Nothing has been destroyed for this identity.''"

definition delete_record :: "issued \<Rightarrow> reconciled prog" where
  "delete_record issued = AskWrite (DeleteIssued issued) (\<lambda>failed. Ret (no_result, ignore_not_found failed))"

definition destroy_because_not_served :: "extern \<Rightarrow> issued_reconciler \<Rightarrow> issued \<Rightarrow> reconciled prog" where
  "destroy_because_not_served x r issued =
     (let namespace = is_namespace (ip_service_account (id_spec issued))
      in then_do (destruction_held_by namespace) (\<lambda>reply.
         (case reply of
            Inl err \<Rightarrow> Ret (no_result, Some err)
          | Inr (holder, there) \<Rightarrow>
              if there \<and> holder = nn_zero then
                report_ready x issued ConditionUnknown reasonMintingNotSuspended (minting_not_suspended r namespace)
              else if there \<and> holder \<noteq> ir_account r then
                report_ready x issued ConditionUnknown reasonAnotherDestruction (another_destruction namespace holder)
              else delete_record issued)))"

section \<open>Reconcile\<close>

definition add_record_finalizer :: "extern \<Rightarrow> issued \<Rightarrow> reconciled prog" where
  "add_record_finalizer x issued =
     AskIssued (UpdateIssued (issued\<lparr>id_meta := id_meta issued
         \<lparr>om_finalizers := add_finalizer x ServicePrincipalFinalizer (om_finalizers (id_meta issued))\<rparr>\<rparr>)) (\<lambda>reply.
       (case reply of
          Inl err \<Rightarrow> Ret (no_result, Some err)
        | Inr _ \<Rightarrow> Ret (no_result\<lparr>rs_requeue := True\<rparr>, None)))"

definition reconcile_record :: "extern \<Rightarrow> issued_reconciler \<Rightarrow> clients \<Rightarrow> issued \<Rightarrow> reconciled prog" where
  "reconcile_record x r clients issued =
     (if om_deletion_timestamp (id_meta issued) \<noteq> None then destroy_record x r clients issued
      else if \<not> contains_finalizer (id_meta issued) ServicePrincipalFinalizer then add_record_finalizer x issued
      else then_do (still_wanted x r issued) (\<lambda>wanted.
        (case wanted of
           Inl err \<Rightarrow> Ret (no_result, Some err)
         | Inr False \<Rightarrow> delete_record issued
         | Inr True \<Rightarrow>
             then_do (databricks_account_serves (ir_account r) (is_namespace (ip_service_account (id_spec issued))))
               (\<lambda>reply. (case reply of
                  Inl err \<Rightarrow> Ret (no_result, Some err)
                | Inr (declared, served) \<Rightarrow>
                    if declared \<and> \<not> served then destroy_because_not_served x r issued
                    else converge x r clients issued)))))"

definition reconcile_issued :: "extern \<Rightarrow> issued_reconciler \<Rightarrow> namespaced_name \<Rightarrow> reconciled prog" where
  "reconcile_issued x r req =
     AskIssued (GetIssued req) (\<lambda>reply.
       (case reply of
          Inl err \<Rightarrow> Ret (no_result, if is_not_found err then None else Some err)
        | Inr issued \<Rightarrow> AskSlot (\<lambda>slot. reconcile_record x r (snapshot slot) issued)))"

section \<open>What each step of a pass can exchange\<close>

lemma emits_report_ready:
  assumes "\<And>t. K (ENow t)"
    and "\<And>cs r. K (EIssued (UpdateIssuedStatus (issued\<lparr>id_status := id_status issued\<lparr>it_conditions := cs\<rparr>\<rparr>)) r)"
  shows "emits K (report_ready x issued status reason message)"
  using assms by (simp add: report_ready_def set_condition_def)

lemma emits_report_failure:
  assumes "\<And>t. K (ENow t)"
    and "\<And>cs r. K (EIssued (UpdateIssuedStatus (issued\<lparr>id_status := id_status issued\<lparr>it_conditions := cs\<rparr>\<rparr>)) r)"
  shows "emits K (report_failure x issued failure)"
  unfolding report_failure_def
  by (rule emits_then_do [OF emits_report_ready [OF assms]]) (simp split: prod.split option.split)

lemma emits_issuer_and_audience: "(\<And>p r. K (EFile p r)) \<Longrightarrow> emits K (issuer_and_audience x r)"
  unfolding issuer_and_audience_def
  by (intro emits_then_do emits_read_token_claims) (simp_all split: sum.split list.split)

lemma emits_token_issuer: "(\<And>p r. K (EFile p r)) \<Longrightarrow> emits K (token_issuer x r)"
  unfolding token_issuer_def
  by (intro emits_then_do emits_read_token_claims) (simp_all split: sum.split)

lemma emits_still_wanted: "(\<And>n r. K (EServiceAccount (LiveServiceAccount n) r)) \<Longrightarrow> emits K (still_wanted x r issued)"
  by (simp add: still_wanted_def split: sum.split)

lemmas emits_reports = emits_report_ready emits_report_failure

lemma emits_what_to_delete:
  assumes "\<And>t. K (ENow t)" "\<And>i r. K (EIssued (UpdateIssuedStatus i) r)" "\<And>p r. K (EFile p r)"
    and "\<And>i. emits K (find_service_principal x clients i)"
  shows "emits K (what_to_delete x r clients issued)"
  using assms unfolding what_to_delete_def
  by (auto intro!: emits_then_do emits_reports emits_token_issuer
      simp: Let_def split: record_state.split sum.split option.split)

lemma emits_write_policy:
  assumes "\<And>t. K (ENow t)" "\<And>i r. K (EIssued (UpdateIssuedStatus i) r)" "\<And>sp iss sub aud. emits K (ensure_federation_policy x clients sp iss sub aud)"
  shows "emits K (write_policy x clients issued iss aud)"
  using assms unfolding write_policy_def Let_def
  by (auto intro!: emits_then_do emits_reports split: option.split)

lemma emits_converge_known:
  assumes "\<And>t. K (ENow t)" "\<And>i r. K (EIssued (UpdateIssuedStatus i) r)" "\<And>sp iss sub aud. emits K (ensure_federation_policy x clients sp iss sub aud)"
    and "\<And>sp. emits K (service_principal_exists clients sp)"
  shows "emits K (converge_known x clients issued iss aud)"
  using assms unfolding converge_known_def Let_def
  by (auto intro!: emits_then_do emits_reports emits_write_policy
      split: sum.split bool.split)

lemma emits_converge_sent:
  assumes "\<And>t. K (ENow t)" "\<And>i r. K (EIssued (UpdateIssuedStatus i) r)" "\<And>sp iss sub aud. emits K (ensure_federation_policy x clients sp iss sub aud)"
    and "\<And>i. emits K (find_service_principal x clients i)"
  shows "emits K (converge_sent x r clients issued iss aud)"
  using assms unfolding converge_sent_def adopt_def Let_def
  by (auto intro!: emits_then_do emits_reports emits_write_policy
      split: sum.split option.split)

lemma emits_converge_unsent:
  assumes "\<And>t. K (ENow t)" "\<And>i r. K (EIssued (UpdateIssuedStatus i) r)" "\<And>sp iss sub aud. emits K (ensure_federation_policy x clients sp iss sub aud)"
    and "\<And>i. emits K (create_service_principal clients i)"
  shows "emits K (converge_unsent x r clients issued iss aud)"
  using assms unfolding converge_unsent_def adopt_def Let_def
  by (auto intro!: emits_then_do emits_reports emits_write_policy
      split: sum.split prod.split)

lemma emits_destroy_record:
  assumes "\<And>t. K (ENow t)" "\<And>i r. K (EIssued (UpdateIssuedStatus i) r)" "\<And>p r. K (EFile p r)"
    and "\<And>i. emits K (find_service_principal x clients i)" "\<And>i r. K (EIssued (UpdateIssued i) r)"
    and "\<And>sp. emits K (delete_service_principal clients sp)"
  shows "emits K (destroy_record x r clients issued)"
  using assms unfolding destroy_record_def release_record_def Let_def
  by (auto intro!: emits_then_do emits_reports emits_what_to_delete
      split: sum.split option.split)

lemma emits_destroy_because_not_served:
  assumes "\<And>t. K (ENow t)" "\<And>ns r. K (ENamespace ns r)" "\<And>i r. K (EWrite (DeleteIssued i) r)"
    and "\<And>cs r. K (EIssued (UpdateIssuedStatus (issued\<lparr>id_status := id_status issued\<lparr>it_conditions := cs\<rparr>\<rparr>)) r)"
  shows "emits K (destroy_because_not_served x r issued)"
  using assms unfolding destroy_because_not_served_def delete_record_def Let_def
  by (auto intro!: emits_then_do emits_reports emits_destruction_held_by split: sum.split)

lemma emits_converge:
  assumes "\<And>t. K (ENow t)" "\<And>i r. K (EIssued (UpdateIssuedStatus i) r)" "\<And>sp iss sub aud. emits K (ensure_federation_policy x clients sp iss sub aud)"
    and "\<And>i. emits K (find_service_principal x clients i)" "\<And>sp. emits K (service_principal_exists clients sp)" "\<And>i. emits K (create_service_principal clients i)"
    and "\<And>p r. K (EFile p r)"
  shows "emits K (converge x r clients issued)"
  using assms unfolding converge_def
  by (auto intro!: emits_then_do emits_reports emits_issuer_and_audience emits_converge_known
      emits_converge_unsent emits_converge_sent emits_write_policy
      split: sum.split prod.split record_state.split)

lemma emits_reconcile_record:
  assumes "\<And>issued. emits K (destroy_record x r clients issued)" "\<And>issued. emits K (converge x r clients issued)"
    and "\<And>issued. emits K (destroy_because_not_served x r issued)"
    and "\<And>i r. K (EIssued (UpdateIssued i) r)" "\<And>n r. K (EServiceAccount (LiveServiceAccount n) r)"
    and "\<And>n r. K (EAccount (GetAccount n) r)" "\<And>i r. K (EWrite (DeleteIssued i) r)"
  shows "emits K (reconcile_record x r clients issued)"
  using assms unfolding reconcile_record_def add_record_finalizer_def delete_record_def
  by (auto intro!: emits_then_do emits_still_wanted emits_account_serves
      split: sum.split bool.split prod.split)

end
