(* ===== verification/IssuedSafety.thy ===== *)
theory IssuedSafety
  imports IssuedController
begin

text \<open>
  What no pass of the record controller does, whatever it is answered and wherever it stops: create
  without a persisted mark, release or delete a record that may leave a service principal behind,
  act in two accounts, ask about a service principal known to be gone, or report an exchange that
  was not confirmed. Each is proved over \<open>IssuedController\<close>'s \<open>emits\<close> lemmas, and has a concrete
  run as its witness.
\<close>

section \<open>Creating\<close>

definition is_create :: "event \<Rightarrow> bool" where
  "is_create e = (case e of EPrincipal _ (CreatePrincipal _ _ _) _ \<Rightarrow> True | _ \<Rightarrow> False)"

lemma is_create_simps [simp]:
  "is_create (EPrincipal cfg (CreatePrincipal d m a) r)" "\<not> is_create (EPrincipal cfg (GetPrincipal s) r1)"
  "\<not> is_create (EIssued q r2)" "\<not> is_create (EAccount q3 r3)" "\<not> is_create (EServiceAccount q4 r4)"
  "\<not> is_create (ENamespace n r5)" "\<not> is_create (EWrite w r6)" "\<not> is_create (EPrincipals cfg f r7)"
  "\<not> is_create (EPolicy cfg q8 r8)" "\<not> is_create (ECall cfg q9 r9)" "\<not> is_create (EFile p r10)"
  "\<not> is_create (ENow t)" "\<not> is_create (ESlot sl)"
  by (simp_all add: is_create_def)

text \<open>The live read of the ServiceAccount that says this identity is not wanted any more.\<close>

definition not_wanted :: "extern \<Rightarrow> issued_reconciler \<Rightarrow> issued \<Rightarrow> error + service_account \<Rightarrow> bool" where
  "not_wanted x r issued reply =
     (case reply of
        Inl err \<Rightarrow> is_not_found err
      | Inr sa \<Rightarrow>
          no_longer_asked (requests_for x (om_annotations (sa_meta sa)) (ir_account r)) (ip_identity (id_spec issued)) \<or>
          om_uid (sa_meta sa) \<noteq> is_uid (ip_service_account (id_spec issued)))"

definition live_key :: "issued \<Rightarrow> namespaced_name" where
  "live_key issued =
     \<lparr>nn_namespace = is_namespace (ip_service_account (id_spec issued)),
      nn_name = is_name (ip_service_account (id_spec issued))\<rparr>"

lemma still_wanted_returns:
  "returns (still_wanted x r issued) es (Inr wanted) \<Longrightarrow>
     \<exists>reply. es = [EServiceAccount (LiveServiceAccount (live_key issued)) reply] \<and>
       wanted = (\<not> not_wanted x r issued reply)"
  by (auto simp: still_wanted_def not_wanted_def live_key_def returns_branches)

text \<open>What a pass asked, and what it was told, before it may create: the record, the slot, the ServiceAccount,
  the account, the token, the clock, and that the mark was stored.\<close>

definition before_create ::
  "issued_reconciler \<Rightarrow> namespaced_name \<Rightarrow> issued \<Rightarrow> account_in_use \<Rightarrow> service_account \<Rightarrow> error + account \<Rightarrow> string \<Rightarrow> time \<Rightarrow> issued \<Rightarrow> event list" where
  "before_create r req issued slot sa account token sent_at stored =
     [EIssued (GetIssued req) (Inr issued), ESlot slot,
      EServiceAccount (LiveServiceAccount (live_key issued)) (Inr sa),
      EAccount (GetAccount (ir_account r)) account,
      EFile (ir_token_path r) (Inr token), ENow sent_at,
      EIssued (UpdateIssuedStatus (marked_sent (snapshot slot) issued sent_at)) (Inr stored)]"

text \<open>The answers that let it: the identity is asked for by the same ServiceAccount, and its namespace is not one
  the account leaves out.\<close>

definition may_create :: "extern \<Rightarrow> issued_reconciler \<Rightarrow> issued \<Rightarrow> service_account \<Rightarrow> error + account \<Rightarrow> bool" where
  "may_create x r issued sa account \<longleftrightarrow>
     \<not> not_wanted x r issued (Inr sa) \<and>
     (case account of
        Inl err \<Rightarrow> is_not_found err
      | Inr a \<Rightarrow> serves (ac_spec a) (is_namespace (ip_service_account (id_spec issued)))) \<and>
     service_principal_state (id_status issued) = Unsent \<and>
     om_deletion_timestamp (id_meta issued) = None \<and>
     contains_finalizer (id_meta issued) ServicePrincipalFinalizer"

definition create_for :: "extern \<Rightarrow> issued_reconciler \<Rightarrow> issued \<Rightarrow> account_in_use \<Rightarrow> string \<Rightarrow> event \<Rightarrow> bool" where
  "create_for x r issued slot token e \<longleftrightarrow>
     (\<exists>cfg claims issuer reply. snapshot slot = Installed cfg \<and>
        parse_token_claims x token = Inr claims \<and> issuer_of claims = Inr issuer \<and>
        e = EPrincipal cfg (CreatePrincipal
              (display_name_for (is_namespace (ip_service_account (id_spec issued)))
                 (is_name (ip_service_account (id_spec issued))) (ip_identity (id_spec issued)))
              (marker_for (issuing_for r issued issuer)) True) reply)"

definition create_ok :: "extern \<Rightarrow> issued_reconciler \<Rightarrow> namespaced_name \<Rightarrow> event list \<Rightarrow> event \<Rightarrow> bool" where
  "create_ok x r req h e \<longleftrightarrow> (is_create e \<longrightarrow>
     (\<exists>issued slot sa account token sent_at stored.
        h = before_create r req issued slot sa account token sent_at stored \<and>
        may_create x r issued sa account \<and> create_for x r issued slot token e))"

lemma create_ok_quiet [simp]: "\<not> is_create e \<Longrightarrow> create_ok x r req h e"
  by (simp add: create_ok_def)

lemma before_create_quiet [simp]: "\<not> list_ex is_create (before_create r req issued slot sa account token sent_at stored)"
  by (simp add: before_create_def)

lemma create_okD:
  assumes "create_ok x r req h e" "is_create e"
  obtains issued slot cfg sent_at stored rest where
    "h = EIssued (GetIssued req) (Inr issued) # ESlot slot # rest @
       [EIssued (UpdateIssuedStatus (marked_sent (Installed cfg) issued sent_at)) (Inr stored)]"
    "snapshot slot = Installed cfg" "service_principal_state (id_status issued) = Unsent" "\<not> list_ex is_create h"
proof -
  from assms obtain issued slot sa account token sent_at stored where
    h: "h = before_create r req issued slot sa account token sent_at stored"
      "may_create x r issued sa account" "create_for x r issued slot token e"
    unfolding create_ok_def by blast
  from h(3) obtain cfg where "snapshot slot = Installed cfg" by (auto simp: create_for_def)
  with h that [of issued slot "[EServiceAccount (LiveServiceAccount (live_key issued)) (Inr sa),
      EAccount (GetAccount (ir_account r)) account, EFile (ir_token_path r) (Inr token), ENow sent_at]" cfg sent_at stored]
  show thesis by (simp add: before_create_def may_create_def)
qed

lemmas create_quiet = always_quiet [where K = "\<lambda>e. \<not> is_create e", OF _ create_ok_quiet]
lemmas create_bind = always_bind [where K = "\<lambda>e. \<not> is_create e", OF _ create_ok_quiet]

lemma converge_unsent_creates:
  assumes h: "h = [EIssued (GetIssued req) (Inr issued), ESlot slot, EServiceAccount (LiveServiceAccount (live_key issued)) (Inr sa),
        EAccount (GetAccount (ir_account r)) account, EFile (ir_token_path r) (Inr token)]"
    and "may_create x r issued sa account" "parse_token_claims x token = Inr claims" "issuer_of claims = Inr iss"
  shows "always (create_ok x r req) (\<lambda>_ _. True) (converge_unsent x r (snapshot slot) issued iss aud) h"
proof -
  have ends: "always (create_ok x r req) (\<lambda>_ _. True) (report_failure x i out) h'"
    "always (create_ok x r req) (\<lambda>_ _. True) (write_policy x c i iss aud) h'" for i out c h'
    by (intro create_quiet emits_report_failure emits_write_policy emits_calls; simp)+
  have made: "create_ok x r req (h @ [ENow t, EIssued (UpdateIssuedStatus (marked_sent (snapshot slot) issued t)) (Inr stored)])
      (EPrincipal cfg (CreatePrincipal (display_name_for (ig_namespace (issuing_for r issued iss)) (ig_name (issuing_for r issued iss))
         (ig_identity (issuing_for r issued iss))) (marker_for (issuing_for r issued iss)) True) reply)"
    if "snapshot slot = Installed cfg" for cfg t stored reply
    unfolding create_ok_def
  proof (intro impI exI conjI)
    show "h @ [ENow t, EIssued (UpdateIssuedStatus (marked_sent (snapshot slot) issued t)) (Inr stored)] =
        before_create r req issued slot sa account token t stored"
      by (simp add: h before_create_def)
    show "may_create x r issued sa account" by fact
    show "create_for x r issued slot token
        (EPrincipal cfg (CreatePrincipal (display_name_for (ig_namespace (issuing_for r issued iss)) (ig_name (issuing_for r issued iss))
           (ig_identity (issuing_for r issued iss))) (marker_for (issuing_for r issued iss)) True) reply)"
      using that assms(3,4) by (auto simp: create_for_def issuing_for_def)
  qed
  show ?thesis
  proof (cases "snapshot slot")
    case (Installed cfg)
    then show ?thesis
      using made [unfolded Installed]
      by (auto simp: converge_unsent_def create_service_principal_def adopt_def ends always_then_do
          split: sum.split prod.split)
  next
    case (Unconfigured name ns reason)
    then show ?thesis
      by (auto simp: converge_unsent_def create_service_principal_def ends always_then_do split: sum.split)
  qed
qed

lemma claims_returned:
  assumes "returns (issuer_and_audience x r) es (Inr (iss, aud))"
  shows "\<exists>token claims rest. es = [EFile (ir_token_path r) (Inr token)] \<and> parse_token_claims x token = Inr claims \<and>
    issuer_of claims = Inr iss \<and> tc_audience claims = aud # rest \<and> aud \<noteq> ''''"
proof -
  have "returns (case as of [] \<Rightarrow> Ret (Inl no_audience)
      | audience # _ \<Rightarrow> if audience = '''' then Ret (Inl no_audience) else Ret (Inr (issuer, audience))) es' (Inr (iss, aud)) \<longleftrightarrow>
    es' = [] \<and> issuer = iss \<and> (\<exists>rest. as = aud # rest) \<and> aud \<noteq> ''''" for as es' and issuer :: string
    by (cases as) auto
  with assms show ?thesis
    by (auto simp: issuer_and_audience_def read_token_claims_def returns_branches split: if_splits)
      (metis Inr_inject)
qed

lemma converge_creates:
  assumes h: "h = [EIssued (GetIssued req) (Inr issued), ESlot slot, EServiceAccount (LiveServiceAccount (live_key issued)) (Inr sa),
        EAccount (GetAccount (ir_account r)) account]"
    and may: "service_principal_state (id_status issued) = Unsent \<Longrightarrow> may_create x r issued sa account"
  shows "always (create_ok x r req) (\<lambda>_ _. True) (converge x r (snapshot slot) issued) h"
proof -
  have ready: "always (create_ok x r req) (\<lambda>_ _. True) (report_ready x issued st re m) h'" for st re m h'
    by (intro create_quiet emits_report_ready) simp_all
  have branch: "always (create_ok x r req) (\<lambda>_ _. True)
      (case service_principal_state (id_status issued) of
         Known \<Rightarrow> converge_known x (snapshot slot) issued iss aud
       | Unsent \<Rightarrow> converge_unsent x r (snapshot slot) issued iss aud
       | Sent \<Rightarrow> converge_sent x r (snapshot slot) issued iss aud
       | Gone \<Rightarrow> write_policy x (snapshot slot) issued iss aud) (h @ es)"
    if "returns (issuer_and_audience x r) es (Inr (iss, aud))" for iss aud es
  proof (cases "service_principal_state (id_status issued)")
    case Unsent
    from claims_returned [OF that] obtain token claims where "es = [EFile (ir_token_path r) (Inr token)]"
      "parse_token_claims x token = Inr claims" "issuer_of claims = Inr iss" by blast
    with h may [OF Unsent] show ?thesis
      by (simp add: Unsent) (rule converge_unsent_creates [OF refl], assumption+)
  qed (simp_all,
      (intro create_quiet emits_converge_known emits_converge_sent emits_write_policy emits_calls; simp)+)
  show ?thesis
    unfolding converge_def
    by (auto intro!: create_bind emits_issuer_and_audience ready branch split: sum.split prod.split)
qed

lemma reconcile_creates: "always (create_ok x r req) (\<lambda>_ _. True) (reconcile_issued x r req) []"
proof -
  have quiet: "always (create_ok x r req) (\<lambda>_ _. True) (destroy_record x r clients issued) h"
    "always (create_ok x r req) (\<lambda>_ _. True) (destroy_because_not_served x r issued) h" for clients issued h
    by (intro create_quiet emits_destroy_record emits_destroy_because_not_served emits_calls; simp)+
  have quieter: "always (create_ok x r req) (\<lambda>_ _. True) (delete_record issued) h"
    "always (create_ok x r req) (\<lambda>_ _. True) (add_record_finalizer x issued) h" for issued h
    by (simp_all add: add_record_finalizer_def delete_record_def split: sum.split)
  have converge: "always (create_ok x r req) (\<lambda>_ _. True) (converge x r (snapshot slot) issued)
      (EIssued (GetIssued req) (Inr issued) # ESlot slot # es @ as)"
    if live: "om_deletion_timestamp (id_meta issued) = None" "contains_finalizer (id_meta issued) ServicePrincipalFinalizer"
      and wanted: "returns (still_wanted x r issued) es (Inr True)"
      and served: "returns (databricks_account_serves (ir_account r) (is_namespace (ip_service_account (id_spec issued))))
        as (Inr (declared, s))" "declared \<longrightarrow> s" for issued slot es as declared s
  proof -
    from still_wanted_returns [OF wanted] obtain reply where
      es: "es = [EServiceAccount (LiveServiceAccount (live_key issued)) reply]" "\<not> not_wanted x r issued reply" by auto
    from wanted es obtain sa where sa: "reply = Inr sa"
      by (cases reply) (auto simp: still_wanted_def returns_branches)
    from served obtain account where as: "as = [EAccount (GetAccount (ir_account r)) account]"
      "case account of Inl err \<Rightarrow> is_not_found err | Inr a \<Rightarrow> serves (ac_spec a) (is_namespace (ip_service_account (id_spec issued)))"
      by (cases declared) (auto simp: databricks_account_serves_def returns_branches)
    from es as sa live show ?thesis
      by simp (rule converge_creates [OF refl], simp add: may_create_def)
  qed
  have "always (create_ok x r req) (\<lambda>_ _. True) (reconcile_record x r (snapshot slot) issued)
      [EIssued (GetIssued req) (Inr issued), ESlot slot]" for issued slot
    unfolding reconcile_record_def
    by (auto intro!: create_bind emits_still_wanted emits_account_serves quiet quieter
        split: sum.split bool.split prod.split)
      (rule converge, assumption+, simp)+
  then show ?thesis by (simp add: reconcile_issued_def split: sum.split)
qed

text \<open>C5: A pass creates a service principal only at the end of one exact run of answers: the record was read
  in the state \<open>Unsent\<close>, not on its way out and carrying the finalizer; clients are installed in the
  one slot it looked at; a live read found the same ServiceAccount still asking for this identity;
  the account serves its namespace, or is not there; the token gave the issuer; and the mark that takes
  the record to \<open>Sent\<close> was stored, right before. The create is sent in the account of those clients, under this issuing's
  name and marker, and there is no other in the pass: whatever is answered, and wherever it stops.\<close>
theorem create_only_after_mark:
  assumes "runs (reconcile_issued x r req) (pre @ EPrincipal cfg (CreatePrincipal d m active) reply # post)"
  shows "\<exists>issued slot sa account token claims issuer sent_at stored.
    pre = [EIssued (GetIssued req) (Inr issued), ESlot slot,
      EServiceAccount (LiveServiceAccount (live_key issued)) (Inr sa),
      EAccount (GetAccount (ir_account r)) account, EFile (ir_token_path r) (Inr token), ENow sent_at,
      EIssued (UpdateIssuedStatus (marked_sent (Installed cfg) issued sent_at)) (Inr stored)] \<and>
    snapshot slot = Installed cfg \<and>
    service_principal_state (id_status issued) = Unsent \<and>
    service_principal_state (id_status (marked_sent (Installed cfg) issued sent_at)) = Sent \<and>
    om_deletion_timestamp (id_meta issued) = None \<and>
    contains_finalizer (id_meta issued) ServicePrincipalFinalizer \<and>
    \<not> no_longer_asked (requests_for x (om_annotations (sa_meta sa)) (ir_account r)) (ip_identity (id_spec issued)) \<and>
    om_uid (sa_meta sa) = is_uid (ip_service_account (id_spec issued)) \<and>
    (case account of
       Inl err \<Rightarrow> is_not_found err
     | Inr a \<Rightarrow> serves (ac_spec a) (is_namespace (ip_service_account (id_spec issued)))) \<and>
    parse_token_claims x token = Inr claims \<and> issuer_of claims = Inr issuer \<and>
    d = display_name_for (is_namespace (ip_service_account (id_spec issued)))
      (is_name (ip_service_account (id_spec issued))) (ip_identity (id_spec issued)) \<and>
    m = marker_for (issuing_for r issued issuer) \<and> active \<and> \<not> list_ex is_create (pre @ post)"
proof -
  let ?e = "EPrincipal cfg (CreatePrincipal d m active) reply"
  have ok: "create_ok x r req pre ?e" using always_runs [OF reconcile_creates assms refl] .
  then obtain issued slot sa account token sent_at stored where
    h: "pre = before_create r req issued slot sa account token sent_at stored"
      "may_create x r issued sa account" "create_for x r issued slot token ?e"
    unfolding create_ok_def by auto
  have sent: "service_principal_state (id_status issued) = Unsent \<Longrightarrow>
      service_principal_state (id_status (marked_sent c issued sent_at)) = Sent" for c
    by (simp add: marked_sent_def Let_def service_principal_state_simps)
  have "\<not> list_ex is_create post"
  proof
    assume "list_ex is_create post"
    then obtain e' mid rest where e': "post = mid @ e' # rest" "is_create e'" by (auto simp: list_ex_iff dest: split_list)
    then have "pre @ ?e # post = (pre @ ?e # mid) @ e' # rest" by simp
    from always_runs [OF reconcile_creates assms this] e'(2) have "\<not> list_ex is_create (pre @ ?e # mid)"
      by (rule create_okD)
    then show False by simp
  qed
  with h sent show ?thesis
    by (auto simp: before_create_def may_create_def create_for_def not_wanted_def)
qed

section \<open>Examples\<close>

text \<open>One operator, record, ServiceAccount and account, for witnesses.\<close>

definition ex_operator :: namespaced_name where
  "ex_operator = \<lparr>nn_namespace = ''ops'', nn_name = ''acc''\<rparr>"

definition ex_reconciler :: issued_reconciler where
  "ex_reconciler = \<lparr>ir_account = ex_operator, ir_token_path = ''/token''\<rparr>"

definition ex_meta :: "string \<Rightarrow> string \<Rightarrow> object_meta" where
  "ex_meta namespace name =
     \<lparr>om_namespace = namespace, om_name = name, om_uid = ''u1'', om_resource_version = ''1'', om_generation = 1,
      om_deletion_timestamp = None, om_finalizers = [], om_labels = [], om_annotations = []\<rparr>"

definition ex_service_account :: service_account where
  "ex_service_account =
     \<lparr>sa_meta = (ex_meta ''team-a'' ''etl'')\<lparr>om_annotations := [(ServicePrincipalAnnotation, ''ops/acc'')]\<rparr>\<rparr>"

definition ex_status :: issued_status where
  "ex_status = \<lparr>it_account_id = '''', it_create_sent_at = None, it_service_principal_id = '''', it_client_id = '''',
     it_issuer = '''', it_audience = '''', it_removed_at = None, it_conditions = []\<rparr>"

definition ex_issued :: "issued_status \<Rightarrow> issued" where
  "ex_issued status =
     \<lparr>id_meta = (ex_meta ''ops'' ''team-a.etl-x'')\<lparr>om_finalizers := [ServicePrincipalFinalizer]\<rparr>,
      id_spec = \<lparr>ip_subject = subject_for ''team-a'' ''etl'',
        ip_service_account = \<lparr>is_namespace = ''team-a'', is_name = ''etl'', is_uid = ''u1'', is_namespace_uid = ''n1''\<rparr>,
        ip_identity = ''''\<rparr>,
      id_status = status\<rparr>"

definition ex_config :: config where
  "ex_config = \<lparr>cf_account_host = ''h'', cf_account_id = ''dbx-1'', cf_client_id = ''c'',
     cf_oidc_token_filepath = ''/token'', cf_token_audience = ''a''\<rparr>"

definition ex_slot :: account_in_use where
  "ex_slot = slot_set ex_config (Installed ex_config) (new_account_in_use ''ops'' ''acc'')"

definition ex_account :: account where
  "ex_account =
     \<lparr>ac_meta = ex_meta ''ops'' ''acc'',
      ac_spec = \<lparr>as_host = ''h'', as_account_id = ''dbx-1'', as_client_id = ''c'', as_namespaces = [''team-a'']\<rparr>,
      ac_status = \<lparr>at_subject = '''', at_audience = '''', at_issuer = '''', at_cluster_marker = '''', at_conditions = []\<rparr>\<rparr>"

definition ex_token :: string where "ex_token = ''h.YQ.s''"

lemma ex_token_claims:
  "parse_token_claims ref_extern ex_token = Inr \<lparr>tc_issuer = ''a'', tc_subject = ''a'', tc_audience = [''a'']\<rparr>"
  by code_simp

lemma ex_wanted:
  "no_longer_asked (requests_for ref_extern [(ServicePrincipalAnnotation, ''ops/acc'')] ex_operator) '''' = False"
  by code_simp

lemma ex_issuer: "trim_space ''a'' \<noteq> ''''"
  by code_simp

lemma ex_issued_simps [simp]:
  "id_status (ex_issued status) = status"
  "ip_identity (id_spec (ex_issued status)) = ''''"
  "is_namespace (ip_service_account (id_spec (ex_issued status))) = ''team-a''"
  "is_name (ip_service_account (id_spec (ex_issued status))) = ''etl''"
  "is_uid (ip_service_account (id_spec (ex_issued status))) = ''u1''"
  "om_deletion_timestamp (id_meta (ex_issued status)) = None"
  "contains_finalizer (id_meta (ex_issued status)) ServicePrincipalFinalizer"
  by (simp_all add: ex_issued_def ex_meta_def contains_finalizer_def)

lemma ex_reconciler_simps [simp]:
  "ir_account ex_reconciler = ex_operator" "ir_token_path ex_reconciler = ''/token''"
  by (simp_all add: ex_reconciler_def)

lemma ex_service_account_simps [simp]:
  "om_annotations (sa_meta ex_service_account) = [(ServicePrincipalAnnotation, ''ops/acc'')]"
  "om_uid (sa_meta ex_service_account) = ''u1''"
  by (simp_all add: ex_service_account_def ex_meta_def)

lemma ex_slot_snapshot [simp]: "snapshot ex_slot = Installed ex_config"
  by (simp add: ex_slot_def slot_set_def snapshot_def)

lemma ex_serves [simp]: "serves (ac_spec ex_account) ''team-a''"
  by (simp add: serves_def ex_account_def)

text \<open>The first exchanges of a pass over a record that is wanted and served.\<close>

definition ex_questions :: "issued \<Rightarrow> event list" where
  "ex_questions issued =
     [EIssued (GetIssued (object_key (id_meta issued))) (Inr issued), ESlot ex_slot,
      EServiceAccount (LiveServiceAccount \<lparr>nn_namespace = ''team-a'', nn_name = ''etl''\<rparr>) (Inr ex_service_account),
      EAccount (GetAccount ex_operator) (Inr ex_account)]"

lemma ex_reaches_converge:
  "after (reconcile_issued ref_extern ex_reconciler (object_key (id_meta (ex_issued status))))
     (ex_questions (ex_issued status) @ es) =
   after (converge ref_extern ex_reconciler (Installed ex_config) (ex_issued status)) es"
  by (simp add: ex_questions_def reconcile_issued_def reconcile_record_def still_wanted_def
      databricks_account_serves_def ex_wanted)

lemma ex_reads_token:
  "service_principal_state status \<noteq> Gone \<Longrightarrow>
   feed (converge ref_extern ex_reconciler (Installed ex_config) (ex_issued status)) (EFile ''/token'' (Inr ex_token)) =
   Some (case service_principal_state status of
       Known \<Rightarrow> converge_known ref_extern (Installed ex_config) (ex_issued status) ''a'' ''a''
     | Unsent \<Rightarrow> converge_unsent ref_extern ex_reconciler (Installed ex_config) (ex_issued status) ''a'' ''a''
     | Sent \<Rightarrow> converge_sent ref_extern ex_reconciler (Installed ex_config) (ex_issued status) ''a'' ''a''
     | Gone \<Rightarrow> write_policy ref_extern (Installed ex_config) (ex_issued status) ''a'' ''a'')"
  by (simp add: converge_def issuer_and_audience_def read_token_claims_def ex_token_claims
      issuer_of_def ex_issuer)

lemma ex_creates_stored:
  "runs (reconcile_issued ref_extern ex_reconciler (object_key (id_meta (ex_issued ex_status))))
     ((ex_questions (ex_issued ex_status) @ [EFile ''/token'' (Inr ex_token), ENow 5,
        EIssued (UpdateIssuedStatus (marked_sent (Installed ex_config) (ex_issued ex_status) 5))
          (Inr stored)]) @
      EPrincipal ex_config (CreatePrincipal (display_name_for ''team-a'' ''etl'' '''')
        (marker_for (issuing_for ex_reconciler (ex_issued ex_status) ''a'')) True)
        (Inr \<lparr>pr_id = ''17'', pr_application_id = ''app'', pr_external_id = '''', pr_display_name = ''''\<rparr>) # [])"
proof -
  have u: "service_principal_state ex_status = Unsent" by (simp add: ex_status_def service_principal_state_def)
  then have g: "service_principal_state ex_status \<noteq> Gone" by simp
  show ?thesis
    by (simp add: runs_def ex_reaches_converge ex_reads_token [OF g] u converge_unsent_def create_service_principal_def
        ex_issuer issuing_for_def)
qed

lemmas ex_creates = ex_creates_stored [where stored = "marked_sent (Installed ex_config) (ex_issued ex_status) 5"]

theorem create_only_after_mark_witness:
  "\<not> list_ex is_create ((ex_questions (ex_issued ex_status) @ [EFile ''/token'' (Inr ex_token), ENow 5,
        EIssued (UpdateIssuedStatus (marked_sent (Installed ex_config) (ex_issued ex_status) 5))
          (Inr (marked_sent (Installed ex_config) (ex_issued ex_status) 5))]) @ [])"
  using create_only_after_mark [OF ex_creates] by blast

section \<open>Releasing\<close>

text \<open>An update that takes the record's finalizer away.\<close>

definition is_release :: "event \<Rightarrow> bool" where
  "is_release e = (case e of EIssued (UpdateIssued obj) _ \<Rightarrow> \<not> contains_finalizer (id_meta obj) ServicePrincipalFinalizer
     | _ \<Rightarrow> False)"

lemma is_release_simps [simp]:
  "is_release (EIssued (UpdateIssued obj) r0) \<longleftrightarrow> \<not> contains_finalizer (id_meta obj) ServicePrincipalFinalizer"
  "\<not> is_release (EIssued (GetIssued n0) r1)" "\<not> is_release (EIssued (UpdateIssuedStatus i) r2)"
  "\<not> is_release (EPrincipal cfg q r2')" "\<not> is_release (EAccount q3 r3)" "\<not> is_release (EServiceAccount q4 r4)"
  "\<not> is_release (ENamespace n r5)" "\<not> is_release (EWrite w r6)" "\<not> is_release (EPrincipals cfg f r7)"
  "\<not> is_release (EPolicy cfg q8 r8)" "\<not> is_release (ECall cfg q9 r9)" "\<not> is_release (EFile p r10)"
  "\<not> is_release (ENow t)" "\<not> is_release (ESlot sl)"
  by (simp_all add: is_release_def)

text \<open>Why nothing can be left behind in Databricks by letting \<open>issued\<close> go after the exchanges \<open>h\<close>.\<close>

definition nothing_left :: "issued_reconciler \<Rightarrow> issued \<Rightarrow> clients \<Rightarrow> event list \<Rightarrow> bool" where
  "nothing_left r issued clients h \<longleftrightarrow>
     service_principal_state (id_status issued) \<in> {Unsent, Gone} \<or>
     (\<exists>cfg sp reply. clients = Installed cfg \<and> ECall cfg (DeletePrincipal sp) reply \<in> set h \<and>
        (\<forall>err. reply = Some err \<longrightarrow> kind_of (Some err) = NotFound) \<and>
        (service_principal_state (id_status issued) = Known \<and> sp = it_service_principal_id (id_status issued) \<or>
         service_principal_state (id_status issued) = Sent \<and>
           (\<exists>issuer f listed p. EPrincipals cfg f (Inr listed) \<in> set h \<and>
              carrying listed (marker_for (issuing_for r issued issuer)) = [p] \<and> pr_id p = sp))) \<or>
     (\<exists>cfg f listed p. EPrincipals cfg f (Inr listed) \<in> set h \<and> p \<in> set listed \<and> pr_id p = '''')"

lemma nothing_leftI:
  assumes "clients = Installed cfg" "ECall cfg (DeletePrincipal sp) reply \<in> set h"
    and "\<forall>err. reply = Some err \<longrightarrow> kind_of (Some err) = NotFound"
    and "service_principal_state (id_status issued) = Known \<and> sp = it_service_principal_id (id_status issued) \<or>
      service_principal_state (id_status issued) = Sent \<and>
        (\<exists>issuer f listed p. EPrincipals cfg f (Inr listed) \<in> set h \<and>
           carrying listed (marker_for (issuing_for r issued issuer)) = [p] \<and> pr_id p = sp)"
  shows "nothing_left r issued clients h"
  unfolding nothing_left_def using assms
  by (intro disjI2 [OF disjI1] exI [of _ cfg] exI [of _ sp] exI [of _ reply] conjI)

definition release_ok :: "extern \<Rightarrow> issued_reconciler \<Rightarrow> namespaced_name \<Rightarrow> event list \<Rightarrow> event \<Rightarrow> bool" where
  "release_ok x r req h e \<longleftrightarrow> (is_release e \<longrightarrow>
     (\<exists>issued slot rest. h = EIssued (GetIssued req) (Inr issued) # ESlot slot # rest \<and>
        om_deletion_timestamp (id_meta issued) \<noteq> None \<and>
        contains_finalizer (id_meta issued) ServicePrincipalFinalizer \<and>
        nothing_left r issued (snapshot slot) h))"

lemma release_ok_quiet [simp]: "\<not> is_release e \<Longrightarrow> release_ok x r req h e"
  by (simp add: release_ok_def)

lemmas release_quiet = always_quiet [where K = "\<lambda>e. \<not> is_release e", OF _ release_ok_quiet]
lemmas release_bind = always_bind [where K = "\<lambda>e. \<not> is_release e", OF _ release_ok_quiet]

lemma what_to_delete_decided:
  assumes "returns (what_to_delete x r c issued) es (Inr sp)"
  shows "service_principal_state (id_status issued) \<in> {Unsent, Gone} \<or>
    service_principal_state (id_status issued) = Known \<and> sp = it_service_principal_id (id_status issued) \<or>
    service_principal_state (id_status issued) = Sent \<and>
      (\<exists>cfg issuer f listed p. c = Installed cfg \<and> EPrincipals cfg f (Inr listed) \<in> set es \<and>
         carrying listed (marker_for (issuing_for r issued issuer)) = [p] \<and> pr_id p = sp)"
proof (cases "service_principal_state (id_status issued)")
  case Sent
  with assms obtain issuer cid es1 es2 where
    "returns (find_service_principal x c (issuing_for r issued issuer)) es1 (Inr (Some (sp, cid)))" "set es1 \<subseteq> set es"
    by (auto simp: what_to_delete_def Let_def returns_branches
        split: option.splits prod.splits)
  with Sent find_adopts show ?thesis by blast
qed (use assms in \<open>simp_all add: what_to_delete_def\<close>)

lemma destroy_releases:
  assumes h: "h = EIssued (GetIssued req) (Inr issued) # ESlot slot # rest"
    and "om_deletion_timestamp (id_meta issued) \<noteq> None"
  shows "always (release_ok x r req) (\<lambda>_ _. True) (destroy_record x r (snapshot slot) issued) h"
proof (cases "contains_finalizer (id_meta issued) ServicePrincipalFinalizer")
  case False
  then show ?thesis by (simp add: destroy_record_def)
next
  case True
  have release: "always (release_ok x r req) (\<lambda>_ _. True) (release_record x issued) h'"
    if "h' = EIssued (GetIssued req) (Inr issued) # ESlot slot # rest'"
      "nothing_left r issued (snapshot slot) h'" for h' rest'
    using that assms(2) True by (auto simp: release_record_def release_ok_def)
  have failed: "always (release_ok x r req) (\<lambda>_ _. True) (report_failure x issued out) h'" for out h'
    by (intro release_quiet emits_report_failure) simp_all
  have carried: "carrying listed m = [p] \<Longrightarrow> p \<in> set listed" for listed m p
    by (metis carrying_def filter_is_subset list.set_intros(1) subsetD)
  have empty: "nothing_left r issued (snapshot slot) (h @ es)"
    if dec: "returns (what_to_delete x r (snapshot slot) issued) es (Inr '''')" for es
  proof (cases "service_principal_state (id_status issued) = Sent")
    case True
    with what_to_delete_decided [OF dec] have "\<exists>cfg issuer f listed p. EPrincipals cfg f (Inr listed) \<in> set es \<and>
        carrying listed (marker_for (issuing_for r issued issuer)) = [p] \<and> pr_id p = ''''" by simp blast
    with carried show ?thesis unfolding nothing_left_def set_append by blast
  next
    case False
    with what_to_delete_decided [OF dec] have "service_principal_state (id_status issued) \<in> {Unsent, Gone}"
      by (auto simp: service_principal_state_simps)
    then show ?thesis unfolding nothing_left_def by blast
  qed
  have deleted: "nothing_left r issued (snapshot slot) (h @ es @ ds)"
    if dec: "returns (what_to_delete x r (snapshot slot) issued) es (Inr sp)"
      and del: "returns (delete_service_principal (snapshot slot) sp) ds None" for sp es ds
  proof -
    from delete_confirmed [OF del] obtain cfg reply where d: "snapshot slot = Installed cfg"
      "ECall cfg (DeletePrincipal sp) reply \<in> set (h @ es @ ds)" "\<forall>err. reply = Some err \<longrightarrow> kind_of (Some err) = NotFound"
      by auto
    from what_to_delete_decided [OF dec] show ?thesis
    proof (elim disjE conjE)
      assume s: "service_principal_state (id_status issued) = Sent"
      assume "\<exists>cfg issuer f listed p. snapshot slot = Installed cfg \<and> EPrincipals cfg f (Inr listed) \<in> set es \<and>
          carrying listed (marker_for (issuing_for r issued issuer)) = [p] \<and> pr_id p = sp"
      with d(1) obtain issuer f listed p where "EPrincipals cfg f (Inr listed) \<in> set (h @ es @ ds)"
        "carrying listed (marker_for (issuing_for r issued issuer)) = [p]" "pr_id p = sp" by fastforce
      with d s show ?thesis by (blast intro: nothing_leftI)
    next
      assume "service_principal_state (id_status issued) = Known" "sp = it_service_principal_id (id_status issued)"
      with d show ?thesis by (blast intro: nothing_leftI)
    qed (unfold nothing_left_def, blast)
  qed
  have after_delete: "always (release_ok x r req) (\<lambda>_ _. True)
      (case a of None \<Rightarrow> release_record x issued | Some err \<Rightarrow> report_failure x issued (out err)) (h @ es @ ds)"
    if "returns (what_to_delete x r (snapshot slot) issued) es (Inr sp)"
      and "returns (delete_service_principal (snapshot slot) sp) ds a" for sp es ds a out
    using that deleted by (cases a) (auto intro!: failed release [where rest' = "rest @ es @ ds"] simp: h)
  have released: "always (release_ok x r req) (\<lambda>_ _. True) (release_record x issued) (h @ es)"
    if "returns (what_to_delete x r (snapshot slot) issued) es (Inr '''')" for es
    using empty [OF that] by (auto intro!: release [where rest' = "rest @ es"] simp: h)
  show ?thesis
    unfolding destroy_record_def using True
    by (auto intro!: release_bind emits_what_to_delete emits_calls split: sum.split)
      (rule after_delete, assumption, assumption, rule released, assumption)
qed

lemma reconcile_releases:
  assumes "finalizer_lists (add_finalizer x) (remove_finalizer x)"
  shows "always (release_ok x r req) (\<lambda>_ _. True) (reconcile_issued x r req) []"
proof -
  have add: "always (release_ok x r req) (\<lambda>_ _. True) (add_record_finalizer x issued) h" for issued h
    using finalizer_lists.added [OF assms]
    by (auto intro!: release_ok_quiet simp: add_record_finalizer_def contains_finalizer_def split: sum.split)
  have more: "always (release_ok x r req) (\<lambda>_ _. True) (converge x r c issued) h"
    "always (release_ok x r req) (\<lambda>_ _. True) (destroy_because_not_served x r issued) h" for issued c h
    by (intro release_quiet emits_converge emits_destroy_because_not_served emits_calls; simp)+
  have "always (release_ok x r req) (\<lambda>_ _. True) (delete_record issued) h" for issued h
    by (simp add: delete_record_def)
  note more = more this
  have "always (release_ok x r req) (\<lambda>_ _. True) (reconcile_record x r (snapshot slot) issued)
      [EIssued (GetIssued req) (Inr issued), ESlot slot]" for issued slot
    unfolding reconcile_record_def
    by (auto intro!: release_bind emits_still_wanted emits_account_serves add more destroy_releases
        split: sum.split bool.split prod.split)
  then show ?thesis by (simp add: reconcile_issued_def split: sum.split)
qed

text \<open>The finalizer is taken off a record only when somebody deleted the record and nothing it names
  can be left in Databricks: no create was ever sent for it, or a get already answered that its
  service principal is gone, or the delete of the service principal it names (of the one found
  carrying its marker, where only a create was recorded) was confirmed in the same pass. It is
  never let go on a failed call, on a listing that shows nothing, or on a timeout.\<close>
theorem release_only_when_nothing_left:
  assumes "finalizer_lists (add_finalizer x) (remove_finalizer x)"
    and "runs (reconcile_issued x r req) (pre @ EIssued (UpdateIssued obj) reply # post)"
    and "\<not> contains_finalizer (id_meta obj) ServicePrincipalFinalizer"
    and "\<forall>cfg f listed p. EPrincipals cfg f (Inr listed) \<in> set pre \<and> p \<in> set listed \<longrightarrow> pr_id p \<noteq> ''''"
  shows "\<exists>issued slot rest. pre = EIssued (GetIssued req) (Inr issued) # ESlot slot # rest \<and>
    om_deletion_timestamp (id_meta issued) \<noteq> None \<and>
    (service_principal_state (id_status issued) \<in> {Unsent, Gone} \<or>
     (\<exists>cfg sp reply. snapshot slot = Installed cfg \<and> ECall cfg (DeletePrincipal sp) reply \<in> set pre \<and>
        (\<forall>err. reply = Some err \<longrightarrow> kind_of (Some err) = NotFound) \<and>
        (service_principal_state (id_status issued) = Known \<and> sp = it_service_principal_id (id_status issued) \<or>
         service_principal_state (id_status issued) = Sent \<and>
           (\<exists>issuer f listed p. EPrincipals cfg f (Inr listed) \<in> set pre \<and>
              carrying listed (marker_for (issuing_for r issued issuer)) = [p] \<and> pr_id p = sp))))"
proof -
  have "release_ok x r req pre (EIssued (UpdateIssued obj) reply)"
    using always_runs [OF reconcile_releases [OF assms(1)] assms(2) refl] .
  with assms(3) obtain issued slot rest where
    h: "pre = EIssued (GetIssued req) (Inr issued) # ESlot slot # rest" "om_deletion_timestamp (id_meta issued) \<noteq> None"
      "nothing_left r issued (snapshot slot) pre"
    unfolding release_ok_def by auto
  from h(3) assms(4) show ?thesis
    unfolding nothing_left_def using h(1,2)
    by (intro exI [of _ issued] exI [of _ slot] exI [of _ rest]) blast
qed

definition deleting :: "issued \<Rightarrow> issued" where
  "deleting issued = issued\<lparr>id_meta := id_meta issued\<lparr>om_deletion_timestamp := Some 9\<rparr>\<rparr>"

definition ex_known :: issued_status where
  "ex_known = ex_status\<lparr>it_service_principal_id := ''17'', it_client_id := ''app'', it_create_sent_at := Some 5\<rparr>"

lemma ex_known_state [simp]: "service_principal_state ex_known = Known"
  by (simp add: ex_known_def ex_status_def service_principal_state_def)

lemma ex_known_id [simp]: "it_service_principal_id ex_known = ''17''"
  by (simp add: ex_known_def)

lemma ex_deleting_simps [simp]:
  "om_deletion_timestamp (id_meta (deleting issued)) = Some 9" "id_status (deleting issued) = id_status issued"
  "id_spec (deleting issued) = id_spec issued"
  "contains_finalizer (id_meta (deleting issued)) f = contains_finalizer (id_meta issued) f"
  by (simp_all add: deleting_def contains_finalizer_def)

section \<open>Deleting the record\<close>

text \<open>The reads that say its namespace is out of scope and is this operator's to empty.\<close>

definition not_served :: "issued_reconciler \<Rightarrow> issued \<Rightarrow> event list \<Rightarrow> bool" where
  "not_served r issued h \<longleftrightarrow>
     (\<exists>a reply. EAccount (GetAccount (ir_account r)) (Inr a) \<in> set h \<and>
        \<not> serves (ac_spec a) (is_namespace (ip_service_account (id_spec issued))) \<and>
        ENamespace (is_namespace (ip_service_account (id_spec issued))) reply \<in> set h \<and>
        (case reply of Inl err \<Rightarrow> is_not_found err
         | Inr n \<Rightarrow> destruction_holder_of n = ir_account r))"

definition delete_ok :: "extern \<Rightarrow> issued_reconciler \<Rightarrow> namespaced_name \<Rightarrow> event list \<Rightarrow> event \<Rightarrow> bool" where
  "delete_ok x r req h e \<longleftrightarrow> (\<forall>obj reply. e = EWrite (DeleteIssued obj) reply \<longrightarrow>
     (\<exists>slot reply rest. h = EIssued (GetIssued req) (Inr obj) # ESlot slot #
          EServiceAccount (LiveServiceAccount (live_key obj)) reply # rest \<and>
        om_deletion_timestamp (id_meta obj) = None \<and>
        contains_finalizer (id_meta obj) ServicePrincipalFinalizer \<and>
        (not_wanted x r obj reply \<or> not_served r obj h)))"

definition is_delete :: "event \<Rightarrow> bool" where
  "is_delete e = (case e of EWrite (DeleteIssued _) _ \<Rightarrow> True | _ \<Rightarrow> False)"

lemma is_delete_simps [simp]:
  "is_delete (EWrite (DeleteIssued i) rp)" "\<not> is_delete (EIssued q r2)" "\<not> is_delete (EPrincipal cfg qp r1)"
  "\<not> is_delete (EAccount q3 r3)" "\<not> is_delete (EServiceAccount q4 r4)" "\<not> is_delete (ENamespace n r5)"
  "\<not> is_delete (EPrincipals cfg f r7)" "\<not> is_delete (EPolicy cfg q8 r8)" "\<not> is_delete (ECall cfg q9 r9)"
  "\<not> is_delete (EFile p r10)" "\<not> is_delete (ENow t)" "\<not> is_delete (ESlot sl)"
  by (simp_all add: is_delete_def)

lemma delete_ok_quiet [simp]: "\<not> is_delete e \<Longrightarrow> delete_ok x r req h e"
  by (auto simp: delete_ok_def)

lemmas delete_quiet = always_quiet [where K = "\<lambda>e. \<not> is_delete e", OF _ delete_ok_quiet]
lemmas delete_bind = always_bind [where K = "\<lambda>e. \<not> is_delete e", OF _ delete_ok_quiet]

lemma unserved_deletes:
  assumes h: "h = EIssued (GetIssued req) (Inr issued) # ESlot slot #
      EServiceAccount (LiveServiceAccount (live_key issued)) reply # rest"
    and "om_deletion_timestamp (id_meta issued) = None" "contains_finalizer (id_meta issued) ServicePrincipalFinalizer"
    and "EAccount (GetAccount (ir_account r)) (Inr a) \<in> set h"
    and "\<not> serves (ac_spec a) (is_namespace (ip_service_account (id_spec issued)))"
  shows "always (delete_ok x r req) (\<lambda>_ _. True) (destroy_because_not_served x r issued) h"
proof -
  have ready: "always (delete_ok x r req) (\<lambda>_ _. True) (report_ready x issued st re m) h'" for st re m h'
    by (intro delete_quiet emits_report_ready) simp_all
  have delete: "always (delete_ok x r req) (\<lambda>_ _. True) (delete_record issued) (h @ es)"
    if "returns (destruction_held_by (is_namespace (ip_service_account (id_spec issued)))) es (Inr (holder, there))"
      "\<not> there \<or> holder = ir_account r" for es holder there
  proof -
    from that have "not_served r issued (h @ es)"
      unfolding not_served_def using assms(4,5) held_by_returns [OF that(1)]
      by (intro exI [of _ a]) auto
    with h assms(2,3) show ?thesis by (auto simp: delete_record_def delete_ok_def)
  qed
  show ?thesis
    unfolding destroy_because_not_served_def Let_def
    by (rule delete_bind [OF emits_destruction_held_by])
      (auto intro!: ready intro: delete split: sum.split prod.split)
qed

lemma reconcile_deletes: "always (delete_ok x r req) (\<lambda>_ _. True) (reconcile_issued x r req) []"
proof -
  have quiet: "always (delete_ok x r req) (\<lambda>_ _. True) (converge x r c issued) h"
    "always (delete_ok x r req) (\<lambda>_ _. True) (destroy_record x r c issued) h"
    "always (delete_ok x r req) (\<lambda>_ _. True) (add_record_finalizer x issued) h" for issued c h
    by ((intro delete_quiet emits_converge emits_destroy_record emits_calls; simp)+,
        simp add: add_record_finalizer_def split: sum.split)
  have wanted: "always (delete_ok x r req) (\<lambda>_ _. True)
      (case wanted of
         Inl err \<Rightarrow> Ret (no_result, Some err)
       | Inr False \<Rightarrow> delete_record issued
       | Inr True \<Rightarrow>
           then_do (databricks_account_serves (ir_account r) (is_namespace (ip_service_account (id_spec issued))))
             (\<lambda>reply. (case reply of
                Inl err \<Rightarrow> Ret (no_result, Some err)
              | Inr (declared, served) \<Rightarrow>
                  if declared \<and> \<not> served then destroy_because_not_served x r issued
                  else converge x r (snapshot slot) issued)))
      ([EIssued (GetIssued req) (Inr issued), ESlot slot] @ es)"
    if ret: "returns (still_wanted x r issued) es wanted" and ok: "om_deletion_timestamp (id_meta issued) = None"
      "contains_finalizer (id_meta issued) ServicePrincipalFinalizer" for wanted issued slot es
  proof (cases wanted)
    case (Inr w)
    with ret obtain reply where es: "es = [EServiceAccount (LiveServiceAccount (live_key issued)) reply]"
      "w \<or> not_wanted x r issued reply"
      using still_wanted_returns [of x r issued es w] by auto
    show ?thesis
    proof (cases w)
      case False
      with es ok Inr show ?thesis by (auto simp: delete_record_def delete_ok_def)
    next
      case True
      have unserved: "always (delete_ok x r req) (\<lambda>_ _. True) (destroy_because_not_served x r issued)
          (EIssued (GetIssued req) (Inr issued) # ESlot slot #
             EServiceAccount (LiveServiceAccount (live_key issued)) reply # as)"
        if "returns (databricks_account_serves (ir_account r) (is_namespace (ip_service_account (id_spec issued))))
            as (Inr (True, False))" for as
        using that ok by (auto simp: account_serves_returns intro!: unserved_deletes [OF refl])
      from Inr True show ?thesis
        by (auto intro!: delete_bind emits_account_serves quiet unserved simp: es(1) split: sum.split)
    qed
  qed simp
  have "always (delete_ok x r req) (\<lambda>_ _. True) (reconcile_record x r (snapshot slot) issued)
      [EIssued (GetIssued req) (Inr issued), ESlot slot]" for issued slot
    unfolding reconcile_record_def
    by (auto intro!: delete_bind emits_still_wanted quiet) (rule wanted [simplified], assumption+)
  then show ?thesis by (simp add: reconcile_issued_def split: sum.split)
qed

text \<open>C6: A record is deleted, and with it its identity, only by a pass that read it undeleted and with
  its finalizer, and only for one of two reasons it has read in the same pass: a live read of
  the ServiceAccount (never the cache) showed it gone, no longer asking for this identity, or
  another one of the same name; or the account was read and does not serve the namespace, and
  the namespace is gone or claimed by this operator. An unreadable annotation, an account
  that was not found and every failed read destroy nothing.\<close>
theorem delete_only_when_unwanted:
  assumes "runs (reconcile_issued x r req) (pre @ EWrite (DeleteIssued obj) reply # post)"
  shows "\<exists>slot live rest. pre = EIssued (GetIssued req) (Inr obj) # ESlot slot #
      EServiceAccount (LiveServiceAccount (live_key obj)) live # rest \<and>
    om_deletion_timestamp (id_meta obj) = None \<and>
    contains_finalizer (id_meta obj) ServicePrincipalFinalizer \<and>
    (not_wanted x r obj live \<or> not_served r obj pre)"
proof -
  have "delete_ok x r req pre (EWrite (DeleteIssued obj) reply)"
    using always_runs [OF reconcile_deletes assms refl] .
  then show ?thesis unfolding delete_ok_def by blast
qed

theorem delete_only_when_unwanted_witness:
  "not_wanted ref_extern ex_reconciler (ex_issued ex_known) (Inl (KubeError KubeNotFound ''gone''))"
proof -
  let ?pre = "[EIssued (GetIssued ex_operator) (Inr (ex_issued ex_known)), ESlot ex_slot,
      EServiceAccount (LiveServiceAccount \<lparr>nn_namespace = ''team-a'', nn_name = ''etl''\<rparr>)
        (Inl (KubeError KubeNotFound ''gone''))]"
  have "runs (reconcile_issued ref_extern ex_reconciler ex_operator)
      (?pre @ EWrite (DeleteIssued (ex_issued ex_known)) None # [])"
    by (simp add: runs_def reconcile_issued_def reconcile_record_def still_wanted_def delete_record_def)
  from delete_only_when_unwanted [OF this] show ?thesis by (auto simp: not_served_def)
qed

section \<open>One account to a pass\<close>

lemma runs_reconcile_issued:
  "runs (reconcile_issued x r req) es \<longleftrightarrow>
     es = [] \<or> (\<exists>reply. es = [EIssued (GetIssued req) reply]) \<or>
     (\<exists>issued slot rest. es = EIssued (GetIssued req) (Inr issued) # ESlot slot # rest \<and>
        runs (reconcile_record x r (snapshot slot) issued) rest)"
proof -
  have "runs (reconcile_issued x r req) es \<longleftrightarrow> es = [] \<or>
      (\<exists>err. es = [EIssued (GetIssued req) (Inl err)]) \<or>
      (\<exists>issued. es = [EIssued (GetIssued req) (Inr issued)]) \<or>
      (\<exists>issued slot rest. es = EIssued (GetIssued req) (Inr issued) # ESlot slot # rest \<and>
        runs (reconcile_record x r (snapshot slot) issued) rest)"
    by (simp add: reconcile_issued_def split_sum_ex) blast
  then show ?thesis by (simp add: split_sum_ex)
qed

definition not_slot :: "event \<Rightarrow> bool" where
  "not_slot e = (case e of ESlot _ \<Rightarrow> False | _ \<Rightarrow> True)"

lemma in_snapshot_other [simp]: "event_account e = None \<Longrightarrow> in_snapshot c e"
  by (simp add: in_snapshot_def)

lemma record_in_snapshot: "emits (in_snapshot c) (reconcile_record x r c issued)"
  by (intro emits_reconcile_record emits_destroy_record emits_converge emits_destroy_because_not_served
      find_m.snapshot_confined exists_m.snapshot_confined create_m.snapshot_confined
      ensure_m.snapshot_confined delete_m.snapshot_confined) (simp_all add: in_snapshot_def)

lemma record_reads_no_slot: "emits not_slot (reconcile_record x r c issued)"
  by (intro emits_reconcile_record emits_destroy_record emits_converge emits_destroy_because_not_served emits_calls)
    (simp_all add: not_slot_def)

text \<open>Everything a pass asks of Databricks it asks of one account: the one of the clients it took
  from the slot at the start, which it never reads again, whatever is installed or withdrawn
  meanwhile.\<close>
theorem pass_in_one_account:
  assumes "runs (reconcile_issued x r req) es" "e \<in> set es" "event_account e = Some cfg"
  shows "\<exists>issued slot rest. es = EIssued (GetIssued req) (Inr issued) # ESlot slot # rest \<and>
    snapshot slot = Installed cfg \<and> list_all not_slot rest \<and>
    (\<forall>e' cfg'. e' \<in> set rest \<and> event_account e' = Some cfg' \<longrightarrow> cfg' = cfg)"
proof -
  from assms obtain issued slot rest where es: "es = EIssued (GetIssued req) (Inr issued) # ESlot slot # rest"
    and r: "runs (reconcile_record x r (snapshot slot) issued) rest" and e: "e \<in> set rest"
    by (auto simp: runs_reconcile_issued)
  note within = emits_runs [OF record_in_snapshot r]
  from within [OF e] assms(3) have "snapshot slot = Installed cfg" by (simp add: in_snapshot_def)
  moreover have "list_all not_slot rest"
    using emits_runs [OF record_reads_no_slot r] by (simp add: list_all_iff)
  ultimately show ?thesis using es within by (auto simp: in_snapshot_def)
qed

section \<open>A service principal that is gone, or was never asked for\<close>

text \<open>An exchange outside Databricks that records nothing new about the service principal.\<close>

definition left_alone :: "issued_status \<Rightarrow> event \<Rightarrow> bool" where
  "left_alone status e \<longleftrightarrow> event_account e = None \<and>
     (\<forall>obj reply. e = EIssued (UpdateIssuedStatus obj) reply \<longrightarrow>
        id_status obj = status\<lparr>it_conditions := it_conditions (id_status obj)\<rparr>)"

lemma left_alone_other [simp]:
  "event_account e = None \<Longrightarrow> (\<And>obj reply. e \<noteq> EIssued (UpdateIssuedStatus obj) reply) \<Longrightarrow> left_alone s e"
  by (simp add: left_alone_def)

lemma left_alone_update [simp]:
  "left_alone s (EIssued (UpdateIssuedStatus obj) reply) \<longleftrightarrow>
     id_status obj = s\<lparr>it_conditions := it_conditions (id_status obj)\<rparr>"
  by (simp add: left_alone_def)

lemma nothing_to_ask:
  assumes "service_principal_state (id_status issued) = Gone \<or>
    service_principal_state (id_status issued) = Unsent \<and> om_deletion_timestamp (id_meta issued) \<noteq> None"
  shows "emits (left_alone (id_status issued)) (reconcile_record x r c issued)"
proof -
  have ready: "emits (left_alone (id_status issued)) (report_ready x issued st re m)" for st re m
    by (rule emits_report_ready) simp_all
  have destroy: "emits (left_alone (id_status issued)) (destroy_record x r c issued)"
    if "service_principal_state (id_status issued) = Gone \<or> service_principal_state (id_status issued) = Unsent"
    using that by (auto simp: destroy_record_def what_to_delete_def release_record_def split: sum.split)
  show ?thesis
  proof (cases "om_deletion_timestamp (id_meta issued)")
    case None
    with assms show ?thesis
      by (auto simp: reconcile_record_def converge_def add_record_finalizer_def delete_record_def ready
          intro!: emits_then_do emits_still_wanted emits_account_serves emits_destroy_because_not_served
          split: sum.split bool.split prod.split)
  qed (use assms destroy in \<open>auto simp: reconcile_record_def\<close>)
qed

text \<open>C10: A record whose service principal was once answered to be gone is left alone: no pass over it
  asks Databricks anything, and no status write of it changes more than the conditions, so that
  no identity is made again under grants nobody gave it. The same holds of a record on its way
  out for which no create was sent.\<close>
theorem gone_is_left_alone:
  assumes "runs (reconcile_issued x r req) (EIssued (GetIssued req) (Inr issued) # es)"
    and "service_principal_state (id_status issued) = Gone \<or>
      service_principal_state (id_status issued) = Unsent \<and> om_deletion_timestamp (id_meta issued) \<noteq> None"
    and "e \<in> set es"
  shows "event_account e = None \<and>
    (\<forall>obj reply. e = EIssued (UpdateIssuedStatus obj) reply \<longrightarrow>
       it_removed_at (id_status obj) = it_removed_at (id_status issued) \<and>
       it_service_principal_id (id_status obj) = it_service_principal_id (id_status issued) \<and>
       it_client_id (id_status obj) = it_client_id (id_status issued) \<and>
       it_create_sent_at (id_status obj) = it_create_sent_at (id_status issued) \<and>
       it_account_id (id_status obj) = it_account_id (id_status issued))"
proof -
  from assms(1,3) have "left_alone (id_status issued) e"
    by (auto simp: runs_reconcile_issued emits_runs [OF nothing_to_ask [OF assms(2)]])
  then have "event_account e = None" and
    "e = EIssued (UpdateIssuedStatus obj) reply \<Longrightarrow>
       \<exists>cs. id_status obj = (id_status issued)\<lparr>it_conditions := cs\<rparr>" for obj reply
    unfolding left_alone_def by blast+
  then show ?thesis by fastforce
qed

definition ex_gone :: issued_status where
  "ex_gone = ex_known\<lparr>it_removed_at := Some 7\<rparr>"

lemma ex_gone_state [simp]: "service_principal_state ex_gone = Gone"
  by (simp add: ex_gone_def service_principal_state_def)

theorem gone_is_left_alone_witness:
  "list_all (\<lambda>e. event_account e = None) (tl (ex_questions (ex_issued ex_gone)) @ [ENow 8])"
proof -
  have "runs (reconcile_issued ref_extern ex_reconciler (object_key (id_meta (ex_issued ex_gone))))
      (ex_questions (ex_issued ex_gone) @ [ENow 8])"
    by (simp add: runs_def ex_reaches_converge converge_def report_ready_def set_condition_def)
  then have "runs (reconcile_issued ref_extern ex_reconciler (object_key (id_meta (ex_issued ex_gone))))
      (EIssued (GetIssued (object_key (id_meta (ex_issued ex_gone)))) (Inr (ex_issued ex_gone)) #
       tl (ex_questions (ex_issued ex_gone)) @ [ENow 8])"
    by (simp add: ex_questions_def)
  from gone_is_left_alone [OF this] show ?thesis unfolding list_all_iff by simp
qed

end
