(* ===== verification/IssuedReports.thy ===== *)
theory IssuedReports
  imports IssuedSafety
begin

text \<open>
  What the record controller writes into a record's status: \<open>Ready\<close> is only ever said to be true
  after the federation policy was confirmed in the same pass, and every status written comes from
  a record the API server answered with, at that record's version, and is at least as far along.
\<close>

section \<open>Reporting an exchange\<close>

definition is_status_update :: "event \<Rightarrow> bool" where
  "is_status_update e = (case e of EIssued (UpdateIssuedStatus _) _ \<Rightarrow> True | _ \<Rightarrow> False)"

lemma is_status_update_simps [simp]:
  "is_status_update (EIssued (UpdateIssuedStatus i) r0)"
  "\<not> is_status_update (EIssued (GetIssued n0) r1)" "\<not> is_status_update (EIssued (UpdateIssued i) r2)"
  "\<not> is_status_update (EPrincipal cfg q r2')" "\<not> is_status_update (EAccount q3 r3)" "\<not> is_status_update (EServiceAccount q4 r4)"
  "\<not> is_status_update (ENamespace n r5)" "\<not> is_status_update (EWrite w r6)" "\<not> is_status_update (EPrincipals cfg f r7)"
  "\<not> is_status_update (EPolicy cfg q8 r8)" "\<not> is_status_update (ECall cfg q9 r9)" "\<not> is_status_update (EFile p r10)"
  "\<not> is_status_update (ENow t)" "\<not> is_status_update (ESlot sl)"
  by (simp_all add: is_status_update_def)

text \<open>The record says its identity can be exchanged for.\<close>

definition says_ready :: "extern \<Rightarrow> issued \<Rightarrow> bool" where
  "says_ready x issued \<longleftrightarrow>
     (\<exists>c. find_status_condition x (it_conditions (id_status issued)) conditionReady = Some c \<and> cn_status c = ConditionTrue)"

text \<open>Saying so without naming a service principal, which nothing written here does.\<close>

definition groundless :: "extern \<Rightarrow> issued \<Rightarrow> bool" where
  "groundless x issued \<longleftrightarrow> says_ready x issued \<and> service_principal_state (id_status issued) \<in> {Unsent, Sent}"

text \<open>A pass that was told something else: it read such a record, or a status it wrote was answered with another.\<close>

definition unechoed :: "event list \<Rightarrow> bool" where
  "unechoed h \<longleftrightarrow> (\<exists>obj i. EIssued (UpdateIssuedStatus obj) (Inr i) \<in> set h \<and> id_status i \<noteq> id_status obj)"

lemma unechoed_mono: "unechoed h \<Longrightarrow> set h \<subseteq> set h' \<Longrightarrow> unechoed h'"
  unfolding unechoed_def by blast

lemma unechoed_append [simp]: "unechoed h \<Longrightarrow> unechoed (h @ es)"
  by (erule unechoed_mono) simp

definition misled :: "extern \<Rightarrow> event list \<Rightarrow> bool" where
  "misled x h \<longleftrightarrow>
     (\<exists>n i. EIssued (GetIssued n) (Inr i) \<in> set h \<and> groundless x i) \<or> unechoed h"

lemma misled_append [simp]: "misled x h \<Longrightarrow> misled x (h @ es)"
  unfolding misled_def by (auto intro: unechoed_append)

definition trust_confirmed :: "extern \<Rightarrow> event list \<Rightarrow> issued \<Rightarrow> bool" where
  "trust_confirmed x h issued \<longleftrightarrow>
     (\<exists>pre es now slot. h = pre @ es @ [ENow now] \<and> ESlot slot \<in> set pre \<and>
        returns (ensure_federation_policy x (snapshot slot) (it_service_principal_id (id_status issued))
          (it_issuer (id_status issued)) (ip_subject (id_spec issued)) (it_audience (id_status issued))) es None)"

definition ready_ok :: "extern \<Rightarrow> event list \<Rightarrow> event \<Rightarrow> bool" where
  "ready_ok x h e \<longleftrightarrow> (\<forall>obj reply. e = EIssued (UpdateIssuedStatus obj) reply \<longrightarrow> says_ready x obj \<longrightarrow>
     misled x h \<or> trust_confirmed x h obj)"

lemma ready_ok_quiet [simp]: "\<not> is_status_update e \<Longrightarrow> ready_ok x h e"
  by (auto simp: ready_ok_def)

lemma ready_ok_update [simp]:
  "ready_ok x h (EIssued (UpdateIssuedStatus obj) reply) \<longleftrightarrow>
     (says_ready x obj \<longrightarrow> misled x h \<or> trust_confirmed x h obj)"
  by (simp add: ready_ok_def)

lemmas ready_bind = always_bind [where K = "\<lambda>e. \<not> is_status_update e", OF _ ready_ok_quiet]

abbreviation ready_always :: "extern \<Rightarrow> 'a prog \<Rightarrow> event list \<Rightarrow> bool" where
  "ready_always x p h \<equiv> always (ready_ok x) (\<lambda>_ _. True) p h"

lemma says_ready_set:
  assumes "status_conditions (set_status_condition x) (find_status_condition x)"
  shows "says_ready x (i\<lparr>id_status := s\<lparr>it_conditions := set_status_condition x now cs
      \<lparr>cn_type = conditionReady, cn_status = st, cn_observed_generation = g, cn_last_transition = l,
       cn_reason = re, cn_message = m\<rparr>\<rparr>\<rparr>) \<longleftrightarrow> st = ConditionTrue"
  using status_conditions.find_set_same [OF assms, of now cs
      "\<lparr>cn_type = conditionReady, cn_status = st, cn_observed_generation = g, cn_last_transition = l,
       cn_reason = re, cn_message = m\<rparr>"]
  by (auto simp: says_ready_def)

lemma not_ready_reports:
  assumes "status_conditions (set_status_condition x) (find_status_condition x)" "st \<noteq> ConditionTrue"
  shows "ready_always x (report_ready x i st re m) h"
  using assms(2) by (simp add: report_ready_def set_condition_def says_ready_set [OF assms(1)])

lemma outcome_not_ready [simp]: "oc_status (outcome_for x err) \<noteq> ConditionTrue"
  by (simp add: outcome_for_status)

lemma failure_reports:
  assumes "status_conditions (set_status_condition x) (find_status_condition x)" "oc_status failure \<noteq> ConditionTrue"
  shows "ready_always x (report_failure x i failure) h"
  unfolding report_failure_def always_then_do
  by (rule always_mono [OF not_ready_reports [OF assms]]) (auto split: prod.split option.split)

lemma policy_reports:
  assumes laws: "status_conditions (set_status_condition x) (find_status_condition x)"
    and slot: "ESlot slot \<in> set h" "snapshot slot = c"
  shows "ready_always x (write_policy x c i iss aud) h"
proof -
  let ?i = "i\<lparr>id_status := id_status i\<lparr>it_issuer := iss, it_audience := aud\<rparr>\<rparr>"
  let ?ensure = "ensure_federation_policy x c (it_service_principal_id (id_status i)) iss (ip_subject (id_spec i)) aud"
  have "ready_always x (case failed of Some err \<Rightarrow> report_failure x ?i (outcome_for x err)
      | None \<Rightarrow> report_ready x ?i ConditionTrue reasonExchangeable (exchanging ?i)) (h @ es)"
    if r: "returns ?ensure es failed" for failed es
  proof (cases failed)
    case None
    have "trust_confirmed x (h @ es @ [ENow now])
        (?i\<lparr>id_status := id_status ?i\<lparr>it_conditions := cs\<rparr>\<rparr>)" for now cs
      unfolding trust_confirmed_def using r slot None by (intro exI [of _ h] exI [of _ es] exI [of _ now] exI [of _ slot]) simp
    with None show ?thesis by (simp add: report_ready_def set_condition_def)
  qed (simp add: failure_reports [OF laws])
  then show ?thesis
    unfolding write_policy_def Let_def
    by (intro ready_bind) (simp_all add: emits_calls)
qed

lemma converge_ready:
  assumes laws: "status_conditions (set_status_condition x) (find_status_condition x)"
    and slot: "ESlot slot \<in> set h" "snapshot slot = c" and read: "EIssued (GetIssued n) (Inr issued) \<in> set h"
  shows "ready_always x (converge x r c issued) h"
proof -
  note failed = failure_reports [OF laws] and not_ready = not_ready_reports [OF laws]
  have policy: "ready_always x (write_policy x c i iss aud) (h @ es)" for i iss aud es
    by (rule policy_reports [OF laws, of slot]) (simp_all add: slot)
  have carries: "says_ready x (marked_sent c i t) \<longleftrightarrow> says_ready x i"
    "says_ready x (adopted c i sp cid iss aud) \<longleftrightarrow> says_ready x i" for i t sp cid iss aud
    by (simp_all add: says_ready_def marked_sent_def adopted_def Let_def)
  have unnamed: "misled x h" if "says_ready x issued" "service_principal_state (id_status issued) \<in> {Unsent, Sent}"
    unfolding misled_def groundless_def using read that by blast
  have adopt: "ready_always x (adopt c i sp cid iss aud) (h @ es)" if "says_ready x i \<Longrightarrow> misled x (h @ es)"
    for i sp cid iss aud es
    using that by (auto simp: adopt_def carries)
  have known: "ready_always x (converge_known x c issued iss aud) (h @ es)" for iss aud es
    unfolding converge_known_def Let_def
    by (intro ready_bind [OF emits_service_principal_exists])
      (auto simp: failed not_ready policy split: sum.split bool.split)
  have then_policy: "ready_always x (then_do (adopt c i sp cid iss aud) (\<lambda>stored. case stored of
      Inl err \<Rightarrow> Ret (no_result, Some err) | Inr i' \<Rightarrow> write_policy x c i' iss aud)) (h @ es)"
    if "says_ready x i \<Longrightarrow> misled x (h @ es)" for i sp cid iss aud es
    using adopt [OF that] policy by (auto simp: adopt_def split: sum.split)
  have sent: "ready_always x (converge_sent x r c issued iss aud) (h @ es)"
    if "service_principal_state (id_status issued) = Sent" for iss aud es
    unfolding converge_sent_def Let_def using unnamed that
    by (intro ready_bind [OF emits_find_service_principal])
      (auto simp: failed not_ready intro!: then_policy [where es = "es @ es'" for es', simplified] split: sum.split option.split)
  have unsent: "ready_always x (converge_unsent x r c issued iss aud) (h @ es)"
    if state: "service_principal_state (id_status issued) = Unsent" for iss aud es
  proof -
    have create: "ready_always x (then_do (create_service_principal c i) (\<lambda>made. case made of
        Inl err \<Rightarrow> report_failure x issued' (outcome_for x err)
      | Inr (sp, cid) \<Rightarrow> then_do (adopt c issued' sp cid iss aud) (\<lambda>stored. case stored of
          Inl err \<Rightarrow> Ret (no_result, Some err) | Inr i' \<Rightarrow> write_policy x c i' iss aud))) (h @ es')"
      if "says_ready x issued' \<Longrightarrow> misled x (h @ es')" for i issued' es'
      using that misled_append [of x "h @ es'", simplified]
      by (intro ready_bind [OF emits_create_service_principal])
        (auto simp: failed intro!: then_policy [where es = "es' @ es''" for es'', simplified] split: sum.split prod.split)
    have answer: "misled x (h @ es @ [ENow t, EIssued (UpdateIssuedStatus (marked_sent c issued t)) (Inr issued')])"
      if "says_ready x issued'" for t issued'
    proof (cases "id_status issued' = id_status (marked_sent c issued t)")
      case True
      then have "says_ready x issued" using that carries(1) [of issued t] by (simp add: says_ready_def)
      with unnamed state show ?thesis by simp
    next
      case False
      then show ?thesis unfolding misled_def unechoed_def by auto
    qed
    show ?thesis
      using unnamed state answer by (auto simp: converge_unsent_def carries intro!: create split: sum.split)
  qed
  show ?thesis
    unfolding converge_def
    by (auto intro!: ready_bind [OF emits_issuer_and_audience] not_ready known sent unsent policy
        split: sum.split prod.split record_state.split)
qed

lemma reconcile_ready:
  assumes "status_conditions (set_status_condition x) (find_status_condition x)"
  shows "ready_always x (reconcile_issued x r req) []"
proof -
  note failed = failure_reports [OF assms] and not_ready = not_ready_reports [OF assms]
  have ended: "ready_always x (then_do p (\<lambda>a. Ret (f a))) h" if "ready_always x p h" for p f h
    unfolding always_then_do by (rule always_mono [OF that]) simp_all
  have decided: "ready_always x (what_to_delete x r c issued) h" for c issued h
    unfolding what_to_delete_def Let_def
    by (auto intro!: ready_bind [OF emits_token_issuer] ready_bind [OF emits_find_service_principal] ended failed not_ready
        split: record_state.split sum.split option.split)
  have destroy: "ready_always x (destroy_record x r c issued) h" for c issued h
  proof -
    have "ready_always x (then_do (delete_service_principal c sp) (\<lambda>failed. case failed of
        Some err \<Rightarrow> report_failure x issued ((outcome_for x err)\<lparr>oc_reason := reasonDeleteFailed,
            oc_message := still_there (reason_of (quote x) (Some err))\<rparr>) | None \<Rightarrow> release_record x issued)) h'" for sp h'
      by (intro ready_bind [OF emits_delete_service_principal])
        (auto simp: failed release_record_def split: option.split sum.split)
    moreover have "ready_always x (release_record x issued) h'" for h'
      by (simp add: release_record_def split: sum.split)
    ultimately show ?thesis
      unfolding destroy_record_def
      by (auto simp: always_then_do [of _ _ "what_to_delete x r c issued"] Let_def intro!: always_mono [OF decided] split: sum.split)
  qed
  have unserved: "ready_always x (destroy_because_not_served x r issued) h" for issued h
    unfolding destroy_because_not_served_def Let_def
    by (auto intro!: ready_bind [OF emits_destruction_held_by] not_ready simp: delete_record_def split: sum.split)
  have converge: "ready_always x (converge x r (snapshot slot) issued) (EIssued (GetIssued req) (Inr issued) # ESlot slot # h)"
    for slot issued h
    by (rule converge_ready [OF assms, of slot _ _ req]) simp_all
  have "ready_always x (reconcile_record x r (snapshot slot) issued)
      [EIssued (GetIssued req) (Inr issued), ESlot slot]" for issued slot
    unfolding reconcile_record_def
    by (auto intro!: ready_bind [OF emits_still_wanted] ready_bind [OF emits_account_serves] converge destroy unserved
        simp: add_record_finalizer_def delete_record_def split: sum.split bool.split prod.split)
  then show ?thesis by (simp add: reconcile_issued_def split: sum.split)
qed

definition is_read :: "event \<Rightarrow> bool" where
  "is_read e = (case e of EIssued (GetIssued _) _ \<Rightarrow> True | _ \<Rightarrow> False)"

lemma record_reads_once: "emits (\<lambda>e. \<not> is_read e) (reconcile_record x r c issued)"
  by (intro emits_reconcile_record emits_destroy_record emits_converge emits_destroy_because_not_served emits_calls)
    (simp_all add: is_read_def)

lemma reads_only_req:
  assumes "runs (reconcile_issued x r req) es" "EIssued (GetIssued n) reply \<in> set es"
  shows "n = req"
  using assms emits_runs [OF record_reads_once]
  by (auto simp: runs_reconcile_issued) (fastforce simp: is_read_def)

lemma confirmed_names_one:
  assumes "trust_confirmed x h issued"
  shows "service_principal_state (id_status issued) \<in> {Known, Gone}"
proof -
  from assms obtain c es where
    "returns (ensure_federation_policy x c (it_service_principal_id (id_status issued))
       (it_issuer (id_status issued)) (ip_subject (id_spec issued)) (it_audience (id_status issued))) es None"
    unfolding trust_confirmed_def by blast
  then have "it_service_principal_id (id_status issued) \<noteq> ''''"
    by (auto simp: ensure_federation_policy_def dest: parse_int64_empty split: clients.splits sum.splits)
  then show ?thesis by (auto simp: service_principal_state_def)
qed

text \<open>C9: A status is written that says the identity can be exchanged only when, in the same pass and as the
  last thing asked before it, the trust was confirmed for exactly what that status names: the service
  principal, the issuer, the audience and the subject. So no failure, timeout or partial answer is
  ever reported as ready, and no status is written over one that was ready with anything in it
  changed. Two things are taken of the API server: it answers a status that was written with that
  status, and the record the pass read did not say so without naming a service principal, which no
  status written here ever does.\<close>
theorem ready_only_after_trust:
  assumes "status_conditions (set_status_condition x) (find_status_condition x)"
    and "runs (reconcile_issued x r req) (pre @ EIssued (UpdateIssuedStatus obj) reply # post)"
    and "\<forall>sent i. EIssued (UpdateIssuedStatus sent) (Inr i) \<in> set pre \<longrightarrow> id_status i = id_status sent"
    and "\<forall>i. EIssued (GetIssued req) (Inr i) \<in> set pre \<and> service_principal_state (id_status i) \<in> {Unsent, Sent} \<longrightarrow>
      (\<forall>c. find_status_condition x (it_conditions (id_status i)) conditionReady = Some c \<longrightarrow> cn_status c \<noteq> ConditionTrue)"
    and "find_status_condition x (it_conditions (id_status obj)) conditionReady = Some c" "cn_status c = ConditionTrue"
  shows "(\<exists>before es now slot. pre = before @ es @ [ENow now] \<and> ESlot slot \<in> set before \<and>
       returns (ensure_federation_policy x (snapshot slot) (it_service_principal_id (id_status obj))
         (it_issuer (id_status obj)) (ip_subject (id_spec obj)) (it_audience (id_status obj))) es None) \<and>
    service_principal_state (id_status obj) \<notin> {Unsent, Sent}"
proof -
  have "\<not> misled x pre"
  proof
    assume "misled x pre"
    with assms(3) obtain n i where read: "EIssued (GetIssued n) (Inr i) \<in> set pre" "groundless x i"
      unfolding misled_def unechoed_def by blast
    have "n = req" using read(1) by (intro reads_only_req [OF assms(2), where reply = "Inr i"]) simp
    with read assms(4) show False by (auto simp: groundless_def says_ready_def)
  qed
  moreover have "ready_ok x pre (EIssued (UpdateIssuedStatus obj) reply)"
    using always_runs [OF reconcile_ready [OF assms(1)] assms(2) refl] .
  ultimately have "trust_confirmed x pre obj"
    using assms(5,6) by (auto simp: says_ready_def)
  with confirmed_names_one [OF this] show ?thesis by (auto simp: trust_confirmed_def)
qed

lemma ex_issued_more [simp]:
  "ip_subject (id_spec (ex_issued s)) = subject_for ''team-a'' ''etl''"
  "om_generation (id_meta (ex_issued s)) = 1"
  by (simp_all add: ex_issued_def ex_meta_def)

text \<open>A standing policy that trusts exactly this, and the status that then says so.\<close>

definition ex_standing :: policy where
  "ex_standing = \<lparr>po_id = federation_policy_id_for ''a'' (subject_for ''team-a'' ''etl''), po_description = '''',
     po_oidc = Some \<lparr>oi_issuer = ''a'', oi_subject = subject_for ''team-a'' ''etl'', oi_audiences = [''a'']\<rparr>\<rparr>"

lemma ex_standing_trusts [simp]: "trusts (po_oidc ex_standing) ''a'' (subject_for ''team-a'' ''etl'') ''a''"
  by (simp add: ex_standing_def trusts_def)

definition ex_ready :: issued where
  "ex_ready = (ex_issued ex_known)\<lparr>id_status := ex_known\<lparr>it_issuer := ''a'', it_audience := ''a'',
     it_conditions := [\<lparr>cn_type = conditionReady, cn_status = ConditionTrue, cn_observed_generation = 1,
       cn_last_transition = 8, cn_reason = reasonExchangeable, cn_message = exchanging (ex_issued ex_known)\<rparr>]\<rparr>\<rparr>"

definition ex_confirming :: "event list" where
  "ex_confirming = ex_questions (ex_issued ex_known) @ [EFile ''/token'' (Inr ex_token),
     EPrincipal ex_config (GetPrincipal ''17'') (Inr \<lparr>pr_id = ''17'', pr_application_id = ''app'', pr_external_id = '''',
       pr_display_name = ''''\<rparr>),
     EPolicy ex_config (GetPolicy 17 (federation_policy_id_for ''a'' (subject_for ''team-a'' ''etl''))) (Inr ex_standing),
     ENow 8]"

lemma ex_confirms:
  "runs (reconcile_issued ref_extern ex_reconciler (object_key (id_meta (ex_issued ex_known))))
     (ex_confirming @ EIssued (UpdateIssuedStatus ex_ready) (Inr ex_ready) # [])"
proof -
  have g: "service_principal_state ex_known \<noteq> Gone" by simp
  have c: "it_conditions ex_known = []" by (simp add: ex_known_def ex_status_def)
  have e: "exchanging ((ex_issued ex_known)\<lparr>id_status := ex_known\<lparr>it_issuer := ''a'', it_audience := ''a''\<rparr>\<rparr>) =
      exchanging (ex_issued ex_known)" by (simp add: exchanging_def)
  show ?thesis
    by (simp add: ex_confirming_def runs_def ex_reaches_converge ex_reads_token [OF g] converge_known_def
        service_principal_exists_def write_policy_def ensure_federation_policy_def parse_int64_17 report_ready_def
        set_condition_def c e ex_ready_def Let_def)
qed

theorem ready_only_after_trust_witness:
  "\<exists>before es now slot. ex_confirming = before @ es @ [ENow now] \<and> ESlot slot \<in> set before \<and>
     returns (ensure_federation_policy ref_extern (snapshot slot) ''17'' ''a'' (subject_for ''team-a'' ''etl'') ''a'') es None"
proof -
  have f: "find_status_condition ref_extern (it_conditions (id_status ex_ready)) conditionReady =
      Some \<lparr>cn_type = conditionReady, cn_status = ConditionTrue, cn_observed_generation = 1,
        cn_last_transition = 8, cn_reason = reasonExchangeable, cn_message = exchanging (ex_issued ex_known)\<rparr>"
    by (simp add: ex_ready_def ref_find_condition_def)
  have echo: "\<forall>sent i. EIssued (UpdateIssuedStatus sent) (Inr i) \<in> set ex_confirming \<longrightarrow> id_status i = id_status sent"
    by (simp add: ex_confirming_def ex_questions_def)
  have read: "\<forall>i. EIssued (GetIssued (object_key (id_meta (ex_issued ex_known)))) (Inr i) \<in> set ex_confirming \<and>
      service_principal_state (id_status i) \<in> {Unsent, Sent} \<longrightarrow>
      (\<forall>c. find_status_condition ref_extern (it_conditions (id_status i)) conditionReady = Some c \<longrightarrow> cn_status c \<noteq> ConditionTrue)"
    by (simp add: ex_confirming_def ex_questions_def)
  have "status_conditions (set_status_condition ref_extern) (find_status_condition ref_extern)"
    using ref_conditions.status_conditions_axioms by simp
  from conjunct1 [OF ready_only_after_trust [OF this ex_confirms echo read f]] show ?thesis
    by (simp add: ex_ready_def)
qed

section \<open>A pass with no account to create in\<close>

lemma sent_never_creates:
  assumes "runs (reconcile_issued x r req) (EIssued (GetIssued req) (Inr issued) # es)"
    and "service_principal_state (id_status issued) \<noteq> Unsent" "e \<in> set es"
  shows "\<not> is_create e"
proof
  assume e: "is_create e"
  from assms(3) obtain pre post where "es = pre @ e # post" by (auto dest: split_list)
  then have "EIssued (GetIssued req) (Inr issued) # es = (EIssued (GetIssued req) (Inr issued) # pre) @ e # post" by simp
  from always_runs [OF reconcile_creates assms(1) this] e obtain issued' slot rest where
    "EIssued (GetIssued req) (Inr issued) # pre = EIssued (GetIssued req) (Inr issued') # ESlot slot # rest"
    "service_principal_state (id_status issued') = Unsent" by (rule create_okD)
  with assms(2) show False by simp
qed

text \<open>Every status that is written keeps the time a create was sent at.\<close>

definition keeps_mark :: "time option \<Rightarrow> event \<Rightarrow> bool" where
  "keeps_mark sent_at e \<longleftrightarrow> (\<forall>obj reply. e = EIssued (UpdateIssuedStatus obj) reply \<longrightarrow> it_create_sent_at (id_status obj) = sent_at)"

lemma keeps_mark_quiet [simp]: "\<not> is_status_update e \<Longrightarrow> keeps_mark t e"
  by (auto simp: keeps_mark_def)

lemma keeps_mark_update [simp]:
  "keeps_mark t (EIssued (UpdateIssuedStatus obj) reply) \<longleftrightarrow> it_create_sent_at (id_status obj) = t"
  by (simp add: keeps_mark_def)

definition mark_kept :: "time option \<Rightarrow> event list \<Rightarrow> event \<Rightarrow> bool" where
  "mark_kept t h e \<longleftrightarrow> keeps_mark t e \<or> unechoed h"

lemma mark_kept_quiet [simp]: "keeps_mark t e \<Longrightarrow> mark_kept t h e"
  by (simp add: mark_kept_def)

lemmas mark_bind = always_bind [where K = "keeps_mark t" for t, OF _ mark_kept_quiet]
lemmas mark_quiet = always_quiet [where K = "keeps_mark t" for t, OF _ mark_kept_quiet]

lemma unechoed_always:
  assumes "unechoed h"
  shows "always (mark_kept t) (\<lambda>_ _. True) p h"
proof -
  have "always (\<lambda>h' e. \<exists>es. h' = h @ es) (\<lambda>_ _. True) p h" by (rule always_later) simp
  then show ?thesis by (rule always_mono) (use assms in \<open>auto simp: mark_kept_def\<close>)
qed

lemma keeps_reports:
  assumes "it_create_sent_at (id_status i) = t"
  shows "emits (keeps_mark t) (report_ready x i st re m)" "emits (keeps_mark t) (report_failure x i out)"
  by (rule emits_report_ready emits_report_failure; simp add: assms)+

lemma keeps_policy: "it_create_sent_at (id_status i) = t \<Longrightarrow> emits (keeps_mark t) (write_policy x c i iss aud)"
  unfolding write_policy_def Let_def
  by (auto intro!: emits_then_do emits_calls keeps_reports split: option.split)

lemma keeps_known: "it_create_sent_at (id_status i) = t \<Longrightarrow> emits (keeps_mark t) (converge_known x c i iss aud)"
  unfolding converge_known_def Let_def
  by (auto intro!: emits_then_do emits_calls keeps_reports keeps_policy split: sum.split bool.split)

lemma keeps_destroy: "it_create_sent_at (id_status i) = t \<Longrightarrow> emits (keeps_mark t) (destroy_record x r c i)"
  unfolding destroy_record_def what_to_delete_def release_record_def Let_def
  by (auto intro!: emits_then_do emits_calls emits_token_issuer keeps_reports split: record_state.split sum.split option.split)

lemma kept_sent:
  assumes "it_create_sent_at (id_status i) = t"
  shows "always (mark_kept t) (\<lambda>_ _. True) (converge_sent x r c i iss aud) h"
proof -
  have policy: "always (mark_kept t) (\<lambda>_ _. True) (write_policy x c i' iss aud)
      (h' @ [EIssued (UpdateIssuedStatus (adopted c i sp cid iss aud)) (Inr i')])" for i' h' sp cid
  proof (cases "id_status i' = id_status (adopted c i sp cid iss aud)")
    case True
    then have "it_create_sent_at (id_status i') = t" by (simp add: adopted_def Let_def assms)
    then show ?thesis by (intro mark_quiet keeps_policy)
  next
    case False
    then have "unechoed (h' @ [EIssued (UpdateIssuedStatus (adopted c i sp cid iss aud)) (Inr i')])"
      unfolding unechoed_def by auto
    then show ?thesis by (rule unechoed_always)
  qed
  have "always (mark_kept t) (\<lambda>_ _. True) (then_do (adopt c i sp cid iss aud) (\<lambda>stored. case stored of
      Inl err \<Rightarrow> Ret (no_result, Some err) | Inr i' \<Rightarrow> write_policy x c i' iss aud)) h'" for sp cid h'
    using policy by (auto simp: adopt_def adopted_def Let_def assms split: sum.split)
  then show ?thesis
    unfolding converge_sent_def Let_def
    by (intro mark_bind [OF emits_find_service_principal])
      (auto intro!: mark_quiet keeps_reports assms split: sum.split option.split)
qed

lemma kept_record:
  assumes sent: "it_create_sent_at (id_status i) = t" and state: "service_principal_state (id_status i) \<noteq> Unsent"
  shows "always (mark_kept t) (\<lambda>_ _. True) (reconcile_record x r c i) h"
proof -
  note quiet = mark_quiet [OF keeps_reports(1) [OF sent]] mark_quiet [OF keeps_known [OF sent]] mark_quiet [OF keeps_policy [OF sent]]
  have converge: "always (mark_kept t) (\<lambda>_ _. True) (converge x r c i) h'" for h'
    unfolding converge_def using state
    by (auto intro!: mark_bind [OF emits_issuer_and_audience] kept_sent [OF sent] quiet
        split: sum.split prod.split record_state.split)
  have unserved: "emits (keeps_mark t) (destroy_because_not_served x r i)"
    by (rule emits_destroy_because_not_served) (simp_all add: sent)
  show ?thesis
    unfolding reconcile_record_def
    by (auto intro!: mark_bind [OF emits_still_wanted] mark_bind [OF emits_account_serves] converge mark_quiet [OF unserved]
        mark_quiet [OF keeps_destroy [OF sent]] simp: add_record_finalizer_def delete_record_def split: sum.split bool.split prod.split)
qed

lemma mark_never_undone:
  assumes "runs (reconcile_issued x r req) (EIssued (GetIssued req) (Inr i) # es)"
    and "it_create_sent_at (id_status i) = Some t"
    and "\<not> unechoed es" "EIssued (UpdateIssuedStatus obj) reply \<in> set es"
  shows "it_create_sent_at (id_status obj) = Some t"
proof -
  from assms(1,4) obtain slot rest where es: "es = ESlot slot # rest" and rest: "runs (reconcile_record x r (snapshot slot) i) rest"
    by (auto simp: runs_reconcile_issued)
  with assms(4) obtain pre post where split: "rest = pre @ EIssued (UpdateIssuedStatus obj) reply # post"
    by (auto dest: split_list)
  have "service_principal_state (id_status i) \<noteq> Unsent" using assms(2) by (simp add: service_principal_state_simps)
  from always_runs [OF kept_record [OF assms(2) this, where h = "[]"] rest split]
  have "mark_kept (Some t) pre (EIssued (UpdateIssuedStatus obj) reply)" .
  moreover have "\<not> unechoed pre" using assms(3) by (auto simp: es split unechoed_def)
  ultimately show ?thesis by (simp add: mark_kept_def)
qed

text \<open>What a pass over a wanted record is told before it comes to create.\<close>

definition told :: "issued_reconciler \<Rightarrow> namespaced_name \<Rightarrow> issued \<Rightarrow> account_in_use \<Rightarrow> service_account \<Rightarrow> account \<Rightarrow> string \<Rightarrow> event list" where
  "told r req issued slot sa a token =
     [EIssued (GetIssued req) (Inr issued), ESlot slot, EServiceAccount (LiveServiceAccount (live_key issued)) (Inr sa),
      EAccount (GetAccount (ir_account r)) (Inr a), EFile (ir_token_path r) (Inr token)]"

lemma told_reaches:
  assumes "may_create x r issued sa (Inr a)" "ir_token_path r \<noteq> ''''"
    and "parse_token_claims x token = Inr claims" "issuer_of claims = Inr issuer"
    and "tc_audience claims = audience # rest" "audience \<noteq> ''''"
  shows "after (reconcile_issued x r req) (told r req issued slot sa a token @ es) =
    after (converge_unsent x r (snapshot slot) issued issuer audience) es"
  using assms
  by (simp add: told_def may_create_def not_wanted_def live_key_def reconcile_issued_def reconcile_record_def still_wanted_def
      databricks_account_serves_def converge_def issuer_and_audience_def read_token_claims_def)

text \<open>C11: Where no account is installed, a pass over a record that is wanted, served and in the state \<open>Unsent\<close>
  marks it as one a create was sent for: every such pass, as the next thing it writes; and it asks
  Databricks nothing, before or after. The mark is not undone: while the API server keeps the status
  it is given, no pass over a record that says what the marked one says, in whichever account and
  whatever it is answered, ever creates for it or writes another time of sending, so the record
  waits for a create that was never sent.\<close>
theorem marked_without_an_account:
  assumes "au_clients slot = None"
    and "om_deletion_timestamp (id_meta issued) = None" "contains_finalizer (id_meta issued) ServicePrincipalFinalizer"
    and "service_principal_state (id_status issued) = Unsent"
    and "\<not> no_longer_asked (requests_for x (om_annotations (sa_meta sa)) (ir_account r)) (ip_identity (id_spec issued))"
    and "om_uid (sa_meta sa) = is_uid (ip_service_account (id_spec issued))"
    and "serves (ac_spec a) (is_namespace (ip_service_account (id_spec issued)))" and "ir_token_path r \<noteq> ''''"
    and "parse_token_claims x token = Inr claims" "issuer_of claims = Inr issuer"
    and "tc_audience claims = audience # rest" "audience \<noteq> ''''"
  shows "let pass = reconcile_issued x r req; asked = told r req issued slot sa a token;
      mark = (\<lambda>t. marked_sent (snapshot slot) issued t)
    in (\<forall>t stored. runs pass (asked @ [ENow t, EIssued (UpdateIssuedStatus (mark t)) stored])) \<and>
      (\<forall>es. runs pass (asked @ es) \<longrightarrow> list_all (\<lambda>e. event_account e = None) es \<and>
         (\<forall>e1 e2 later. es = e1 # e2 # later \<longrightarrow> (\<exists>t stored. e1 = ENow t \<and> e2 = EIssued (UpdateIssuedStatus (mark t)) stored))) \<and>
      (\<forall>t r' req' i later. id_status i = id_status (mark t) \<and>
         runs (reconcile_issued x r' req') (EIssued (GetIssued req') (Inr i) # later) \<longrightarrow>
         \<not> list_ex is_create later \<and>
         ((\<forall>sent j. EIssued (UpdateIssuedStatus sent) (Inr j) \<in> set later \<longrightarrow> id_status j = id_status sent) \<longrightarrow>
            (\<forall>obj reply. EIssued (UpdateIssuedStatus obj) reply \<in> set later \<longrightarrow>
               it_create_sent_at (id_status obj) = Some t \<and> service_principal_state (id_status obj) \<noteq> Unsent)))"
proof -
  have may: "may_create x r issued sa (Inr a)" using assms(2-7) by (simp add: may_create_def not_wanted_def)
  note reaches = told_reaches [OF may assms(8-12), of req slot]
  have unconfigured: "snapshot slot = Unconfigured (au_name slot) (au_namespace slot) (au_reason slot)"
    using assms(1) by (simp add: snapshot_def)
  have pass: "runs (reconcile_issued x r req) (told r req issued slot sa a token @ es) \<longleftrightarrow>
      runs (converge_unsent x r (snapshot slot) issued issuer audience) es" for es
    by (simp add: runs_def reaches)
  have marks: "runs (reconcile_issued x r req) (told r req issued slot sa a token @
      [ENow t, EIssued (UpdateIssuedStatus (marked_sent (snapshot slot) issued t)) stored])" for t stored
    unfolding pass by (cases stored) (simp_all add: converge_unsent_def runs_def)
  have silent: "list_all (\<lambda>e. event_account e = None) es"
    and marks_next: "es = e1 # e2 # later \<Longrightarrow>
      \<exists>t stored. e1 = ENow t \<and> e2 = EIssued (UpdateIssuedStatus (marked_sent (snapshot slot) issued t)) stored"
    if run: "runs (reconcile_issued x r req) (told r req issued slot sa a token @ es)" for es e1 e2 later
  proof -
    from run have "runs (reconcile_record x r (snapshot slot) issued) (drop 2 (told r req issued slot sa a token) @ es)"
      by (simp add: told_def runs_reconcile_issued)
    from emits_runs [OF record_in_snapshot this] show "list_all (\<lambda>e. event_account e = None) es"
      by (fastforce simp: list_all_iff in_snapshot_def unconfigured)
    show "\<exists>t stored. e1 = ENow t \<and> e2 = EIssued (UpdateIssuedStatus (marked_sent (snapshot slot) issued t)) stored"
      if "es = e1 # e2 # later"
      using run that unfolding pass by (auto simp: converge_unsent_def runs_now)
  qed
  have sent: "service_principal_state s \<noteq> Unsent" if "it_create_sent_at s = Some t" for s t
    using that by (simp add: service_principal_state_simps)
  have kept: "\<not> list_ex is_create later \<and>
      ((\<forall>sent j. EIssued (UpdateIssuedStatus sent) (Inr j) \<in> set later \<longrightarrow> id_status j = id_status sent) \<longrightarrow>
         (\<forall>obj reply. EIssued (UpdateIssuedStatus obj) reply \<in> set later \<longrightarrow>
            it_create_sent_at (id_status obj) = Some t \<and> service_principal_state (id_status obj) \<noteq> Unsent))"
    if i: "id_status i = id_status (marked_sent (snapshot slot) issued t)"
      and run: "runs (reconcile_issued x r' req') (EIssued (GetIssued req') (Inr i) # later)" for t r' req' i later
  proof -
    have t: "it_create_sent_at (id_status i) = Some t" by (simp add: i marked_sent_def Let_def)
    have "\<not> list_ex is_create later"
      using sent_never_creates [OF run sent [OF t]] by (auto simp: list_ex_iff)
    moreover have "it_create_sent_at (id_status obj) = Some t"
      if "\<forall>sent j. EIssued (UpdateIssuedStatus sent) (Inr j) \<in> set later \<longrightarrow> id_status j = id_status sent"
        "EIssued (UpdateIssuedStatus obj) reply \<in> set later" for obj reply
      by (rule mark_never_undone [OF run t _ that(2)]) (use that(1) in \<open>auto simp: unechoed_def\<close>)
    ultimately show ?thesis using sent by blast
  qed
  show ?thesis
    unfolding Let_def
  proof (intro conjI)
    show "\<forall>t stored. runs (reconcile_issued x r req) (told r req issued slot sa a token @
        [ENow t, EIssued (UpdateIssuedStatus (marked_sent (snapshot slot) issued t)) stored])"
      by (intro allI marks)
    show "\<forall>es. runs (reconcile_issued x r req) (told r req issued slot sa a token @ es) \<longrightarrow>
        list_all (\<lambda>e. event_account e = None) es \<and>
        (\<forall>e1 e2 later. es = e1 # e2 # later \<longrightarrow>
           (\<exists>t stored. e1 = ENow t \<and> e2 = EIssued (UpdateIssuedStatus (marked_sent (snapshot slot) issued t)) stored))"
      by (intro allI impI conjI silent marks_next)
  qed (intro allI impI, elim conjE, rule kept)
qed

definition ex_empty_slot :: account_in_use where
  "ex_empty_slot = new_account_in_use ''ops'' ''acc''"

theorem marked_without_an_account_witness:
  "runs (reconcile_issued ref_extern ex_reconciler ex_operator)
     (told ex_reconciler ex_operator (ex_issued ex_status) ex_empty_slot ex_service_account ex_account ex_token @
      [ENow 5, EIssued (UpdateIssuedStatus (marked_sent (snapshot ex_empty_slot) (ex_issued ex_status) 5))
         (Inr (marked_sent (snapshot ex_empty_slot) (ex_issued ex_status) 5))])"
proof -
  have slot: "au_clients ex_empty_slot = None" by (simp add: ex_empty_slot_def new_account_in_use_def)
  have state: "service_principal_state (id_status (ex_issued ex_status)) = Unsent"
    by (simp add: ex_status_def service_principal_state_def)
  have asked: "\<not> no_longer_asked (requests_for ref_extern (om_annotations (sa_meta ex_service_account)) (ir_account ex_reconciler))
      (ip_identity (id_spec (ex_issued ex_status)))" by (simp add: ex_wanted)
  have issuer: "issuer_of \<lparr>tc_issuer = ''a'', tc_subject = ''a'', tc_audience = [''a'']\<rparr> = Inr ''a''"
    by (simp add: issuer_of_def ex_issuer)
  show ?thesis
    using marked_without_an_account [OF slot _ _ state asked _ _ _ ex_token_claims issuer, of ex_account "''a''" "[]" ex_operator]
    by (simp add: Let_def)
qed

end
