(* ===== verification/Progress.thy ===== *)
theory Progress
  imports Effects
begin

text \<open>
  Passes that are answered. \<open>env w e w'\<close> is a world that takes part in the exchange \<open>e\<close> and is \<open>w'\<close>
  after it; \<open>ensures env Q p w\<close> is a total-correctness logic over it: every request of \<open>p\<close>, begun in
  \<open>w\<close>, has an answer, and whichever answers are given, \<open>Q\<close> holds of the result and the world the
  pass ends in. Where \<open>always\<close> says what no pass does, \<open>ensures\<close> says what every pass gets done.
\<close>

definition demands ::
  "('w \<Rightarrow> event \<Rightarrow> 'w \<Rightarrow> bool) \<Rightarrow> ('r \<Rightarrow> event) \<Rightarrow> ('r \<Rightarrow> 'w \<Rightarrow> bool) \<Rightarrow> 'w \<Rightarrow> bool" where
  "demands env e K w \<longleftrightarrow> (\<exists>r w'. env w (e r) w') \<and> (\<forall>r w'. env w (e r) w' \<longrightarrow> K r w')"

primrec ensures :: "('w \<Rightarrow> event \<Rightarrow> 'w \<Rightarrow> bool) \<Rightarrow> ('a \<Rightarrow> 'w \<Rightarrow> bool) \<Rightarrow> 'a prog \<Rightarrow> 'w \<Rightarrow> bool" where
  "ensures env Q (Ret a) = Q a"
| "ensures env Q (AskIssued q k) = demands env (EIssued q) (\<lambda>r. ensures env Q (k r))"
| "ensures env Q (AskIssuedList q k) = demands env (EIssuedList q) (\<lambda>r. ensures env Q (k r))"
| "ensures env Q (AskAccount q k) = demands env (EAccount q) (\<lambda>r. ensures env Q (k r))"
| "ensures env Q (AskServiceAccount q k) = demands env (EServiceAccount q) (\<lambda>r. ensures env Q (k r))"
| "ensures env Q (AskServiceAccounts q k) = demands env (EServiceAccounts q) (\<lambda>r. ensures env Q (k r))"
| "ensures env Q (AskNamespace q k) = demands env (ENamespace q) (\<lambda>r. ensures env Q (k r))"
| "ensures env Q (AskNamespaces q k) = demands env (ENamespaces q) (\<lambda>r. ensures env Q (k r))"
| "ensures env Q (AskIdentities q k) = demands env (EIdentities q) (\<lambda>r. ensures env Q (k r))"
| "ensures env Q (AskPods q k) = demands env (EPods q) (\<lambda>r. ensures env Q (k r))"
| "ensures env Q (AskWrite q k) = demands env (EWrite q) (\<lambda>r. ensures env Q (k r))"
| "ensures env Q (AskPrincipal c q k) = demands env (EPrincipal c q) (\<lambda>r. ensures env Q (k r))"
| "ensures env Q (AskPrincipals c q k) = demands env (EPrincipals c q) (\<lambda>r. ensures env Q (k r))"
| "ensures env Q (AskPolicy c q k) = demands env (EPolicy c q) (\<lambda>r. ensures env Q (k r))"
| "ensures env Q (AskPolicies c q k) = demands env (EPolicies c q) (\<lambda>r. ensures env Q (k r))"
| "ensures env Q (AskCall c q k) = demands env (ECall c q) (\<lambda>r. ensures env Q (k r))"
| "ensures env Q (AskClient q k) = demands env (EClient q) (\<lambda>r. ensures env Q (k r))"
| "ensures env Q (AskFile q k) = demands env (EFile q) (\<lambda>r. ensures env Q (k r))"
| "ensures env Q (AskNow k) = demands env ENow (\<lambda>r. ensures env Q (k r))"
| "ensures env Q (AskSlot k) = demands env ESlot (\<lambda>r. ensures env Q (k r))"
| "ensures env Q (PutSlot v p) = demands env (\<lambda>done :: unit. EPut v) (\<lambda>done. ensures env Q p)"

lemma demands_mono: "demands env e K w \<Longrightarrow> (\<And>r w'. K r w' \<Longrightarrow> K' r w') \<Longrightarrow> demands env e K' w"
  by (auto simp: demands_def)

lemma demands_step: "demands env e K w \<Longrightarrow> env w (e r) w' \<Longrightarrow> K r w'"
  by (simp add: demands_def)

lemma ensures_then_do: "ensures env Q (then_do p f) = ensures env (\<lambda>a. ensures env Q (f a)) p"
  by (induction p) simp_all

lemma ensures_mono: "ensures env Q p w \<Longrightarrow> (\<And>a w'. Q a w' \<Longrightarrow> Q' a w') \<Longrightarrow> ensures env Q' p w"
  by (induction p arbitrary: w) (simp, (simp only: ensures.simps, erule demands_mono, blast)+)

lemma ensures_bind:
  "ensures env P p w \<Longrightarrow> (\<And>a w'. P a w' \<Longrightarrow> ensures env Q (f a) w') \<Longrightarrow> ensures env Q (then_do p f) w"
  unfolding ensures_then_do by (rule ensures_mono)

section \<open>Runs in a world\<close>

primrec traced :: "('w \<Rightarrow> event \<Rightarrow> 'w \<Rightarrow> bool) \<Rightarrow> 'w \<Rightarrow> event list \<Rightarrow> 'w \<Rightarrow> bool" where
  "traced env w [] w' \<longleftrightarrow> w' = w"
| "traced env w (e # es) w' \<longleftrightarrow> (\<exists>w1. env w e w1 \<and> traced env w1 es w')"

lemma ensures_feed:
  "ensures env Q p w \<Longrightarrow> feed p e = Some p' \<Longrightarrow> env w e w' \<Longrightarrow> ensures env Q p' w'"
  by (cases p) (auto split: event.splits if_splits dest: demands_step)

lemma ensures_after:
  "ensures env Q p w \<Longrightarrow> after p es = Some p' \<Longrightarrow> traced env w es w' \<Longrightarrow> ensures env Q p' w'"
  by (induction es arbitrary: p w) (auto split: option.splits dest: ensures_feed)

text \<open>A request that has an answer is one the pass goes on from.\<close>

lemma answered_feeds:
  "ensures env Q p w \<Longrightarrow> (\<exists>a. p = Ret a) \<or> (\<exists>e w' p'. env w e w' \<and> feed p e = Some p')"
  by (cases p) (fastforce simp: demands_def)+

lemma completes_step:
  assumes "demands env e (\<lambda>r. ensures env Q (k r)) w"
    and "\<And>r w. ensures env Q (k r) w \<Longrightarrow> \<exists>es a w'. returns (k r) es a \<and> traced env w es w'"
    and "\<And>r es a. returns (k r) es a \<Longrightarrow> returns p (e r # es) a"
  shows "\<exists>es a w'. returns p es a \<and> traced env w es w'"
proof -
  from assms(1) obtain r w1 where w1: "env w (e r) w1" "ensures env Q (k r) w1" by (auto simp: demands_def)
  from assms(2) [OF w1(2)] obtain es a w' where "returns (k r) es a" "traced env w1 es w'" by blast
  with w1(1) assms(3) have "returns p (e r # es) a" "traced env w (e r # es) w'" by auto
  then show ?thesis by blast
qed

lemma ensures_completes: "ensures env Q p w \<Longrightarrow> \<exists>es a w'. returns p es a \<and> traced env w es w'"
proof (induction p arbitrary: w)
  case (Ret a)
  then show ?case by (auto intro: exI [of _ "[]"])
qed (simp only: ensures.simps, erule completes_step, meson rangeI, simp)+

text \<open>A pass that is ensured to do something is never stuck, and does it.\<close>

theorem ensures_sound:
  assumes "ensures env Q p w"
  shows "(\<forall>es w1. runs p es \<and> traced env w es w1 \<longrightarrow> (\<exists>fs a w'. returns p (es @ fs) a \<and> traced env w1 fs w')) \<and>
    (\<forall>es a w'. returns p es a \<and> traced env w es w' \<longrightarrow> Q a w')"
proof (intro conjI allI impI; elim conjE)
  fix es w1
  assume "runs p es" "traced env w es w1"
  then obtain p1 where p1: "after p es = Some p1" "ensures env Q p1 w1"
    using ensures_after [OF assms] by (auto simp: runs_def)
  from ensures_completes [OF p1(2)] obtain fs a w' where "returns p1 fs a" "traced env w1 fs w'" by blast
  moreover have "after p (es @ fs) = after p1 fs"
    using p1(1) by (induction es arbitrary: p) (auto split: option.splits)
  ultimately show "\<exists>fs a w'. returns p (es @ fs) a \<and> traced env w1 fs w'" by (auto simp: returns_def)
next
  fix es a w'
  assume "returns p es a" "traced env w es w'"
  with ensures_after [OF assms, of es "Ret a"] show "Q a w'" by (simp add: returns_def)
qed

end
