(* ===== verification/Convergence.thy ===== *)
theory Convergence
  imports IssuedReports Progress
begin

text \<open>
  What a pass of the record controller gets reached when it is answered: in a world whose API server,
  Databricks account, token file and clock answer every request as documented, a pass over a record
  that is wanted ends with its service principal there, its trust written and \<open>Ready\<close> said, and a pass
  over a record that is going ends with nothing left and the record let go. The world is the locale
  \<open>healthy_world\<close>; it extends \<open>policy_account\<close>, the contract of the account's federation policies.
\<close>

lemma only_element: "distinct zs \<Longrightarrow> zs \<noteq> [] \<Longrightarrow> set zs \<subseteq> {p} \<Longrightarrow> zs = [p]"
  by (cases zs) (auto simp: subset_singleton_iff)

section \<open>What is to be reached\<close>

type_synonym policy_lookup = "int \<Rightarrow> string \<Rightarrow> policy option"

definition trust_stands :: "extern \<Rightarrow> policy_lookup \<Rightarrow> string \<Rightarrow> string \<Rightarrow> string \<Rightarrow> string \<Rightarrow> bool" where
  "trust_stands x pol sp issuer subject audience \<longleftrightarrow>
     (\<exists>n p. parse_int64 (quote x) sp = Inr n \<and> pol n (federation_policy_id_for issuer subject) = Some p \<and>
        trusts (po_oidc p) issuer subject audience)"

text \<open>A token of the ServiceAccount can be exchanged, and the record says so.\<close>

definition exchangeable :: "extern \<Rightarrow> principal set \<Rightarrow> policy_lookup \<Rightarrow> issued \<Rightarrow> string \<Rightarrow> string \<Rightarrow> bool" where
  "exchangeable x ps pol issued issuer audience \<longleftrightarrow>
     service_principal_state (id_status issued) = Known \<and>
     it_service_principal_id (id_status issued) \<in> pr_id ` ps \<and>
     trust_stands x pol (it_service_principal_id (id_status issued)) issuer (ip_subject (id_spec issued)) audience \<and>
     it_issuer (id_status issued) = issuer \<and> it_audience (id_status issued) = audience \<and> says_ready x issued"

text \<open>What a token says, and whether the identity of a record is asked for and served.\<close>

definition token_says :: "extern \<Rightarrow> string \<Rightarrow> string \<Rightarrow> string \<Rightarrow> bool" where
  "token_says x token issuer audience \<longleftrightarrow> (\<exists>claims rest. parse_token_claims x token = Inr claims \<and>
     issuer_of claims = Inr issuer \<and> tc_audience claims = audience # rest \<and> audience \<noteq> '''' \<and> trim_space issuer \<noteq> '''')"

definition wanted_and_served :: "extern \<Rightarrow> issued_reconciler \<Rightarrow> error + service_account \<Rightarrow> account \<Rightarrow> issued \<Rightarrow> bool" where
  "wanted_and_served x r owner account issued \<longleftrightarrow>
     (case owner of
        Inl _ \<Rightarrow> False
      | Inr sa \<Rightarrow>
          \<not> no_longer_asked (requests_for x (om_annotations (sa_meta sa)) (ir_account r)) (ip_identity (id_spec issued)) \<and>
          om_uid (sa_meta sa) = is_uid (ip_service_account (id_spec issued)) \<and>
          serves (ac_spec account) (is_namespace (ip_service_account (id_spec issued))))"

definition carriers :: "principal set \<Rightarrow> string \<Rightarrow> principal set" where
  "carriers ps m = {p \<in> ps. pr_external_id p = m}"

lemma marked_keeps: "om_resource_version (id_meta (marked_sent c i t)) = om_resource_version (id_meta i)"
  by (simp add: marked_sent_def Let_def)

lemma state_of_marked_sent: "service_principal_state (id_status i) = Unsent \<Longrightarrow>
    service_principal_state (id_status (marked_sent c i t)) = Sent"
  by (simp add: marked_sent_def Let_def service_principal_state_simps)

text \<open>Where a pass can get a record from: nothing made yet, or one service principal that is its own.\<close>

definition within_reach :: "issued_reconciler \<Rightarrow> principal set \<Rightarrow> issued \<Rightarrow> string \<Rightarrow> bool" where
  "within_reach r ps issued issuer \<longleftrightarrow>
     (let own = carriers ps (marker_for (issuing_for r issued issuer))
      in case service_principal_state (id_status issued) of
           Unsent \<Rightarrow> own = {} | Sent \<Rightarrow> is_singleton own
         | Known \<Rightarrow> it_service_principal_id (id_status issued) \<in> pr_id ` ps | Gone \<Rightarrow> False)"

text \<open>No more service principals are the record's own than its state lets there be, which every record keeps to
  all its life (theory IssuedLife); then it is within reach, or the pass can only say so.\<close>

definition lone :: "issued_reconciler \<Rightarrow> principal set \<Rightarrow> issued \<Rightarrow> string \<Rightarrow> bool" where
  "lone r ps issued issuer \<longleftrightarrow>
     (let own = carriers ps (marker_for (issuing_for r issued issuer))
      in case service_principal_state (id_status issued) of
           Unsent \<Rightarrow> own = {} | Sent \<Rightarrow> own = {} \<or> is_singleton own | _ \<Rightarrow> True)"

lemma out_of_reach:
  assumes "lone r ps issued issuer" "\<not> within_reach r ps issued issuer"
  obtains (gone) "service_principal_state (id_status issued) = Gone"
    | (unfound) "service_principal_state (id_status issued) = Sent" "carriers ps (marker_for (issuing_for r issued issuer)) = {}"
    | (lost) "service_principal_state (id_status issued) = Known" "it_service_principal_id (id_status issued) \<notin> pr_id ` ps"
  using assms by (cases "service_principal_state (id_status issued)") (auto simp: lone_def within_reach_def Let_def)

text \<open>The ids of the service principals that are the record's.\<close>

definition belonging :: "issued_reconciler \<Rightarrow> principal set \<Rightarrow> issued \<Rightarrow> string \<Rightarrow> string set" where
  "belonging r ps issued issuer =
     (case service_principal_state (id_status issued) of
        Sent \<Rightarrow> pr_id ` carriers ps (marker_for (issuing_for r issued issuer))
      | Known \<Rightarrow> {it_service_principal_id (id_status issued)}
      | _ \<Rightarrow> {})"

section \<open>The world\<close>

text \<open>\<open>owner\<close> is what a live read of the ServiceAccount answers, \<open>record_of\<close> the record the API server holds, \<open>there\<close> the service principals in the account of
  \<open>cfg\<close>, \<open>policies\<close> its federation policies.\<close>

locale healthy_world = policy_account policy_of serve
  for policy_of :: "'s \<Rightarrow> int \<Rightarrow> string \<Rightarrow> policy option" and serve :: "'s \<Rightarrow> policy_request \<Rightarrow> (error + policy) \<times> 's" +
  fixes env :: "'w \<Rightarrow> event \<Rightarrow> 'w \<Rightarrow> bool" and record_of :: "'w \<Rightarrow> issued" and there :: "'w \<Rightarrow> principal set"
    and policies :: "'w \<Rightarrow> 's" and x :: extern and r :: issued_reconciler and cfg :: config
    and owner :: "error + service_account" and account :: account and token :: string
  assumes reads: "demands env (EIssued (GetIssued (object_key (id_meta (record_of w)))))
        (\<lambda>a w'. a = Inr (record_of w) \<and> w' = w) w"
    and stores: "om_resource_version (id_meta obj) = om_resource_version (id_meta (record_of w)) \<Longrightarrow>
      demands env (EIssued (UpdateIssuedStatus obj))
        (\<lambda>a w'. a = Inr (record_of w') \<and> id_status (record_of w') = id_status obj \<and>
           id_spec (record_of w') = id_spec (record_of w) \<and>
           om_finalizers (id_meta (record_of w')) = om_finalizers (id_meta (record_of w)) \<and>
           there w' = there w \<and> policies w' = policies w) w"
    and updates: "om_resource_version (id_meta obj) = om_resource_version (id_meta (record_of w)) \<Longrightarrow>
      demands env (EIssued (UpdateIssued obj))
        (\<lambda>a w'. a = Inr (record_of w') \<and> om_finalizers (id_meta (record_of w')) = om_finalizers (id_meta obj) \<and>
           there w' = there w) w"
    and slot: "demands env ESlot (\<lambda>s w'. snapshot s = Installed cfg \<and> w' = w) w"
    and owned: "nn_namespace n = is_namespace (ip_service_account (id_spec (record_of w))) \<Longrightarrow>
      nn_name n = is_name (ip_service_account (id_spec (record_of w))) \<Longrightarrow>
      demands env (EServiceAccount (LiveServiceAccount n)) (\<lambda>a w'. a = owner \<and> w' = w) w"
    and declared: "demands env (EAccount (GetAccount (ir_account r))) (\<lambda>a w'. a = Inr account \<and> w' = w) w"
    and path: "ir_token_path r \<noteq> ''''"
    and mounted: "demands env (EFile (ir_token_path r)) (\<lambda>a w'. a = Inr token \<and> w' = w) w"
    and clock: "demands env ENow (\<lambda>t w'. w' = w) w"
    and creates: "demands env (EPrincipal cfg (CreatePrincipal d m active))
        (\<lambda>a w'. record_of w' = record_of w \<and> policies w' = policies w \<and>
           (\<exists>p. a = Inr p \<and> pr_external_id p = m \<and> there w' = insert p (there w))) w"
    and gets: "sp \<noteq> '''' \<Longrightarrow> demands env (EPrincipal cfg (GetPrincipal sp))
        (\<lambda>a w'. w' = w \<and> (if sp \<in> pr_id ` there w then \<exists>p. a = Inr p else \<exists>err. a = Inl err \<and> kind_of (Some err) = NotFound)) w"
    and lists: "demands env (EPrincipals cfg f)
        (\<lambda>a w'. w' = w \<and> (\<exists>ps. a = Inr ps \<and> distinct ps \<and> set ps \<subseteq> there w \<and> (f = None \<longrightarrow> set ps = there w))) w"
    and deletes: "demands env (ECall cfg (DeletePrincipal sp))
        (\<lambda>a w'. record_of w' = record_of w \<and> there w' = {p \<in> there w. pr_id p \<noteq> sp} \<and>
           (\<forall>err. a = Some err \<longrightarrow> kind_of a = NotFound)) w"
    and answers_policy: "demands env (EPolicy cfg q)
        (\<lambda>a w'. (a, policies w') = serve (policies w) q \<and> record_of w' = record_of w \<and> there w' = there w) w"
    and numbered: "p \<in> there w \<Longrightarrow> pr_id p \<noteq> '''' \<and> (\<exists>n. parse_int64 (quote x) (pr_id p) = Inr n)"
begin

lemma ensures_ask:
  "demands env e K w \<Longrightarrow> (\<And>a w'. K a w' \<Longrightarrow> ensures env Q (k a) w') \<Longrightarrow> demands env e (\<lambda>a. ensures env Q (k a)) w"
  by (rule demands_mono)

definition trusted :: "'w \<Rightarrow> string \<Rightarrow> string \<Rightarrow> string \<Rightarrow> string \<Rightarrow> bool" where
  "trusted w = trust_stands x (policy_of (policies w))"

definition reached :: "'w \<Rightarrow> string \<Rightarrow> string \<Rightarrow> bool" where
  "reached w = exchangeable x (there w) (policy_of (policies w)) (record_of w)"

section \<open>The calls of a pass\<close>

lemma ensures_policy:
  assumes "\<And>w'. policies w' = snd (serve (policies w) q) \<Longrightarrow> record_of w' = record_of w \<Longrightarrow> there w' = there w \<Longrightarrow>
      ensures env Q (k (fst (serve (policies w) q))) w'"
  shows "demands env (EPolicy cfg q) (\<lambda>a. ensures env Q (k a)) w"
  using assms by (intro ensures_ask [OF answers_policy]) (metis fst_conv snd_conv)

lemma ensures_trust:
  assumes "parse_int64 (quote x) sp = Inr n"
  shows "ensures env (\<lambda>a w'. a = None \<and> record_of w' = record_of w \<and> there w' = there w \<and>
      trusted w' sp issuer subject audience \<and>
      (trusted w sp issuer subject audience \<longrightarrow> policies w' = policies w))
    (ensure_federation_policy x (Installed cfg) sp issuer subject audience) w"
proof -
  let ?pid = "federation_policy_id_for issuer subject" and ?pol = "federation_policy_for issuer subject audience"
  have trusted: "trusted w' sp issuer subject audience \<longleftrightarrow>
      (\<exists>p. policy_of (policies w') n ?pid = Some p \<and> trusts (po_oidc p) issuer subject audience)" for w'
    using assms by (auto simp: trusted_def trust_stands_def)
  show ?thesis
  proof (cases "policy_of (policies w) n ?pid")
    case None
    from get_missing [OF None] obtain err where
      err: "serve (policies w) (GetPolicy n ?pid) = (Inl err, policies w)" "kind_of (Some err) = NotFound" by blast
    from create_free [OF None, of ?pol] obtain s' where
      s': "serve (policies w) (CreatePolicy n ?pid ?pol) = (Inr (?pol\<lparr>po_id := ?pid\<rparr>), s')"
        "policy_of s' n ?pid = Some (?pol\<lparr>po_id := ?pid\<rparr>)" by blast
    show ?thesis
      unfolding ensure_federation_policy_def
      by (simp add: Let_def trusted None assms) (auto simp: err s' intro!: ensures_policy)
  next
    case (Some p)
    show ?thesis
    proof (cases "trusts (po_oidc p) issuer subject audience")
      case True
      with Some assms show ?thesis
        unfolding ensure_federation_policy_def
        by (simp add: Let_def trusted) (auto simp: get_there [OF Some] intro!: ensures_policy)
    next
      case False
      let ?new = "p\<lparr>po_oidc := po_oidc ?pol\<rparr>"
      from update_there [OF Some, of "''oidc_policy''" ?pol, unfolded masked_oidc] obtain s' where
        s': "serve (policies w) (UpdatePolicy n ?pid ''oidc_policy'' ?pol) = (Inr ?new, s')"
          "policy_of s' n ?pid = Some ?new" by blast
      from False Some assms show ?thesis
        unfolding ensure_federation_policy_def restate_federation_policy_def
        by (simp add: Let_def trusted) (auto simp: get_there [OF Some] s' intro!: ensures_policy)
    qed
  qed
qed

lemma ensures_found:
  assumes "carriers (there w) (marker_for i) = {p}" "trim_space (ig_issuer i) \<noteq> ''''"
  shows "ensures env (\<lambda>a w'. w' = w \<and> a = Inr (Some (pr_id p, pr_application_id p)))
    (find_service_principal x (Installed cfg) i) w"
proof -
  have only: "q = p" if "q \<in> there w" "pr_external_id q = marker_for i" for q
    using assms(1) that unfolding carriers_def by blast
  have p: "p \<in> there w" "pr_external_id p = marker_for i" using assms(1) unfolding carriers_def by blast+
  have one: "carrying ps (marker_for i) = [p]" if "distinct ps" "set ps \<subseteq> there w" "carrying ps (marker_for i) \<noteq> []" for ps
  proof -
    have "set (carrying ps (marker_for i)) \<subseteq> {p}" using that(2) only by (auto simp: carrying_def)
    with that(1,3) show ?thesis by (intro only_element) (simp_all add: carrying_def)
  qed
  have some: "carrying ps (marker_for i) \<noteq> []" if "set ps = there w" for ps
    using that p by (auto simp: carrying_def filter_empty_conv)
  let ?Q = "\<lambda>a w'. w' = w \<and> a = Inr (Some (pr_id p, pr_application_id p))"
  have picked: "ensures env ?Q (Ret (pick_carrier i (carrying ps (marker_for i)))) w"
    if "distinct ps" "set ps \<subseteq> there w" "carrying ps (marker_for i) \<noteq> []" for ps
    using one [OF that] by (simp add: pick_carrier_def)
  show ?thesis
    unfolding find_service_principal_def Let_def using assms(2)
    by (auto simp del: ensures.simps(1) intro!: ensures_ask [OF lists] picked some)
qed

section \<open>Converging\<close>

lemma ensures_reported:
  assumes "status_conditions (set_status_condition x) (find_status_condition x)"
    and "om_resource_version (id_meta i) = om_resource_version (id_meta (record_of w))"
  shows "ensures env (\<lambda>a w'. a = (requeue_after (retry_after_for st issuedRetryAfterAwaited issuedRetryAfterSettled), None) \<and>
      there w' = there w \<and> policies w' = policies w \<and> id_spec (record_of w') = id_spec (record_of w) \<and>
      om_finalizers (id_meta (record_of w')) = om_finalizers (id_meta (record_of w)) \<and>
      (says_ready x (record_of w') \<longleftrightarrow> st = ConditionTrue) \<and> (\<exists>cs. id_status (record_of w') = id_status i\<lparr>it_conditions := cs\<rparr>))
    (report_ready x i st reason message) w"
proof -
  have ready: "says_ready x j \<longleftrightarrow> st = ConditionTrue" if "id_status j = id_status i\<lparr>it_conditions := set_status_condition x now cs
      \<lparr>cn_type = conditionReady, cn_status = st, cn_observed_generation = g, cn_last_transition = l,
       cn_reason = re, cn_message = m\<rparr>\<rparr>" for j now cs g l re m
    using says_ready_set [OF assms(1), where i = i and s = "id_status i" and now = now and cs = cs and
        st = st and g = g and l = l and re = re and m = m] that
    by (simp add: says_ready_def)
  show ?thesis
    unfolding report_ready_def set_condition_def
    by simp
      (rule demands_mono [OF clock], simp, rule demands_mono [OF stores], use assms(2) in simp, elim conjE,
        simp add: ready ignore_not_found_def, blast)
qed

lemma ensures_ready:
  assumes "status_conditions (set_status_condition x) (find_status_condition x)"
    and "om_resource_version (id_meta i) = om_resource_version (id_meta (record_of w))"
  shows "ensures env (\<lambda>a w'. a = (requeue_after issuedRetryAfterSettled, None) \<and> there w' = there w \<and>
      policies w' = policies w \<and> id_spec (record_of w') = id_spec (record_of w) \<and> says_ready x (record_of w') \<and>
      (\<exists>cs. id_status (record_of w') = id_status i\<lparr>it_conditions := cs\<rparr>))
    (report_ready x i ConditionTrue reason message) w"
  by (rule ensures_mono [OF ensures_reported [OF assms]]) (simp add: retry_after_for_def)

lemma ensures_written:
  assumes "status_conditions (set_status_condition x) (find_status_condition x)"
    and known: "service_principal_state (id_status (record_of w)) = Known"
    and sp: "it_service_principal_id (id_status (record_of w)) \<in> pr_id ` there w"
  shows "ensures env (\<lambda>a w'. a = (requeue_after issuedRetryAfterSettled, None) \<and> there w' = there w \<and> reached w' issuer audience \<and>
      id_spec (record_of w') = id_spec (record_of w) \<and>
      (trusted w (it_service_principal_id (id_status (record_of w))) issuer (ip_subject (id_spec (record_of w))) audience
         \<longrightarrow> policies w' = policies w) \<and>
      it_service_principal_id (id_status (record_of w')) = it_service_principal_id (id_status (record_of w)) \<and>
      it_client_id (id_status (record_of w')) = it_client_id (id_status (record_of w)))
    (write_policy x (Installed cfg) (record_of w) issuer audience) w"
proof -
  from sp numbered obtain n where n: "parse_int64 (quote x) (it_service_principal_id (id_status (record_of w))) = Inr n"
    by (auto dest: numbered)
  have state: "service_principal_state s = Known" if "s = id_status (record_of w)
      \<lparr>it_issuer := issuer, it_audience := audience, it_conditions := cs\<rparr>" for s cs
    using known that by (simp add: service_principal_state_def split: if_splits)
  show ?thesis
    unfolding write_policy_def Let_def
    by (simp, rule ensures_bind [OF ensures_trust [OF n]], simp, rule ensures_mono [OF ensures_ready [OF assms(1)]], simp)
      (use sp in \<open>auto simp: reached_def exchangeable_def trusted_def state\<close>)
qed

lemma ensures_known:
  assumes "status_conditions (set_status_condition x) (find_status_condition x)"
    and known: "service_principal_state (id_status (record_of w)) = Known"
    and sp: "it_service_principal_id (id_status (record_of w)) \<in> pr_id ` there w"
  shows "ensures env (\<lambda>a w'. a = (requeue_after issuedRetryAfterSettled, None) \<and> there w' = there w \<and> reached w' issuer audience \<and>
      id_spec (record_of w') = id_spec (record_of w) \<and>
      (trusted w (it_service_principal_id (id_status (record_of w))) issuer (ip_subject (id_spec (record_of w))) audience
         \<longrightarrow> policies w' = policies w) \<and>
      it_service_principal_id (id_status (record_of w')) = it_service_principal_id (id_status (record_of w)) \<and>
      it_client_id (id_status (record_of w')) = it_client_id (id_status (record_of w)))
    (converge_known x (Installed cfg) (record_of w) issuer audience) w"
proof -
  let ?sp = "it_service_principal_id (id_status (record_of w))"
  have named: "?sp \<noteq> ''''" using known by (simp add: service_principal_state_simps)
  have "ensures env (\<lambda>a w'. w' = w \<and> a = Inr True) (service_principal_exists (Installed cfg) ?sp) w"
    unfolding service_principal_exists_def using named
    by simp (rule demands_mono [OF gets [OF named]], use sp in auto)
  then show ?thesis
    unfolding converge_known_def by (rule ensures_bind) (simp add: ensures_written [OF assms])
qed

lemma ensures_adopted:
  assumes "status_conditions (set_status_condition x) (find_status_condition x)"
    and sent: "service_principal_state (id_status (record_of w)) = Sent" and p: "p \<in> there w"
  shows "ensures env (\<lambda>a w'. a = (requeue_after issuedRetryAfterSettled, None) \<and> there w' = there w \<and> reached w' issuer audience \<and>
      id_spec (record_of w') = id_spec (record_of w) \<and>
      it_service_principal_id (id_status (record_of w')) = pr_id p \<and> it_client_id (id_status (record_of w')) = pr_application_id p)
    (then_do (adopt (Installed cfg) (record_of w) (pr_id p) (pr_application_id p) issuer audience) (\<lambda>stored.
       case stored of Inl err \<Rightarrow> Ret (no_result, Some err)
       | Inr issued' \<Rightarrow> write_policy x (Installed cfg) issued' issuer audience)) w"
proof -
  let ?adopted = "adopted (Installed cfg) (record_of w) (pr_id p) (pr_application_id p) issuer audience"
  have "pr_id p \<noteq> ''''" using numbered [OF p] by simp
  with sent have known: "service_principal_state (id_status ?adopted) = Known" "it_service_principal_id (id_status ?adopted) = pr_id p"
    "it_client_id (id_status ?adopted) = pr_application_id p"
    by (simp_all add: adopted_def Let_def service_principal_state_def split: if_splits)
  have meta: "om_resource_version (id_meta ?adopted) = om_resource_version (id_meta (record_of w))"
    by (simp add: adopted_def Let_def)
  have written: "ensures env (\<lambda>a w'. a = (requeue_after issuedRetryAfterSettled, None) \<and> there w' = there w \<and>
      reached w' issuer audience \<and>
      id_spec (record_of w') = id_spec (record_of w) \<and> it_service_principal_id (id_status (record_of w')) = pr_id p \<and>
      it_client_id (id_status (record_of w')) = pr_application_id p)
      (write_policy x (Installed cfg) (record_of w1) issuer audience) w1"
    if "id_status (record_of w1) = id_status ?adopted" "there w1 = there w" "id_spec (record_of w1) = id_spec (record_of w)" for w1
    by (rule ensures_mono [OF ensures_written [OF assms(1)]]) (use that known p in auto)
  show ?thesis
    unfolding adopt_def then_do.simps ensures.simps
    by (rule demands_mono [OF stores [OF meta]]) (auto intro: written)
qed

lemma ensures_sent:
  assumes "status_conditions (set_status_condition x) (find_status_condition x)"
    and sent: "service_principal_state (id_status (record_of w)) = Sent"
    and p: "carriers (there w) (marker_for (issuing_for r (record_of w) issuer)) = {p}" and issuer: "trim_space issuer \<noteq> ''''"
  shows "ensures env (\<lambda>a w'. a = (requeue_after issuedRetryAfterSettled, None) \<and> there w' = there w \<and> reached w' issuer audience \<and>
      id_spec (record_of w') = id_spec (record_of w) \<and>
      it_service_principal_id (id_status (record_of w')) = pr_id p \<and> it_client_id (id_status (record_of w')) = pr_application_id p)
    (converge_sent x r (Installed cfg) (record_of w) issuer audience) w"
proof -
  have "ig_issuer (issuing_for r (record_of w) issuer) = issuer" by (simp add: issuing_for_def)
  with issuer have t: "trim_space (ig_issuer (issuing_for r (record_of w) issuer)) \<noteq> ''''" by simp
  have "p \<in> there w" using p by (auto simp: carriers_def)
  from ensures_adopted [OF assms(1) sent this] show ?thesis
    unfolding converge_sent_def Let_def
    by (intro ensures_bind [OF ensures_found [OF p t]]) simp
qed

lemma ensures_unsent:
  assumes "status_conditions (set_status_condition x) (find_status_condition x)"
    and unsent: "service_principal_state (id_status (record_of w)) = Unsent" and issuer: "trim_space issuer \<noteq> ''''"
  shows "ensures env (\<lambda>a w'. a = (requeue_after issuedRetryAfterSettled, None) \<and> reached w' issuer audience \<and>
      id_spec (record_of w') = id_spec (record_of w) \<and>
      (\<exists>p. there w' = insert p (there w) \<and> pr_external_id p = marker_for (issuing_for r (record_of w) issuer) \<and>
         it_service_principal_id (id_status (record_of w')) = pr_id p \<and> it_client_id (id_status (record_of w')) = pr_application_id p))
    (converge_unsent x r (Installed cfg) (record_of w) issuer audience) w"
  (is "ensures env ?Q _ w")
proof -
  let ?i = "issuing_for r (record_of w) issuer"
  have t: "trim_space (ig_issuer ?i) \<noteq> ''''" using issuer by (simp add: issuing_for_def)
  have created: "ensures env (\<lambda>a w'. record_of w' = record_of w1 \<and>
      (\<exists>p. a = Inr (pr_id p, pr_application_id p) \<and> pr_external_id p = marker_for ?i \<and> there w' = insert p (there w1)))
      (create_service_principal (Installed cfg) ?i) w1" for w1
    unfolding create_service_principal_def using t by simp (rule demands_mono [OF creates], auto)
  have after_mark: "ensures env ?Q (then_do (create_service_principal (Installed cfg) ?i) (\<lambda>made.
      case made of Inl err \<Rightarrow> report_failure x (record_of w1) (outcome_for x err)
      | Inr (sp, client_id) \<Rightarrow> then_do (adopt (Installed cfg) (record_of w1) sp client_id issuer audience) (\<lambda>stored.
          case stored of Inl err \<Rightarrow> Ret (no_result, Some err)
          | Inr issued'' \<Rightarrow> write_policy x (Installed cfg) issued'' issuer audience))) w1"
    if "service_principal_state (id_status (record_of w1)) = Sent" "there w1 = there w"
      "id_spec (record_of w1) = id_spec (record_of w)" for w1
  proof (rule ensures_bind [OF created], elim conjE exE)
    fix a :: "error + string \<times> string" and w2 p
    assume a: "record_of w2 = record_of w1" "a = Inr (pr_id p, pr_application_id p)" "pr_external_id p = marker_for ?i"
      "there w2 = insert p (there w1)"
    with that have "service_principal_state (id_status (record_of w2)) = Sent" "p \<in> there w2" by simp_all
    from ensures_mono [OF ensures_adopted [OF assms(1) this], where Q' = ?Q] a that
    show "ensures env ?Q (case a of Inl err \<Rightarrow> report_failure x (record_of w1) (outcome_for x err)
      | Inr (sp, client_id) \<Rightarrow> then_do (adopt (Installed cfg) (record_of w1) sp client_id issuer audience) (\<lambda>stored.
          case stored of Inl err \<Rightarrow> Ret (no_result, Some err)
          | Inr issued'' \<Rightarrow> write_policy x (Installed cfg) issued'' issuer audience)) w2"
      by (simp add: ensures_then_do) blast
  qed
  show ?thesis
    unfolding converge_unsent_def ensures.simps
    by (rule demands_mono [OF clock], rule demands_mono [OF stores])
      (auto simp: state_of_marked_sent [OF unsent] marked_keeps intro!: after_mark)
qed

lemma ensures_claims:
  assumes "token_says x token issuer audience"
  shows "ensures env (\<lambda>a w'. w' = w \<and> a = Inr (issuer, audience)) (issuer_and_audience x r) w"
    "ensures env (\<lambda>a w'. w' = w \<and> a = Inr issuer) (token_issuer x r) w"
proof -
  from assms obtain claims rest where c: "parse_token_claims x token = Inr claims" "issuer_of claims = Inr issuer"
    "tc_audience claims = audience # rest" "audience \<noteq> ''''" by (auto simp: token_says_def)
  have read: "ensures env (\<lambda>a w'. w' = w \<and> a = Inr claims) (read_token_claims x (ir_token_path r)) w"
    unfolding read_token_claims_def using path by simp (rule demands_mono [OF mounted], use c(1) in simp)
  show "ensures env (\<lambda>a w'. w' = w \<and> a = Inr (issuer, audience)) (issuer_and_audience x r) w"
    unfolding issuer_and_audience_def by (rule ensures_bind [OF read]) (use c in simp)
  show "ensures env (\<lambda>a w'. w' = w \<and> a = Inr issuer) (token_issuer x r) w"
    unfolding token_issuer_def by (rule ensures_bind [OF read]) (use c in simp)
qed

definition converged :: "'w \<Rightarrow> string \<Rightarrow> string \<Rightarrow> reconciled \<Rightarrow> 'w \<Rightarrow> bool" where
  "converged w issuer audience a w' \<longleftrightarrow>
     (let state = service_principal_state (id_status (record_of w)); id = it_service_principal_id (id_status (record_of w));
          id' = it_service_principal_id (id_status (record_of w'));
          marker = marker_for (issuing_for r (record_of w) issuer)
      in a = (requeue_after issuedRetryAfterSettled, None) \<and> reached w' issuer audience \<and>
         id_spec (record_of w') = id_spec (record_of w) \<and>
         (state \<noteq> Unsent \<longrightarrow> there w' = there w) \<and>
         (state \<noteq> Known \<longrightarrow> (\<exists>p. carriers (there w') marker = {p} \<and> pr_id p = id' \<and>
            pr_application_id p = it_client_id (id_status (record_of w')) \<and> there w' = insert p (there w))) \<and>
         (state = Known \<longrightarrow> id' = id \<and> it_client_id (id_status (record_of w')) = it_client_id (id_status (record_of w)) \<and>
            (trusted w id issuer (ip_subject (id_spec (record_of w))) audience \<longrightarrow> policies w' = policies w)))"

lemma ensures_converged:
  assumes laws: "status_conditions (set_status_condition x) (find_status_condition x)"
    and token: "token_says x token issuer audience" and start: "within_reach r (there w) (record_of w) issuer"
  shows "ensures env (converged w issuer audience) (converge x r (Installed cfg) (record_of w)) w"
proof -
  let ?m = "marker_for (issuing_for r (record_of w) issuer)"
  let ?state = "service_principal_state (id_status (record_of w))"
  have issuer: "trim_space issuer \<noteq> ''''" using token by (auto simp: token_says_def)
  have state: "?state \<noteq> Gone" using start by (auto simp: within_reach_def)
  have "ensures env (converged w issuer audience) (case ?state of
      Known \<Rightarrow> converge_known x (Installed cfg) (record_of w) issuer audience
    | Unsent \<Rightarrow> converge_unsent x r (Installed cfg) (record_of w) issuer audience
    | Sent \<Rightarrow> converge_sent x r (Installed cfg) (record_of w) issuer audience
    | Gone \<Rightarrow> write_policy x (Installed cfg) (record_of w) issuer audience) w"
  proof (cases ?state)
    case Unsent
    with start have none: "carriers (there w) ?m = {}" by (simp add: within_reach_def Let_def)
    show ?thesis
      unfolding Unsent record_state.case
    proof (rule ensures_mono [OF ensures_unsent [OF laws Unsent issuer]], elim conjE exE)
      fix a :: reconciled and w' p
      assume a: "a = (requeue_after issuedRetryAfterSettled, None)" "reached w' issuer audience"
        "id_spec (record_of w') = id_spec (record_of w)" "there w' = insert p (there w)" "pr_external_id p = ?m"
        "it_service_principal_id (id_status (record_of w')) = pr_id p" "it_client_id (id_status (record_of w')) = pr_application_id p"
      have "carriers (there w') ?m = insert p (carriers (there w) ?m)" using a(4,5) by (auto simp: carriers_def)
      with none a Unsent show "converged w issuer audience a w'" by (auto simp: converged_def Let_def)
    qed
  next
    case Sent
    with start obtain p where p: "carriers (there w) ?m = {p}" by (auto simp: within_reach_def Let_def is_singleton_def)
    then have "p \<in> there w" by (auto simp: carriers_def)
    with Sent p show ?thesis
      by (simp, intro ensures_mono [OF ensures_sent [OF laws Sent p issuer]]) (auto simp: converged_def Let_def)
  next
    case Known
    with start have sp: "it_service_principal_id (id_status (record_of w)) \<in> pr_id ` there w" by (simp add: within_reach_def Let_def)
    from Known show ?thesis
      by (simp, intro ensures_mono [OF ensures_known [OF laws Known sp]]) (auto simp: converged_def Let_def)
  qed (use state in simp)
  with state show ?thesis
    unfolding converge_def by (auto intro!: ensures_bind [OF ensures_claims(1) [OF token]])
qed

lemma ensures_wanted:
  assumes live: "om_deletion_timestamp (id_meta (record_of w)) = None"
      "contains_finalizer (id_meta (record_of w)) ServicePrincipalFinalizer"
    and wanted: "wanted_and_served x r owner account (record_of w)"
    and converges: "ensures env Q (converge x r (Installed cfg) (record_of w)) w"
  shows "ensures env Q (reconcile_issued x r (object_key (id_meta (record_of w)))) w"
proof -
  have still: "ensures env (\<lambda>a w'. w' = w \<and> a = Inr True) (still_wanted x r (record_of w)) w"
    unfolding still_wanted_def
    by simp (rule demands_mono [OF owned], use wanted in \<open>auto simp: wanted_and_served_def split: sum.splits\<close>)
  have served: "ensures env (\<lambda>a w'. w' = w \<and> a = Inr (True, True))
      (databricks_account_serves (ir_account r) (is_namespace (ip_service_account (id_spec (record_of w))))) w"
    unfolding databricks_account_serves_def
    by simp (rule demands_mono [OF declared], use wanted in \<open>auto simp: wanted_and_served_def split: sum.splits\<close>)
  have recorded: "ensures env Q (reconcile_record x r (Installed cfg) (record_of w)) w"
    unfolding reconcile_record_def using live
    by simp (rule ensures_bind [OF still], simp, rule ensures_bind [OF served], simp add: converges)
  show ?thesis
    unfolding reconcile_issued_def ensures.simps
    by (rule demands_mono [OF reads]) (auto intro!: demands_mono [OF slot] simp: recorded)
qed

lemma ensures_reconciled:
  assumes "status_conditions (set_status_condition x) (find_status_condition x)"
    and "token_says x token issuer audience" and "within_reach r (there w) (record_of w) issuer"
    and "om_deletion_timestamp (id_meta (record_of w)) = None"
    and "contains_finalizer (id_meta (record_of w)) ServicePrincipalFinalizer"
    and "wanted_and_served x r owner account (record_of w)"
  shows "ensures env (converged w issuer audience) (reconcile_issued x r (object_key (id_meta (record_of w)))) w"
  by (rule ensures_wanted [OF assms(4-6) ensures_converged [OF assms(1-3)]])

section \<open>Out of reach\<close>

lemma ensures_none_found:
  assumes "carriers (there w) (marker_for i) = {}" "trim_space (ig_issuer i) \<noteq> ''''"
  shows "ensures env (\<lambda>a w'. w' = w \<and> a = Inr None) (find_service_principal x (Installed cfg) i) w"
proof -
  have none: "carrying ps (marker_for i) = []" if "set ps \<subseteq> there w" for ps
    using assms(1) that by (auto simp: carrying_def carriers_def filter_empty_conv)
  show ?thesis
    unfolding find_service_principal_def Let_def using assms(2)
    by (auto intro!: ensures_ask [OF lists] simp: none pick_carrier_def)
qed

text \<open>Nothing is made and nothing is touched; the record says what it knows, without saying ready.\<close>

definition held_back :: "'w \<Rightarrow> reconciled \<Rightarrow> 'w \<Rightarrow> bool" where
  "held_back w a w' \<longleftrightarrow>
     a = (requeue_after issuedRetryAfterAwaited, None) \<and> there w' = there w \<and> policies w' = policies w \<and>
     id_spec (record_of w') = id_spec (record_of w) \<and> \<not> says_ready x (record_of w') \<and>
     service_principal_state (id_status (record_of w')) =
       (if service_principal_state (id_status (record_of w)) = Sent then Sent else Gone)"

lemma ensures_held_back:
  assumes laws: "status_conditions (set_status_condition x) (find_status_condition x)"
    and token: "token_says x token issuer audience" and lone: "lone r (there w) (record_of w) issuer"
    and out: "\<not> within_reach r (there w) (record_of w) issuer"
  shows "ensures env (held_back w) (converge x r (Installed cfg) (record_of w)) w"
proof -
  let ?state = "service_principal_state (id_status (record_of w))"
  have reported: "ensures env (held_back w) (report_ready x i st re m) w1"
    if "id_meta i = id_meta (record_of w)" "record_of w1 = record_of w" "there w1 = there w" "policies w1 = policies w" "st \<noteq> ConditionTrue"
      "\<And>cs. service_principal_state (id_status i\<lparr>it_conditions := cs\<rparr>) = (if ?state = Sent then Sent else Gone)" for i st re m w1
    by (rule ensures_mono [OF ensures_reported [OF laws]]) (use that in \<open>auto simp: held_back_def retry_after_for_def\<close>)
  have conditions: "service_principal_state (s\<lparr>it_conditions := cs\<rparr>) = service_principal_state s" for s cs
    by (simp add: service_principal_state_def)
  note claims = ensures_claims(1) [OF token]
  from lone out show ?thesis
  proof (cases rule: out_of_reach)
    case gone
    then show ?thesis by (simp add: converge_def) (rule reported, simp_all add: conditions)
  next
    case unfound
    have t: "trim_space (ig_issuer (issuing_for r (record_of w) issuer)) \<noteq> ''''"
      using token by (auto simp: token_says_def issuing_for_def)
    have "ensures env (held_back w) (converge_sent x r (Installed cfg) (record_of w) issuer audience) w"
      unfolding converge_sent_def Let_def
      by (rule ensures_bind [OF ensures_none_found [OF unfound(2) t]]) (auto intro!: reported simp: conditions unfound(1))
    with unfound(1) show ?thesis
      unfolding converge_def by (auto intro!: ensures_bind [OF claims])
  next
    case lost
    then have named: "it_service_principal_id (id_status (record_of w)) \<noteq> ''''" by (simp add: service_principal_state_simps)
    have gone: "service_principal_state (id_status (record_of w)\<lparr>it_removed_at := Some t, it_conditions := cs\<rparr>) = Gone" for t cs
      by (simp add: service_principal_state_def)
    have absent: "ensures env (\<lambda>a w'. w' = w \<and> a = Inr False)
        (service_principal_exists (Installed cfg) (it_service_principal_id (id_status (record_of w)))) w"
      unfolding service_principal_exists_def using named
      by simp (rule demands_mono [OF gets [OF named]], use lost in auto)
    have "ensures env (held_back w) (converge_known x (Installed cfg) (record_of w) issuer audience) w"
      unfolding converge_known_def Let_def
      by (rule ensures_bind [OF absent]) (auto intro!: ensures_ask [OF clock] reported simp: gone lost(1))
    with lost(1) show ?thesis
      unfolding converge_def by (auto intro!: ensures_bind [OF claims])
  qed
qed

section \<open>Destroying\<close>

lemma ensures_destroyed:
  assumes finalizers: "finalizer_lists (add_finalizer x) (remove_finalizer x)"
    and token: "token_says x token issuer audience"
    and going: "om_deletion_timestamp (id_meta (record_of w)) \<noteq> None"
      "contains_finalizer (id_meta (record_of w)) ServicePrincipalFinalizer"
    and found: "service_principal_state (id_status (record_of w)) = Sent \<Longrightarrow>
      is_singleton (carriers (there w) (marker_for (issuing_for r (record_of w) issuer)))"
  shows "ensures env (\<lambda>a w'. a = (no_result, None) \<and>
      \<not> contains_finalizer (id_meta (record_of w')) ServicePrincipalFinalizer \<and>
      there w' = {p \<in> there w. pr_id p \<notin> belonging r (there w) (record_of w) issuer})
    (reconcile_issued x r (object_key (id_meta (record_of w)))) w"
proof -
  let ?own = "belonging r (there w) (record_of w) issuer" and ?i = "issuing_for r (record_of w) issuer"
  let ?state = "service_principal_state (id_status (record_of w))"
  let ?Q = "\<lambda>a w'. a = (no_result, None) \<and> \<not> contains_finalizer (id_meta (record_of w')) ServicePrincipalFinalizer \<and>
      there w' = {p \<in> there w. pr_id p \<notin> ?own}"
  have t: "trim_space (ig_issuer ?i) \<noteq> ''''" using token by (auto simp: token_says_def issuing_for_def)
  have decided: "ensures env (\<lambda>a w'. w' = w \<and> (\<exists>sp. a = Inr sp \<and> ?own = (if sp = '''' then {} else {sp})))
      (what_to_delete x r (Installed cfg) (record_of w)) w"
  proof (cases ?state)
    case Sent
    with found obtain p where p: "carriers (there w) (marker_for ?i) = {p}" by (auto simp: is_singleton_def)
    then have "p \<in> there w" by (auto simp: carriers_def)
    with numbered have "pr_id p \<noteq> ''''" by blast
    with Sent p show ?thesis
      unfolding what_to_delete_def
      by (simp add: belonging_def) (rule ensures_bind [OF ensures_claims(2) [OF token]], simp add: Let_def,
        rule ensures_bind [OF ensures_found [OF p t]], auto)
  next
    case Known
    then have "it_service_principal_id (id_status (record_of w)) \<noteq> ''''" by (simp add: service_principal_state_simps)
    with Known show ?thesis by (simp add: what_to_delete_def belonging_def)
  qed (simp_all add: what_to_delete_def belonging_def)
  have released: "ensures env (\<lambda>a w'. a = (no_result, None) \<and> \<not> contains_finalizer (id_meta (record_of w')) ServicePrincipalFinalizer \<and>
      there w' = ps) (release_record x (record_of w)) w1" if "record_of w1 = record_of w" "there w1 = ps" for w1 ps
    unfolding release_record_def ensures.simps
    by (rule demands_mono [OF updates])
      (use that finalizers in \<open>auto simp: contains_finalizer_def finalizer_lists.removed ignore_not_found_def\<close>)
  have deleted: "ensures env (\<lambda>a w'. a = None \<and> record_of w' = record_of w \<and> there w' = {p \<in> there w. pr_id p \<noteq> sp})
      (delete_service_principal (Installed cfg) sp) w" for sp
    unfolding delete_service_principal_def by simp (rule demands_mono [OF deletes], auto split: option.split)
  have "ensures env ?Q (destroy_record x r (Installed cfg) (record_of w)) w"
    unfolding destroy_record_def using going(2)
    by simp (rule ensures_bind [OF decided], auto intro!: released ensures_bind [OF deleted])
  with going(1) show ?thesis
    unfolding reconcile_issued_def reconcile_record_def ensures.simps
    by (intro demands_mono [OF reads]) (auto intro!: demands_mono [OF slot])
qed

text \<open>A create was sent and nothing is to be found: the record is held.\<close>

lemma ensures_kept:
  assumes laws: "status_conditions (set_status_condition x) (find_status_condition x)"
    and token: "token_says x token issuer audience"
    and going: "om_deletion_timestamp (id_meta (record_of w)) \<noteq> None"
      "contains_finalizer (id_meta (record_of w)) ServicePrincipalFinalizer"
    and unfound: "service_principal_state (id_status (record_of w)) = Sent"
      "carriers (there w) (marker_for (issuing_for r (record_of w) issuer)) = {}"
  shows "ensures env (\<lambda>a w'. a = (requeue_after issuedRetryAfterAwaited, None) \<and>
      contains_finalizer (id_meta (record_of w')) ServicePrincipalFinalizer \<and> \<not> says_ready x (record_of w') \<and> there w' = there w)
    (reconcile_issued x r (object_key (id_meta (record_of w)))) w"
proof -
  have t: "trim_space (ig_issuer (issuing_for r (record_of w) issuer)) \<noteq> ''''"
    using token by (auto simp: token_says_def issuing_for_def)
  let ?Q = "\<lambda>a w'. a = (requeue_after issuedRetryAfterAwaited, None) \<and>
      contains_finalizer (id_meta (record_of w')) ServicePrincipalFinalizer \<and> \<not> says_ready x (record_of w') \<and> there w' = there w"
  have reported: "ensures env ?Q (report_ready x (record_of w) ConditionUnknown re m) w" for re m
    by (rule ensures_mono [OF ensures_reported [OF laws]])
      (use going(2) in \<open>auto simp: retry_after_for_def contains_finalizer_def\<close>)
  let ?R = "\<lambda>a w'. a = Inl (requeue_after issuedRetryAfterAwaited, None) \<and>
      contains_finalizer (id_meta (record_of w')) ServicePrincipalFinalizer \<and> \<not> says_ready x (record_of w') \<and> there w' = there w"
  have ended: "ensures env ?R (then_do (report_ready x (record_of w) ConditionUnknown re m) (\<lambda>end. Ret (Inl end))) w"
    for re m by (rule ensures_bind [OF reported]) simp
  have "ensures env ?R (what_to_delete x r (Installed cfg) (record_of w)) w"
    unfolding what_to_delete_def Let_def unfound(1) record_state.case
    by (rule ensures_bind [OF ensures_claims(2) [OF token]], simp del: ensures.simps,
        rule ensures_bind [OF ensures_none_found [OF unfound(2) t]], use ended in simp)
  then have "ensures env ?Q (destroy_record x r (Installed cfg) (record_of w)) w"
    unfolding destroy_record_def using going(2) by simp (erule ensures_bind, auto)
  with going(1) show ?thesis
    unfolding reconcile_issued_def reconcile_record_def ensures.simps
    by (intro demands_mono [OF reads]) (auto intro!: demands_mono [OF slot])
qed

end

section \<open>What a pass gets done\<close>

text \<open>C3: When the API server, Databricks, the token and the clock answer as documented, a pass over a record
  that is wanted, served and holds its finalizer comes to its end, wherever in the pass it has got to;
  at most one service principal carries the record's marker, and none where no create was recorded.
  If the record has nothing made yet, or the one it sent a create for or names is there, the pass ends with a
  token of the ServiceAccount exchangeable: the record is
  Known and Ready, its service principal is there, alone with its marker and under the client id the
  record says where it was made or found by it, its trust is written for the issuer, subject and audience in force, and the next look is the
  settled interval away; one whose service principal and trust stand changes nothing in Databricks.
  Otherwise, where a create was sent and nothing is to be found, or what the record names is gone
  or was found gone before, the pass changes nothing in Databricks, makes nothing in its place, leaves the record Sent
  or Gone and not Ready, and looks again after the shorter interval.\<close>
theorem converges_when_healthy:
  assumes "healthy_world policy_of serve env record_of there policies x r cfg owner account token"
    and "status_conditions (set_status_condition x) (find_status_condition x)"
    and "token_says x token issuer audience" and "lone r (there w) (record_of w) issuer"
    and "om_deletion_timestamp (id_meta (record_of w)) = None"
    and "contains_finalizer (id_meta (record_of w)) ServicePrincipalFinalizer"
    and "wanted_and_served x r owner account (record_of w)"
  shows "let pass = reconcile_issued x r (object_key (id_meta (record_of w)));
      state = service_principal_state (id_status (record_of w)); sp = it_service_principal_id (id_status (record_of w));
      marker = marker_for (issuing_for r (record_of w) issuer)
    in (\<forall>es w1. runs pass es \<and> traced env w es w1 \<longrightarrow> (\<exists>fs a w'. returns pass (es @ fs) a \<and> traced env w1 fs w')) \<and>
      (\<forall>es a w'. returns pass es a \<and> traced env w es w' \<longrightarrow> id_spec (record_of w') = id_spec (record_of w) \<and>
         (if state = Unsent \<or> state = Sent \<and> carriers (there w) marker \<noteq> {} \<or> state = Known \<and> sp \<in> pr_id ` there w
          then a = (requeue_after issuedRetryAfterSettled, None) \<and>
           exchangeable x (there w') (policy_of (policies w')) (record_of w') issuer audience \<and>
           (state \<noteq> Unsent \<longrightarrow> there w' = there w) \<and>
           (state \<noteq> Known \<longrightarrow> (\<exists>p. carriers (there w') marker = {p} \<and>
              pr_id p = it_service_principal_id (id_status (record_of w')) \<and>
              pr_application_id p = it_client_id (id_status (record_of w')) \<and> there w' = insert p (there w))) \<and>
           (state = Known \<longrightarrow> it_service_principal_id (id_status (record_of w')) = sp \<and>
              it_client_id (id_status (record_of w')) = it_client_id (id_status (record_of w)) \<and>
              (trust_stands x (policy_of (policies w)) sp issuer (ip_subject (id_spec (record_of w))) audience \<longrightarrow>
                 policies w' = policies w))
          else a = (requeue_after issuedRetryAfterAwaited, None) \<and> there w' = there w \<and> policies w' = policies w \<and>
            \<not> says_ready x (record_of w') \<and>
            service_principal_state (id_status (record_of w')) = (if state = Sent then Sent else Gone)))"
proof -
  let ?reach = "within_reach r (there w) (record_of w) issuer"
  let ?state = "service_principal_state (id_status (record_of w))" and ?marker = "marker_for (issuing_for r (record_of w) issuer)"
  let ?pass = "reconcile_issued x r (object_key (id_meta (record_of w)))" and ?sp = "it_service_principal_id (id_status (record_of w))"
  let ?ends = "\<lambda>a w'. id_spec (record_of w') = id_spec (record_of w) \<and>
      (if ?state = Unsent \<or> ?state = Sent \<and> carriers (there w) ?marker \<noteq> {} \<or> ?state = Known \<and> ?sp \<in> pr_id ` there w
       then a = (requeue_after issuedRetryAfterSettled, None) \<and>
         exchangeable x (there w') (policy_of (policies w')) (record_of w') issuer audience \<and>
         (?state \<noteq> Unsent \<longrightarrow> there w' = there w) \<and>
         (?state \<noteq> Known \<longrightarrow> (\<exists>p. carriers (there w') ?marker = {p} \<and>
            pr_id p = it_service_principal_id (id_status (record_of w')) \<and>
            pr_application_id p = it_client_id (id_status (record_of w')) \<and> there w' = insert p (there w))) \<and>
         (?state = Known \<longrightarrow> it_service_principal_id (id_status (record_of w')) = ?sp \<and>
            it_client_id (id_status (record_of w')) = it_client_id (id_status (record_of w)) \<and>
            (trust_stands x (policy_of (policies w)) ?sp issuer (ip_subject (id_spec (record_of w))) audience \<longrightarrow>
               policies w' = policies w))
       else a = (requeue_after issuedRetryAfterAwaited, None) \<and> there w' = there w \<and> policies w' = policies w \<and>
         \<not> says_ready x (record_of w') \<and>
         service_principal_state (id_status (record_of w')) = (if ?state = Sent then Sent else Gone))"
  have reach: "?reach \<longleftrightarrow> ?state = Unsent \<or> ?state = Sent \<and> carriers (there w) ?marker \<noteq> {} \<or>
      ?state = Known \<and> it_service_principal_id (id_status (record_of w)) \<in> pr_id ` there w"
    using assms(4) by (cases ?state) (auto simp: within_reach_def lone_def Let_def is_singleton_def)
  show ?thesis
  proof (cases ?reach)
    case True
    note sound = ensures_sound [OF healthy_world.ensures_reconciled [OF assms(1-3) True assms(5-7)]]
    show ?thesis
      unfolding Let_def
    proof (intro conjI)
      show "\<forall>es a w'. returns ?pass es a \<and> traced env w es w' \<longrightarrow> ?ends a w'"
      proof (intro allI impI)
        fix es a w' assume "returns ?pass es a \<and> traced env w es w'"
        with conjunct2 [OF sound] have "healthy_world.converged policy_of record_of there policies x r w issuer audience a w'" by blast
        then show "?ends a w'"
          unfolding if_P [OF True [unfolded reach]]
          by (simp add: healthy_world.converged_def [OF assms(1)] healthy_world.reached_def [OF assms(1)]
              healthy_world.trusted_def [OF assms(1)] Let_def)
      qed
    qed (rule conjunct1 [OF sound])
  next
    case False
    note sound = ensures_sound [OF healthy_world.ensures_wanted [OF assms(1,5-7)
          healthy_world.ensures_held_back [OF assms(1-4) False]]]
    show ?thesis
      unfolding Let_def
    proof (intro conjI)
      show "\<forall>es a w'. returns ?pass es a \<and> traced env w es w' \<longrightarrow> ?ends a w'"
      proof (intro allI impI)
        fix es a w' assume "returns ?pass es a \<and> traced env w es w'"
        with conjunct2 [OF sound] have "healthy_world.held_back record_of there policies x w a w'" by blast
        then show "?ends a w'"
          unfolding if_not_P [OF False [unfolded reach]] by (simp add: healthy_world.held_back_def [OF assms(1)])
      qed
    qed (rule conjunct1 [OF sound])
  qed
qed

text \<open>In the same world a pass over a record that was asked to go, from any point it has got to, comes to
  its end: the service principal that is the record's is deleted, and only it, then the finalizer is
  taken off, and nothing is asked to be looked at again. A record that sent a create has to find what
  was made.\<close>
theorem destroys_when_healthy:
  assumes "healthy_world policy_of serve env record_of there policies x r cfg owner account token"
    and "finalizer_lists (add_finalizer x) (remove_finalizer x)"
    and "token_says x token issuer audience"
    and "om_deletion_timestamp (id_meta (record_of w)) \<noteq> None"
    and "contains_finalizer (id_meta (record_of w)) ServicePrincipalFinalizer"
    and "service_principal_state (id_status (record_of w)) = Sent \<Longrightarrow>
      is_singleton (carriers (there w) (marker_for (issuing_for r (record_of w) issuer)))"
  shows "let pass = reconcile_issued x r (object_key (id_meta (record_of w)))
    in (\<forall>es w1. runs pass es \<and> traced env w es w1 \<longrightarrow> (\<exists>fs a w'. returns pass (es @ fs) a \<and> traced env w1 fs w')) \<and>
      (\<forall>es a w'. returns pass es a \<and> traced env w es w' \<longrightarrow> a = (no_result, None) \<and>
         \<not> contains_finalizer (id_meta (record_of w')) ServicePrincipalFinalizer \<and>
         there w' = {p \<in> there w. pr_id p \<notin> belonging r (there w) (record_of w) issuer})"
  using ensures_sound [OF healthy_world.ensures_destroyed [OF assms]] by (simp only: Let_def) blast

section \<open>Such a world, written out\<close>

text \<open>A service principal under a number.\<close>

definition numeric :: "principal \<Rightarrow> bool" where
  "numeric p \<longleftrightarrow> pr_id p \<noteq> '''' \<and> (case parse_int64 (quote ref_extern) (pr_id p) of Inl _ \<Rightarrow> False | Inr _ \<Rightarrow> True)"

record world =
  wo_record :: issued
  wo_account :: "principal list"
  wo_policies :: policy_store

definition wo_there :: "world \<Rightarrow> principal set" where
  "wo_there w = set (filter numeric (wo_account w))"

definition stored_again :: "issued \<Rightarrow> issued \<Rightarrow> issued" where
  "stored_again current obj = current\<lparr>id_status := id_status obj,
     id_meta := id_meta current\<lparr>om_resource_version := om_resource_version (id_meta current) @ ''0''\<rparr>\<rparr>"

definition released_again :: "issued \<Rightarrow> issued \<Rightarrow> issued" where
  "released_again current obj = current\<lparr>id_meta := id_meta current\<lparr>om_finalizers := om_finalizers (id_meta obj),
     om_resource_version := om_resource_version (id_meta current) @ ''0''\<rparr>\<rparr>"

definition marked_for_deletion :: "issued \<Rightarrow> issued" where
  "marked_for_deletion current = current\<lparr>id_meta := id_meta current\<lparr>om_deletion_timestamp := Some 9\<rparr>\<rparr>"

definition ex_namespace :: namespace_object where "ex_namespace = \<lparr>ns_meta = (ex_meta '''' ''team-a'')\<lparr>om_uid := ''n1''\<rparr>\<rparr>"

text \<open>Every request is answered; what the code does not ask of this record and account is answered anyhow.\<close>

fun ref_env :: "error + service_account \<Rightarrow> account \<Rightarrow> world \<Rightarrow> event \<Rightarrow> world \<Rightarrow> bool" where
  "ref_env owner account w (EIssued (GetIssued n) a) w' \<longleftrightarrow> w' = w \<and> (n = object_key (id_meta (wo_record w)) \<longrightarrow> a = Inr (wo_record w))"
| "ref_env owner account w (EIssued (UpdateIssuedStatus obj) a) w' \<longleftrightarrow>
     (if om_resource_version (id_meta obj) = om_resource_version (id_meta (wo_record w))
      then a = Inr (stored_again (wo_record w) obj) \<and> w' = w\<lparr>wo_record := stored_again (wo_record w) obj\<rparr>
      else w' = w \<and> (\<exists>err. a = Inl err))"
| "ref_env owner account w (EIssued (UpdateIssued obj) a) w' \<longleftrightarrow>
     (if om_resource_version (id_meta obj) = om_resource_version (id_meta (wo_record w))
      then a = Inr (released_again (wo_record w) obj) \<and> w' = w\<lparr>wo_record := released_again (wo_record w) obj\<rparr>
      else w' = w \<and> (\<exists>err. a = Inl err))"
| "ref_env owner account w (ESlot s) w' \<longleftrightarrow> w' = w \<and> s = ex_slot"
| "ref_env owner account w (EServiceAccount q a) w' \<longleftrightarrow> w' = w \<and> a = owner"
| "ref_env owner account w (EAccount q a) w' \<longleftrightarrow> w' = w \<and> a = Inr account"
| "ref_env owner account w (EFile path a) w' \<longleftrightarrow> w' = w \<and> a = Inr ex_token"
| "ref_env owner account w (EPrincipal cfg (CreatePrincipal d m active) a) w' \<longleftrightarrow>
     (\<exists>p. numeric p \<and> pr_external_id p = m \<and> pr_display_name p = d \<and> a = Inr p \<and>
        w' = w\<lparr>wo_account := p # wo_account w\<rparr>)"
| "ref_env owner account w (EPrincipal cfg (GetPrincipal sp) a) w' \<longleftrightarrow> w' = w \<and>
     (case a of Inr p \<Rightarrow> p \<in> wo_there w \<and> pr_id p = sp
      | Inl err \<Rightarrow> sp \<notin> pr_id ` wo_there w \<and> kind_of (Some err) = NotFound)"
| "ref_env owner account w (EPrincipals cfg f a) w' \<longleftrightarrow> w' = w \<and>
     (\<exists>ps. a = Inr ps \<and> distinct ps \<and> set ps \<subseteq> wo_there w \<and> (f = None \<longrightarrow> set ps = wo_there w))"
| "ref_env owner account w (ECall cfg (DeletePrincipal sp) failed) w' \<longleftrightarrow> failed = None \<and>
     w' = w\<lparr>wo_account := filter (\<lambda>p. pr_id p \<noteq> sp) (wo_account w)\<rparr>"
| "ref_env owner account w (EPolicy cfg q a) w' \<longleftrightarrow> a = fst (ref_serve (wo_policies w) q) \<and>
     w' = w\<lparr>wo_policies := snd (ref_serve (wo_policies w) q)\<rparr>"
| "ref_env owner account w (ENamespace n a) w' \<longleftrightarrow> w' = w \<and> a = Inr ex_namespace"
| "ref_env owner account w (EWrite (DeleteIssued obj) failed) w' \<longleftrightarrow> failed = None \<and> w' = w\<lparr>wo_record := marked_for_deletion (wo_record w)\<rparr>"
| "ref_env owner account w e w' \<longleftrightarrow> w' = w"

abbreviation ex_env :: "world \<Rightarrow> event \<Rightarrow> world \<Rightarrow> bool" where "ex_env \<equiv> ref_env (Inr ex_service_account) ex_account"

lemma not_found_error: "kind_of (Some (APIError (api_failure 404 ''gone''))) = NotFound"
  by code_simp

lemma numbered_seventeen: "numeric \<lparr>pr_id = ''17'', pr_application_id = ''app'', pr_external_id = m, pr_display_name = d\<rparr>"
  by (simp add: numeric_def parse_int64_17)

lemma ref_healthy: "healthy_world (\<lambda>s n pid. s n pid) ref_serve (ref_env owner account) wo_record wo_there wo_policies
    ref_extern ex_reconciler ex_config owner account ex_token"
proof unfold_locales
  fix w :: world and obj :: issued and n :: namespaced_name and d m sp :: string and active :: bool and f :: "string option"
    and q :: policy_request and p :: principal
  show "demands (ref_env owner account) (EIssued (GetIssued (object_key (id_meta (wo_record w))))) (\<lambda>a w'. a = Inr (wo_record w) \<and> w' = w) w"
    by (auto simp: demands_def)
  show "om_resource_version (id_meta obj) = om_resource_version (id_meta (wo_record w)) \<Longrightarrow>
      demands (ref_env owner account) (EIssued (UpdateIssuedStatus obj))
        (\<lambda>a w'. a = Inr (wo_record w') \<and> id_status (wo_record w') = id_status obj \<and>
           id_spec (wo_record w') = id_spec (wo_record w) \<and>
           om_finalizers (id_meta (wo_record w')) = om_finalizers (id_meta (wo_record w)) \<and>
           wo_there w' = wo_there w \<and> wo_policies w' = wo_policies w) w"
    by (auto simp: demands_def wo_there_def stored_again_def)
  show "om_resource_version (id_meta obj) = om_resource_version (id_meta (wo_record w)) \<Longrightarrow>
      demands (ref_env owner account) (EIssued (UpdateIssued obj))
        (\<lambda>a w'. a = Inr (wo_record w') \<and> om_finalizers (id_meta (wo_record w')) = om_finalizers (id_meta obj) \<and>
           wo_there w' = wo_there w) w"
    by (auto simp: demands_def wo_there_def released_again_def)
  show "demands (ref_env owner account) (EPrincipal ex_config (CreatePrincipal d m active))
      (\<lambda>a w'. wo_record w' = wo_record w \<and> wo_policies w' = wo_policies w \<and>
         (\<exists>p. a = Inr p \<and> pr_external_id p = m \<and> wo_there w' = insert p (wo_there w))) w"
    using numbered_seventeen [of m d] by (fastforce simp: demands_def wo_there_def)
  show "sp \<noteq> '''' \<Longrightarrow> demands (ref_env owner account) (EPrincipal ex_config (GetPrincipal sp))
      (\<lambda>a w'. w' = w \<and> (if sp \<in> pr_id ` wo_there w then \<exists>p. a = Inr p else \<exists>err. a = Inl err \<and> kind_of (Some err) = NotFound)) w"
  proof (cases "sp \<in> pr_id ` wo_there w")
    case True
    then obtain p where "p \<in> wo_there w" "pr_id p = sp" by blast
    then have "ref_env owner account w (EPrincipal ex_config (GetPrincipal sp) (Inr p)) w" by simp
    moreover have "w' = w \<and> (\<exists>p. a = Inr p)" if "ref_env owner account w (EPrincipal ex_config (GetPrincipal sp) a) w'" for a w'
      using that True by (auto split: sum.splits)
    ultimately show ?thesis unfolding if_P [OF True] demands_def by blast
  next
    case False
    then have "ref_env owner account w (EPrincipal ex_config (GetPrincipal sp) (Inl (APIError (api_failure 404 ''gone'')))) w"
      by (simp add: not_found_error)
    moreover have "w' = w \<and> (\<exists>err. a = Inl err \<and> kind_of (Some err) = NotFound)"
      if "ref_env owner account w (EPrincipal ex_config (GetPrincipal sp) a) w'" for a w'
      using that False by (auto split: sum.splits)
    ultimately show ?thesis unfolding if_not_P [OF False] demands_def by blast
  qed
  show "demands (ref_env owner account) (EPrincipals ex_config f)
      (\<lambda>a w'. w' = w \<and> (\<exists>ps. a = Inr ps \<and> distinct ps \<and> set ps \<subseteq> wo_there w \<and> (f = None \<longrightarrow> set ps = wo_there w))) w"
    by (auto simp: demands_def wo_there_def intro!: exI [of _ "Inr (remdups (filter numeric (wo_account w)))"]
        exI [of _ "remdups (filter numeric (wo_account w))"])
  show "demands (ref_env owner account) (ECall ex_config (DeletePrincipal sp))
      (\<lambda>a w'. wo_record w' = wo_record w \<and> wo_there w' = {p \<in> wo_there w. pr_id p \<noteq> sp} \<and>
         (\<forall>err. a = Some err \<longrightarrow> kind_of a = NotFound)) w"
    by (auto simp: demands_def wo_there_def)
  show "demands (ref_env owner account) (EPolicy ex_config q)
      (\<lambda>a w'. (a, wo_policies w') = ref_serve (wo_policies w) q \<and> wo_record w' = wo_record w \<and> wo_there w' = wo_there w) w"
    by (simp add: demands_def wo_there_def)
  show "p \<in> wo_there w \<Longrightarrow> pr_id p \<noteq> '''' \<and> (\<exists>n. parse_int64 (quote ref_extern) (pr_id p) = Inr n)"
    by (auto simp: wo_there_def numeric_def split: sum.splits)
qed (simp_all add: demands_def)

interpretation ref_world: healthy_world "\<lambda>s n pid. s n pid" ref_serve ex_env wo_record wo_there wo_policies
    ref_extern ex_reconciler ex_config "Inr ex_service_account" ex_account ex_token
  by (rule ref_healthy)

lemma ex_token_says: "token_says ref_extern ex_token ''a'' ''a''"
  using ex_issuer by (simp add: token_says_def ex_token_claims issuer_of_def)

lemma ex_wanted_and_served: "wanted_and_served ref_extern ex_reconciler (Inr ex_service_account) ex_account (ex_issued status)"
  by (simp add: wanted_and_served_def ex_wanted)

theorem converges_when_healthy_witness:
  "\<exists>es a w'. returns (reconcile_issued ref_extern ex_reconciler (object_key (id_meta (ex_issued ex_status)))) es a \<and>
     traced ex_env \<lparr>wo_record = ex_issued ex_status, wo_account = [], wo_policies = \<lambda>_ _. None\<rparr> es w' \<and>
     exchangeable ref_extern (wo_there w') (wo_policies w') (wo_record w') ''a'' ''a''"
proof -
  let ?w = "\<lparr>wo_record = ex_issued ex_status, wo_account = [], wo_policies = \<lambda>_ _. None\<rparr>"
  have laws: "status_conditions (set_status_condition ref_extern) (find_status_condition ref_extern)"
    using ref_conditions.status_conditions_axioms by simp
  have "service_principal_state ex_status = Unsent" by (simp add: ex_status_def service_principal_state_def)
  note unsent = this
  then have "lone ex_reconciler (wo_there ?w) (wo_record ?w) ''a''"
    by (simp add: lone_def wo_there_def carriers_def)
  note ends = converges_when_healthy [OF ref_world.healthy_world_axioms laws ex_token_says this, unfolded Let_def]
  have live: "om_deletion_timestamp (id_meta (wo_record ?w)) = None"
    "contains_finalizer (id_meta (wo_record ?w)) ServicePrincipalFinalizer" by simp_all
  have wanted: "wanted_and_served ref_extern ex_reconciler (Inr ex_service_account) ex_account (wo_record ?w)"
    by (simp add: ex_wanted_and_served)
  let ?pass = "reconcile_issued ref_extern ex_reconciler (object_key (id_meta (wo_record ?w)))"
  note ends = ends [OF live wanted]
  have "runs ?pass [] \<and> traced ex_env ?w [] ?w" by (simp add: runs_def)
  from mp [OF spec [OF spec [OF conjunct1 [OF ends]]] this] obtain es a w' where
    run: "returns ?pass es a" "traced ex_env ?w es w'" by auto
  from conjunct2 [OF ends, rule_format, OF conjI [OF run]] unsent
  have "exchangeable ref_extern (wo_there w') (wo_policies w') (wo_record w') ''a'' ''a''" by simp
  with run show ?thesis by (intro exI [of _ es] exI [of _ a] exI [of _ w'] conjI) simp_all
qed

end
