(* ===== verification/Profiles.thy ===== *)
theory Profiles
  imports Request ApiTypes
begin

text \<open>
  \<open>internal/webhook/profiles.go\<close>: the identities of a pod as the Databricks SDK's config file, one
  section per usable identity, and the path of each identity's token. Lemmas: the rendering is
  the sections joined by newlines, so that the section of each identity appears in it whole,
  and on the profile names this operator writes the paths are what \<open>path.Join\<close> was given and
  keep the identities apart.
\<close>

section \<open>Paths\<close>

definition TokenVolume :: string where "TokenVolume = ''databricks-token''"
definition TokenMountPath :: string where "TokenMountPath = ''/var/run/secrets/databricks''"
definition TokenFile :: string where "TokenFile = ''token''"

definition token_path_for :: "string \<Rightarrow> string" where
  "token_path_for profile = path_join [TokenMountPath, profile, TokenFile]"

definition token_projection_path_for :: "string \<Rightarrow> string" where
  "token_projection_path_for profile = path_join [profile, TokenFile]"

section \<open>The configuration\<close>

definition newline :: string where "newline = [CHR 0x0A]"

definition profile_section :: "projected_identity \<Rightarrow> string" where
  "profile_section i =
     ''['' @ pi_profile i @ '']'' @ newline @
     ''auth_type = file-oidc'' @ newline @
     ''client_id = '' @ pi_client_id i @ newline @
     ''databricks_id_token_filepath = '' @ token_path_for (pi_profile i) @ newline @
     ''oidc_token_filepath = '' @ token_path_for (pi_profile i) @ newline @
     ''audience = '' @ pi_audience i @ newline @
     ''token_audience = '' @ pi_audience i @ newline"

text \<open>The loop over the identities, on what has been rendered so far.\<close>

primrec render_profiles :: "string \<Rightarrow> projected_identity list \<Rightarrow> string" where
  "render_profiles rendered [] = rendered"
| "render_profiles rendered (i # is) =
     (if \<not> usable i then render_profiles rendered is
      else render_profiles ((if rendered \<noteq> '''' then rendered @ newline else rendered) @ profile_section i) is)"

definition profiles :: "projected_identity list \<Rightarrow> string" where
  "profiles identities = render_profiles '''' identities"

section \<open>The rendering\<close>

lemma profile_section_ne [simp]: "profile_section i \<noteq> ''''"
  by (simp add: profile_section_def)

lemma join_with_snoc:
  "xs \<noteq> [] \<Longrightarrow> join_with sep (xs @ [x]) = join_with sep xs @ sep @ x"
  by (induction sep xs rule: join_with.induct) auto

lemma join_with_ne: "list_all (\<lambda>x. x \<noteq> '''') xs \<Longrightarrow> join_with sep xs = '''' \<longleftrightarrow> xs = []"
  by (induction sep xs rule: join_with.induct) auto

lemma render_profiles_alt:
  "list_all (\<lambda>x. x \<noteq> '''') done \<Longrightarrow>
     render_profiles (join_with newline done) is = join_with newline (done @ map profile_section (filter usable is))"
proof (induction "is" arbitrary: "done")
  case (Cons i "is")
  have "render_profiles (join_with newline (done @ [profile_section i])) is =
      join_with newline (done @ map profile_section (filter usable (i # is)))" if "usable i"
    using Cons.IH [of "done @ [profile_section i]"] Cons.prems that by simp
  with Cons.IH [of "done"] Cons.prems show ?case
    by (cases "done = []") (auto simp: join_with_snoc join_with_ne)
qed simp

lemma profiles_alt: "profiles is = join_with newline (map profile_section (filter usable is))"
  using render_profiles_alt [of "[]"] by (simp add: profiles_def)

lemma profiles_one: "usable i \<Longrightarrow> profiles [i] = profile_section i"
  by (simp add: profiles_alt)

lemma sublist_join_with: "x \<in> set xs \<Longrightarrow> sublist x (join_with sep xs)"
proof (induction sep xs rule: join_with.induct)
  case (3 sep y z zs)
  then have "x = y \<or> sublist x (join_with sep (z # zs))" by auto
  then show ?case by (auto simp: sublist_append) 
qed simp_all

lemma section_in_profiles: "i \<in> set is \<Longrightarrow> usable i \<Longrightarrow> sublist (profile_section i) (profiles is)"
  by (simp add: profiles_alt sublist_join_with)

section \<open>Clean paths\<close>

definition clean_path :: "string \<Rightarrow> bool" where
  "clean_path p \<longleftrightarrow> list_all (\<lambda>s. s \<noteq> '''' \<and> s \<noteq> ''.'' \<and> s \<noteq> ''..'') (split_on (CHR ''/'') p)"

lemma clean_path_append:
  "clean_path (p @ CHR ''/'' # q) \<longleftrightarrow> clean_path p \<and> clean_path q"
  by (simp add: clean_path_def split_on_append)

lemma join_split: "join_with [c] (split_on c s) = s"
proof (induction s)
  case (Cons x s)
  then show ?case by (cases "split_on c s"; cases "tl (split_on c s)") auto
qed simp

lemma clean_segments_good:
  "list_all (\<lambda>s. s \<noteq> '''' \<and> s \<noteq> ''.'' \<and> s \<noteq> ''..'') ss \<Longrightarrow> clean_segments rooted out ss = rev out @ ss"
  by (induction ss arbitrary: out) auto

lemma clean_path_ne: "clean_path p \<Longrightarrow> p \<noteq> '''' \<and> hd p \<noteq> CHR ''/''"
  by (cases p) (auto simp: clean_path_def)

lemma path_clean_clean: "clean_path p \<Longrightarrow> path_clean p = p"
  using clean_path_ne [of p] join_split [of "CHR ''/''" p]
  by (simp add: path_clean_def Let_def clean_segments_good clean_path_def)

lemma path_clean_rooted: "clean_path p \<Longrightarrow> path_clean (CHR ''/'' # p) = CHR ''/'' # p"
  using join_split [of "CHR ''/''" p]
  by (simp add: path_clean_def Let_def clean_segments_good clean_path_def)

lemma token_projection_path_clean:
  assumes "clean_path p"
  shows "token_projection_path_for p = p @ ''/token''"
proof -
  have "clean_path ''token''" by (simp add: clean_path_def)
  with assms have "clean_path (p @ CHR ''/'' # ''token'')" by (simp add: clean_path_append)
  with clean_path_ne [OF assms] show ?thesis
    by (simp add: token_projection_path_for_def path_join_def TokenFile_def path_clean_clean)
qed

lemma token_path_clean:
  assumes "clean_path p"
  shows "token_path_for p = TokenMountPath @ ''/'' @ p @ ''/token''"
proof -
  have "clean_path ''token''" "clean_path ''var/run/secrets/databricks''" by (simp_all add: clean_path_def)
  with assms have "clean_path (''var/run/secrets/databricks'' @ CHR ''/'' # p @ CHR ''/'' # ''token'')"
    unfolding clean_path_append by simp
  with clean_path_ne [OF assms] path_clean_rooted [OF this] show ?thesis
    by (simp add: token_path_for_def path_join_def TokenMountPath_def TokenFile_def)
qed

lemma dns_word_clean: "dns_word s \<Longrightarrow> clean_path s"
  using dns_word_no_sep [of s] by (auto simp: clean_path_def dns_word_def)

lemma subdomain_clean: "rfc1123_subdomain s \<Longrightarrow> clean_path s"
  using subdomain_no_slash [of s] by (auto simp: clean_path_def rfc1123_subdomain_def dns_word_def)

text \<open>The profile names this operator writes: a valid identity name, or its own reference.\<close>

definition profile_name :: "string \<Rightarrow> bool" where
  "profile_name p \<longleftrightarrow> (\<exists>key. valid_identity_name key p = None) \<or>
     (\<exists>n. p = nn_string n \<and> rfc1123_label (nn_namespace n) \<and> rfc1123_subdomain (nn_name n))"

lemma profile_name_clean: "profile_name p \<Longrightarrow> clean_path p"
  unfolding profile_name_def
  by (auto simp: valid_identity_name_None nn_string_def clean_path_append rfc1123_label_def
      intro: dns_word_clean subdomain_clean)

text \<open>Under every profile name this operator writes, the token is projected to that name with one segment
  more, the path in the profile is the same under the mount, and two names never share a file.\<close>
theorem token_paths_apart:
  assumes "profile_name p" "profile_name q"
  shows "token_projection_path_for p = p @ ''/token'' \<and>
    token_path_for p = TokenMountPath @ ''/'' @ token_projection_path_for p \<and>
    (token_projection_path_for p = token_projection_path_for q \<longleftrightarrow> p = q)"
  using assms by (simp add: token_projection_path_clean token_path_clean profile_name_clean)

theorem token_paths_apart_witness:
  "token_path_for ''ops/acc'' = ''/var/run/secrets/databricks/ops/acc/token'' \<and>
   token_projection_path_for ''reader'' \<noteq> token_projection_path_for ''ops/acc''"
proof -
  have s: "rfc1123_label ''ops'' \<and> rfc1123_subdomain ''acc''" by code_simp
  have r: "valid_identity_name ''k'' ''reader'' = None" by code_simp
  have "profile_name ''ops/acc''" unfolding profile_name_def
    using s by (intro disjI2 exI [of _ "\<lparr>nn_namespace = ''ops'', nn_name = ''acc''\<rparr>"]) (simp add: nn_string_def)
  moreover have "profile_name ''reader''" unfolding profile_name_def using r by blast
  ultimately have "token_path_for ''ops/acc'' = TokenMountPath @ ''/'' @ ''ops/acc'' @ ''/token''"
    and p: "token_projection_path_for ''ops/acc'' \<noteq> token_projection_path_for ''reader''"
    using token_paths_apart [of "''ops/acc''" "''reader''"] by (metis append.assoc, auto)
  then show ?thesis unfolding TokenMountPath_def by (metis append.assoc append_Cons append_Nil)
qed

end
