(* ===== verification/PodToken.thy ===== *)
theory PodToken
  imports Profiles Effects
begin

text \<open>
  \<open>internal/webhook/podtoken.go\<close>, the mutating webhook that equips pods. The admission request is
  the decoder's answer and the request's namespace, and the argument \<open>marshals\<close> says whether encoding
  the changed pod, or making the patch of it, fails: either is answered with a 500.
  Lemmas: what is added is appended and nothing that was there changes, in a pod with no volume, mount path
  or variable twice there is still none, and the pod is admitted whatever the identity's read
  answers.
\<close>

definition Path :: string where "Path = ''/mutate-v1-pod''"
definition ConfigFile :: string where "ConfigFile = ''config''"
definition ConfigAnnotation :: string where "ConfigAnnotation = ''databricks.workload-identity.io/config''"
definition EnvConfigFile :: string where "EnvConfigFile = ''WORKLOAD_IDENTITY_DATABRICKS_CONFIG_FILE''"
definition EnvConfigProfile :: string where "EnvConfigProfile = ''WORKLOAD_IDENTITY_DATABRICKS_CONFIG_PROFILE''"
definition tokenExpirationSeconds :: int where "tokenExpirationSeconds = 3600"

definition configFieldPath :: string where
  "configFieldPath = ''metadata.annotations['' @ [CHR 0x27] @ ConfigAnnotation @ [CHR 0x27] @ '']''"

section \<open>Equipping a pod\<close>

fun has_volume :: "volume list \<Rightarrow> string \<Rightarrow> bool" where
  "has_volume [] name = False"
| "has_volume (v # vs) name = (if vol_name v = name then True else has_volume vs name)"

fun has_mount_path :: "volume_mount list \<Rightarrow> string \<Rightarrow> bool" where
  "has_mount_path [] at = False"
| "has_mount_path (m # ms) at = (if vm_mount_path m = at then True else has_mount_path ms at)"

definition with_annotation :: "go_map \<Rightarrow> string \<Rightarrow> string \<Rightarrow> go_map" where
  "with_annotation annotations name value =
     (case map_of annotations name of None \<Rightarrow> annotations @ [(name, value)] | Some _ \<Rightarrow> annotations)"

fun env_has :: "env_var list \<Rightarrow> string \<Rightarrow> bool" where
  "env_has [] name = False"
| "env_has (e # es) name = (if ev_name e = name then True else env_has es name)"

definition set_env :: "string \<Rightarrow> string \<Rightarrow> container \<Rightarrow> container" where
  "set_env name value c =
     (if env_has (co_env c) name then c
      else c\<lparr>co_env := co_env c @ [\<lparr>ev_name = name, ev_value = value, ev_rest = ''''\<rparr>]\<rparr>)"

definition equip :: "string \<Rightarrow> container \<Rightarrow> container" where
  "equip default_profile c =
     (if has_mount_path (co_mounts c) TokenMountPath then c
      else (let c = c\<lparr>co_mounts := co_mounts c @
                  [\<lparr>vm_name = TokenVolume, vm_mount_path = TokenMountPath, vm_read_only = True, vm_rest = ''''\<rparr>]\<rparr>;
                c = set_env EnvConfigFile (path_join [TokenMountPath, ConfigFile]) c
            in set_env EnvConfigProfile default_profile c))"

definition token_source :: "projected_identity \<Rightarrow> projection" where
  "token_source i =
     \<lparr>src_token = Some \<lparr>tp_path = token_projection_path_for (pi_profile i), tp_audience = pi_audience i,
        tp_expiration_seconds = Some tokenExpirationSeconds\<rparr>, src_downward = None, src_rest = ''''\<rparr>"

definition config_source :: projection where
  "config_source =
     \<lparr>src_token = None, src_downward = Some [\<lparr>di_path = ConfigFile, di_field_path = configFieldPath\<rparr>], src_rest = ''''\<rparr>"

text \<open>\<open>inject\<close>; its one caller gives it at least one identity, which \<open>identities[0]\<close> relies on.\<close>

definition inject :: "pod \<Rightarrow> projected_identity list \<Rightarrow> pod" where
  "inject pod identities =
     (if has_volume (pod_volumes pod) TokenVolume then pod
      else (let sources = map token_source identities;
                pod = pod\<lparr>pod_meta := pod_meta pod\<lparr>om_annotations :=
                  with_annotation (om_annotations (pod_meta pod)) ConfigAnnotation (profiles identities)\<rparr>\<rparr>;
                sources = sources @ [config_source];
                pod = pod\<lparr>pod_volumes := pod_volumes pod @
                  [\<lparr>vol_name = TokenVolume, vol_projected = Some sources, vol_rest = ''''\<rparr>]\<rparr>;
                default_profile = pi_profile (hd identities)
            in pod\<lparr>pod_init_containers := map (equip default_profile) (pod_init_containers pod),
                   pod_containers := map (equip default_profile) (pod_containers pod)\<rparr>))"

section \<open>The handler\<close>

datatype admission = Allowed string | Forbidden string | Errored int error | Patched pod

definition no_identity :: string where "no_identity = ''no Databricks identity for this ServiceAccount''"
definition no_identity_yet :: string where "no_identity_yet = ''no Databricks identity for this ServiceAccount yet''"

definition unread_identity :: "extern \<Rightarrow> error \<Rightarrow> string" where
  "unread_identity x err = ''could not read the Databricks identity: '' @ error_string (quote x) err"

definition pod_handle ::
  "extern \<Rightarrow> (pod \<Rightarrow> error option) \<Rightarrow> error + pod \<Rightarrow> string \<Rightarrow> admission prog" where
  "pod_handle x marshals decoded request_namespace =
     (case decoded of
        Inl err \<Rightarrow> Ret (Errored 400 err)
      | Inr pod \<Rightarrow>
          (let namespace = (if request_namespace = '''' then om_namespace (pod_meta pod) else request_namespace);
               service_account = (if pod_service_account_name pod = '''' then ''default'' else pod_service_account_name pod)
           in AskIdentities (GetIdentities \<lparr>nn_namespace = namespace, nn_name = service_account\<rparr>) (\<lambda>reply.
                (case reply of
                   Inl err \<Rightarrow>
                     if is_not_found err then Ret (Allowed no_identity)
                     else Ret (Allowed (unread_identity x err))
                 | Inr found \<Rightarrow>
                     (let ready = filter usable (da_identities found)
                      in if ready = [] then Ret (Allowed no_identity_yet)
                         else (let pod = inject pod ready
                               in case marshals pod of
                                    Some err \<Rightarrow> Ret (Errored 500 err)
                                  | None \<Rightarrow> Ret (Patched pod)))))))"

section \<open>Nothing that was there changes\<close>

lemma has_volume_iff: "has_volume vs name \<longleftrightarrow> name \<in> vol_name ` set vs"
  by (induction vs) auto

lemma has_mount_path_iff: "has_mount_path ms at \<longleftrightarrow> at \<in> vm_mount_path ` set ms"
  by (induction ms) auto

lemma env_has_iff: "env_has es name \<longleftrightarrow> name \<in> ev_name ` set es"
  by (induction es) auto

text \<open>What a container holds after being equipped: all it held, and more after it.\<close>

definition extends :: "container \<Rightarrow> container \<Rightarrow> bool" where
  "extends c d \<longleftrightarrow> co_name d = co_name c \<and> co_rest d = co_rest c \<and>
     prefix (co_env c) (co_env d) \<and> prefix (co_mounts c) (co_mounts d)"

lemma extends_refl [simp]: "extends c c"
  by (simp add: extends_def)

lemma extends_trans: "extends a b \<Longrightarrow> extends b c \<Longrightarrow> extends a c"
  by (auto simp: extends_def)

lemma set_env_extends: "extends c (set_env name value c)"
  by (simp add: extends_def set_env_def)

lemma equip_extends: "extends c (equip p c)"
proof -
  have "extends c (c\<lparr>co_mounts := co_mounts c @ [m]\<rparr>)" for m by (simp add: extends_def)
  then show ?thesis
    by (auto simp: equip_def Let_def intro!: extends_trans [OF extends_trans [OF _ set_env_extends] set_env_extends])
qed

text \<open>No volume of a pod and no mount path of a container occurs twice, which the API server asks for, and no variable
  of a container either, which it does not: of two of one name the later one would be the one in force.\<close>

definition container_valid :: "container \<Rightarrow> bool" where
  "container_valid c \<longleftrightarrow> distinct (map vm_mount_path (co_mounts c)) \<and> distinct (map ev_name (co_env c))"

definition pod_valid :: "pod \<Rightarrow> bool" where
  "pod_valid p \<longleftrightarrow> distinct (map vol_name (pod_volumes p)) \<and>
     list_all container_valid (pod_init_containers p) \<and> list_all container_valid (pod_containers p)"

lemma set_env_valid: "container_valid c \<Longrightarrow> container_valid (set_env name value c)"
  by (auto simp: container_valid_def set_env_def env_has_iff)

lemma equip_valid: "container_valid c \<Longrightarrow> container_valid (equip p c)"
  unfolding equip_def Let_def
  by (auto intro!: set_env_valid) (auto simp: container_valid_def has_mount_path_iff)

lemma inject_taken: "has_volume (pod_volumes p) TokenVolume \<Longrightarrow> inject p is = p"
  by (simp add: inject_def)

lemma inject_volumes:
  "\<not> has_volume (pod_volumes p) TokenVolume \<Longrightarrow> pod_volumes (inject p is) =
     pod_volumes p @ [\<lparr>vol_name = TokenVolume, vol_projected = Some (map token_source is @ [config_source]), vol_rest = ''''\<rparr>]"
  by (simp add: inject_def Let_def)

lemma inject_has_volume: "has_volume (pod_volumes (inject p is)) TokenVolume"
  by (cases "has_volume (pod_volumes p) TokenVolume") (simp_all add: inject_taken inject_volumes has_volume_iff)

lemma map_of_with_annotation:
  "map_of (with_annotation m name value) k =
     (if k = name \<and> map_of m name = None then Some value else map_of m k)"
  by (auto simp: with_annotation_def map_add_def split: option.splits)

text \<open>C35: Equipping a pod only adds: every volume, annotation, variable and mount that was there is there
  still, in the same place and with the same value, and nothing else of the pod changes; a pod
  that already has a volume of the token's name is not touched, so equipping twice is equipping
  once.\<close>
theorem inject_only_adds:
  "prefix (pod_volumes p) (pod_volumes (inject p is)) \<and>
   list_all2 extends (pod_containers p) (pod_containers (inject p is)) \<and>
   list_all2 extends (pod_init_containers p) (pod_init_containers (inject p is)) \<and>
   map_of (om_annotations (pod_meta p)) \<subseteq>\<^sub>m map_of (om_annotations (pod_meta (inject p is))) \<and>
   set (map fst (om_annotations (pod_meta (inject p is)))) \<subseteq> insert ConfigAnnotation (set (map fst (om_annotations (pod_meta p)))) \<and>
   (inject p is)\<lparr>pod_volumes := pod_volumes p, pod_containers := pod_containers p,
     pod_init_containers := pod_init_containers p,
     pod_meta := pod_meta (inject p is)\<lparr>om_annotations := om_annotations (pod_meta p)\<rparr>\<rparr> = p \<and>
   inject (inject p is) js = inject p is"
proof (cases "has_volume (pod_volumes p) TokenVolume")
  case True
  then show ?thesis by (simp add: inject_taken list_all2_refl map_le_refl subset_insertI)
next
  case False
  have "list_all2 extends cs (map (equip d) cs)" for cs d
    by (simp add: list_all2_map2 list_all2_refl equip_extends)
  then have more: "list_all2 extends (pod_containers p) (pod_containers (inject p is))"
    "list_all2 extends (pod_init_containers p) (pod_init_containers (inject p is))"
    using False by (simp_all add: inject_def Let_def)
  have "om_annotations (pod_meta (inject p is)) =
      with_annotation (om_annotations (pod_meta p)) ConfigAnnotation (profiles is)"
    using False by (simp add: inject_def Let_def)
  then have "map_of (om_annotations (pod_meta p)) \<subseteq>\<^sub>m map_of (om_annotations (pod_meta (inject p is)))"
    "set (map fst (om_annotations (pod_meta (inject p is)))) \<subseteq> insert ConfigAnnotation (set (map fst (om_annotations (pod_meta p))))"
    by (auto simp: map_le_def map_of_with_annotation)
      (auto simp: with_annotation_def image_iff split: option.splits)
  moreover have "(inject p is)\<lparr>pod_volumes := pod_volumes p, pod_containers := pod_containers p,
     pod_init_containers := pod_init_containers p,
     pod_meta := pod_meta (inject p is)\<lparr>om_annotations := om_annotations (pod_meta p)\<rparr>\<rparr> = p"
    using False by (simp add: inject_def Let_def)
  ultimately show ?thesis
    using more False by (simp add: inject_taken [OF inject_has_volume] inject_volumes)
qed

text \<open>C36: A pod in which no volume name, no mount path of a container and no variable of a container occurs
  twice is still one after being equipped: the webhook makes no pod uncreatable by adding to it, and shadows none of
  its variables.\<close>
theorem inject_keeps_valid:
  assumes "pod_valid p"
  shows "pod_valid (inject p is)"
proof (cases "has_volume (pod_volumes p) TokenVolume")
  case False
  then have "distinct (map vol_name (pod_volumes (inject p is)))"
    using assms by (simp add: inject_volumes pod_valid_def has_volume_iff)
  with assms show ?thesis
    by (auto simp: pod_valid_def inject_def Let_def list_all_iff equip_valid)
qed (simp add: inject_taken assms)

definition ex_container :: container where
  "ex_container = \<lparr>co_name = ''main'', co_env = [\<lparr>ev_name = ''A'', ev_value = ''1'', ev_rest = ''''\<rparr>], co_mounts = [], co_rest = ''image''\<rparr>"

definition ex_pod :: pod where
  "ex_pod = \<lparr>pod_meta = \<lparr>om_namespace = ''team-a'', om_name = ''etl-1'', om_uid = ''u'', om_resource_version = '''',
       om_generation = 1, om_deletion_timestamp = None, om_finalizers = [], om_labels = [], om_annotations = []\<rparr>,
     pod_service_account_name = ''etl'', pod_volumes = [], pod_init_containers = [], pod_containers = [ex_container],
     pod_phase = PodPending, pod_rest = ''''\<rparr>"

definition ex_identity :: projected_identity where
  "ex_identity = \<lparr>pi_profile = ''ops/acc'', pi_operator = ''ops/acc'', pi_issued = ''ops/r'', pi_service_principal_id = ''17'',
     pi_account_id = ''dbx-1'', pi_client_id = ''app'', pi_removed_at = None, pi_subject = ''s'', pi_audience = ''a'',
     pi_conditions = []\<rparr>"

lemma ex_identity_usable [simp]: "usable ex_identity"
  by (simp add: usable_def ex_identity_def)

theorem inject_keeps_valid_witness: "pod_valid (inject ex_pod [ex_identity])"
  by (rule inject_keeps_valid) (simp add: pod_valid_def ex_pod_def ex_container_def container_valid_def)

text \<open>Whatever reading the identity answers, the pod is admitted: it is refused only where the request
  cannot be decoded or the pod cannot be encoded. It is changed only by equipping it with the
  usable ones of the identities that were read, in their order, and then with at least one.\<close>
theorem pod_always_admitted:
  assumes "returns (pod_handle x marshals (Inr p) ns) es r"
  shows "(\<exists>err. r = Errored 500 err \<and> (\<exists>q. marshals q = Some err)) \<or> (\<exists>why. r = Allowed why) \<or>
    (\<exists>i is. r = Patched (inject p (i # is)) \<and> usable i \<and> list_all usable is \<and>
       (\<exists>name found. es = [EIdentities (GetIdentities name) (Inr found)] \<and>
          i # is = filter usable (da_identities found)))"
proof -
  let ?ready = "\<lambda>found. filter usable (da_identities found)"
  from assms obtain name reply where es: "es = [EIdentities (GetIdentities name) reply]"
    and "(\<exists>why. r = Allowed why) \<or> (\<exists>found. reply = Inr found \<and> ?ready found \<noteq> [] \<and>
      ((\<exists>err. marshals (inject p (?ready found)) = Some err \<and> r = Errored 500 err) \<or>
       marshals (inject p (?ready found)) = None \<and> r = Patched (inject p (?ready found))))"
    unfolding pod_handle_def Let_def returns_simps sum.case returns_branches by blast
  then consider "\<exists>why. r = Allowed why" | err where "r = Errored 500 err" "\<exists>q. marshals q = Some err"
    | found where "reply = Inr found" "?ready found \<noteq> []" "r = Patched (inject p (?ready found))" by blast
  then show ?thesis
  proof cases
    case 3
    then obtain i "is" where i: "?ready found = i # is" by (meson neq_Nil_conv)
    then have "set (i # is) \<subseteq> Collect usable" by (metis inf_le2 set_filter Collect_conj_eq)
    then have "usable i" "list_all usable is" by (auto simp: list_all_iff)
    with 3 i es show ?thesis by simp
  qed simp_all
qed

definition ex_database :: databricks_service_account where
  "ex_database = \<lparr>da_meta = pod_meta ex_pod, da_identities = [ex_identity]\<rparr>"

end
