(* ===== verification/ServiceAccountController.thy ===== *)
theory ServiceAccountController
  imports PodToken Destruction Naming
begin

text \<open>
  \<open>internal/controller/databricksserviceaccount_controller.go\<close>: the reconcile of the object that shows
  a ServiceAccount's owner what this operator issued to it, and the one decision in it, whether
  a record is written at all. The operator is its DatabricksAccount's name \<open>account\<close>. Pods are
  read through the cache, so trimmed as \<open>podcache.go\<close> trims them; logs are not modelled, and
  \<open>SetControllerReference\<close> on the new object is part of the create's request.
\<close>

definition servicePrincipalRetryAfterAwaited :: duration where "servicePrincipalRetryAfterAwaited = minute"
definition servicePrincipalRetryAfterSettled :: duration where "servicePrincipalRetryAfterSettled = minute"

section \<open>What the pods carry\<close>

definition service_account_of :: "pod \<Rightarrow> string" where
  "service_account_of pod = (if pod_service_account_name pod = '''' then ''default'' else pod_service_account_name pod)"

fun first_token :: "projection list \<Rightarrow> string \<Rightarrow> string option" where
  "first_token [] wanted = None"
| "first_token (s # ss) wanted =
     (case src_token s of
        Some t \<Rightarrow> if tp_path t = wanted then Some (tp_audience t) else first_token ss wanted
      | None \<Rightarrow> first_token ss wanted)"

fun token_in_volumes :: "volume list \<Rightarrow> string \<Rightarrow> string option" where
  "token_in_volumes [] wanted = None"
| "token_in_volumes (v # vs) wanted =
     (if vol_name v \<noteq> TokenVolume then token_in_volumes vs wanted
      else (case vol_projected v of
          None \<Rightarrow> token_in_volumes vs wanted
        | Some sources \<Rightarrow>
            (case first_token sources wanted of
               Some audience \<Rightarrow> Some audience
             | None \<Rightarrow> token_in_volumes vs wanted)))"

definition token_audience_of :: "pod \<Rightarrow> string \<Rightarrow> string \<times> bool" where
  "token_audience_of pod profile =
     (case token_in_volumes (pod_volumes pod) (token_projection_path_for profile) of
        None \<Rightarrow> ('''', False)
      | Some audience \<Rightarrow> (audience, True))"

definition describes :: "pod \<Rightarrow> projected_identity \<Rightarrow> bool" where
  "describes pod entry =
     (if \<not> usable entry then False
      else sublist (profiles [entry]) (map_get (om_annotations (pod_meta pod)) ConfigAnnotation))"

text \<open>The loop over the pods: which of the three lists one is put on, if any.\<close>

datatype shortfall = NoToken | WrongAudience | Stale

definition shortfall_of :: "service_account \<Rightarrow> projected_identity \<Rightarrow> pod \<Rightarrow> shortfall option" where
  "shortfall_of sa entry pod =
     (if service_account_of pod \<noteq> om_name (sa_meta sa) \<or> om_deletion_timestamp (pod_meta pod) \<noteq> None then None
      else if pod_phase pod = PodSucceeded \<or> pod_phase pod = PodFailed then None
      else (let (minted, carries) = token_audience_of pod (pi_profile entry)
            in if \<not> carries then Some NoToken
               else if minted \<noteq> pi_audience entry then Some WrongAudience
               else if \<not> describes pod entry then Some Stale
               else None))"

definition short_of :: "shortfall \<Rightarrow> service_account \<Rightarrow> projected_identity \<Rightarrow> pod list \<Rightarrow> string list" where
  "short_of s sa entry pods = sort (map (\<lambda>p. om_name (pod_meta p)) (filter (\<lambda>p. shortfall_of sa entry p = Some s) pods))"

section \<open>Messages\<close>

definition count :: "string list \<Rightarrow> string" where
  "count names = show_nat (length names)"

definition no_token_injecting :: "string list \<Rightarrow> string" where
  "no_token_injecting names =
     count names @ '' pod(s) are running without this identity'' @ [CHR 0x27] @ ''s Databricks token: '' @
     join_with '', '' names @ ''. A pod is admitted without one when the webhook could not answer, when this identity '' @
     ''had no client id yet, or when the pod already carried a volume named '' @ TokenVolume @
     '', which this operator does not overwrite; recreating the pod answers the first two and not the third''"

definition no_token_not_injecting :: "string \<Rightarrow> string list \<Rightarrow> string" where
  "no_token_not_injecting namespace names =
     count names @ '' pod(s) are running without the Databricks token, and namespace '' @ namespace @
     '' does not carry '' @ InjectLabel @ ''='' @ Enabled @
     '', so no pod created here is given one. Recreating them changes nothing until that label is set: '' @
     join_with '', '' names"

definition wrong_audience_said :: "string list \<Rightarrow> string" where
  "wrong_audience_said names =
     count names @ '' pod(s) carry a token minted for another audience, which Databricks will not accept whatever '' @
     ''else is right; they were created before this identity knew its own, and recreating them is what fixes it: '' @
     join_with '', '' names"

definition stale_said :: "projected_identity \<Rightarrow> string list \<Rightarrow> string" where
  "stale_said entry names =
     (if \<not> usable entry then
        count names @ '' pod(s) carry a profile for an identity that can no longer be exchanged for anything, so '' @
        ''nothing they hold reaches Databricks; Ready says why and what starts a new identity: '' @ join_with '', '' names
      else
        count names @ '' pod(s) carry this identity'' @ [CHR 0x27] @ ''s token and a configuration written before it said '' @
        ''what it says now; they were created earlier, and recreating them is what fixes it: '' @ join_with '', '' names)"

section \<open>Equipment\<close>

definition reports :: "string list \<Rightarrow> projected_identity \<Rightarrow> string list \<Rightarrow> string list \<Rightarrow> outcome" where
  "reports said entry wrong stale =
     (let said = said @ (if wrong \<noteq> [] then [wrong_audience_said wrong] else []);
          said = said @ (if stale \<noteq> [] then [stale_said entry stale] else [])
      in \<lparr>oc_status = ConditionFalse, oc_reason = reasonNotEquipped, oc_message = join_with ''. '' said, oc_err = None\<rparr>)"

definition equipment :: "service_account \<Rightarrow> projected_identity \<Rightarrow> (error + outcome) prog" where
  "equipment sa entry =
     AskPods (om_namespace (sa_meta sa)) (\<lambda>reply.
       (case reply of
          Inl err \<Rightarrow> Ret (Inl err)
        | Inr pods \<Rightarrow>
            (let no_token = short_of NoToken sa entry pods;
                 wrong = short_of WrongAudience sa entry pods;
                 stale = short_of Stale sa entry pods
             in if no_token = [] \<and> wrong = [] \<and> stale = [] then
                  Ret (Inr \<lparr>oc_status = ConditionTrue, oc_reason = reasonEquipped,
                    oc_message = ''every pod under this ServiceAccount carries what it needs to reach Databricks'',
                    oc_err = None\<rparr>)
                else if no_token = [] then Ret (Inr (reports [] entry wrong stale))
                else then_do (injecting (om_namespace (sa_meta sa))) (\<lambda>reply.
                  (case reply of
                     Inl err \<Rightarrow> Ret (Inl err)
                   | Inr True \<Rightarrow> Ret (Inr (reports [no_token_injecting no_token] entry wrong stale))
                   | Inr False \<Rightarrow>
                       Ret (Inr (reports [no_token_not_injecting (om_namespace (sa_meta sa)) no_token] entry wrong stale)))))))"

section \<open>The record\<close>

definition record_key :: "namespaced_name \<Rightarrow> service_account \<Rightarrow> string \<Rightarrow> namespaced_name" where
  "record_key account sa identity =
     \<lparr>nn_namespace = nn_namespace account,
      nn_name = issued_name_for (om_namespace (sa_meta sa)) (om_name (sa_meta sa)) identity (om_uid (sa_meta sa))\<rparr>"

definition issued_for :: "namespaced_name \<Rightarrow> service_account \<Rightarrow> string \<Rightarrow> (error + issued option) prog" where
  "issued_for account sa identity =
     AskIssued (GetIssued (record_key account sa identity)) (\<lambda>reply.
       (case reply of
          Inl err \<Rightarrow> if is_not_found err then Ret (Inr None) else Ret (Inl err)
        | Inr issued \<Rightarrow> Ret (Inr (Some issued))))"

definition new_record :: "namespaced_name \<Rightarrow> service_account \<Rightarrow> request \<Rightarrow> namespace_object \<Rightarrow> issued" where
  "new_record account sa request namespace =
     \<lparr>id_meta = \<lparr>om_namespace = nn_namespace account,
        om_name = issued_name_for (om_namespace (sa_meta sa)) (om_name (sa_meta sa)) (req_name request) (om_uid (sa_meta sa)),
        om_uid = '''', om_resource_version = '''', om_generation = 0, om_deletion_timestamp = None,
        om_finalizers = [ServicePrincipalFinalizer], om_labels = [], om_annotations = []\<rparr>,
      id_spec = \<lparr>ip_subject = subject_for (om_namespace (sa_meta sa)) (om_name (sa_meta sa)),
        ip_service_account = \<lparr>is_namespace = om_namespace (sa_meta sa), is_name = om_name (sa_meta sa),
          is_uid = om_uid (sa_meta sa), is_namespace_uid = om_uid (ns_meta namespace)\<rparr>,
        ip_identity = req_name request\<rparr>,
      id_status = \<lparr>it_account_id = '''', it_create_sent_at = None, it_service_principal_id = '''', it_client_id = '''',
        it_issuer = '''', it_audience = '''', it_removed_at = None, it_conditions = []\<rparr>\<rparr>"

definition not_in_cache_yet :: "service_account \<Rightarrow> string \<Rightarrow> error" where
  "not_in_cache_yet sa name =
     ErrorText (''record '' @ name @ '' for '' @ om_namespace (sa_meta sa) @ ''/'' @ om_name (sa_meta sa) @
       '' exists and has not reached this operator'' @ [CHR 0x27] @ ''s cache yet'')"

definition issue_record :: "namespaced_name \<Rightarrow> service_account \<Rightarrow> request \<Rightarrow> (error + issued) prog" where
  "issue_record account sa request =
     AskNamespace (om_namespace (sa_meta sa)) (\<lambda>reply.
       (case reply of
          Inl err \<Rightarrow> Ret (Inl err)
        | Inr namespace \<Rightarrow>
            (let record = new_record account sa request namespace
             in AskIssued (CreateIssued record) (\<lambda>reply.
                  (case reply of
                     Inr made \<Rightarrow> Ret (Inr made)
                   | Inl err \<Rightarrow>
                       if \<not> is_already_exists err then Ret (Inl err)
                       else then_do (issued_for account sa (req_name request)) (\<lambda>reply.
                         (case reply of
                            Inl err \<Rightarrow> Ret (Inl err)
                          | Inr None \<Rightarrow> Ret (Inl (not_in_cache_yet sa (om_name (id_meta record))))
                          | Inr (Some existing) \<Rightarrow> Ret (Inr existing))))))))"

section \<open>One identity's entry\<close>

definition nothing_asked_yet :: "issued \<Rightarrow> string" where
  "nothing_asked_yet issued =
     ''IssuedDatabricksServicePrincipal '' @ om_name (id_meta issued) @
     '' is there; nothing has asked Databricks for a service principal yet, and the next pass will''"

definition entry_of :: "namespaced_name \<Rightarrow> request \<Rightarrow> issued \<Rightarrow> projected_identity" where
  "entry_of account request issued =
     \<lparr>pi_profile = request_string request,
      pi_operator = nn_string (req_operator request),
      pi_issued = nn_namespace account @ ''/'' @ om_name (id_meta issued),
      pi_service_principal_id = it_service_principal_id (id_status issued),
      pi_account_id = it_account_id (id_status issued),
      pi_client_id = it_client_id (id_status issued),
      pi_removed_at = it_removed_at (id_status issued),
      pi_subject = ip_subject (id_spec issued),
      pi_audience = it_audience (id_status issued),
      pi_conditions = []\<rparr>"

definition fill_entry ::
  "extern \<Rightarrow> namespaced_name \<Rightarrow> service_account \<Rightarrow> request \<Rightarrow> issued \<Rightarrow> (error + projected_identity option) prog" where
  "fill_entry x account sa request issued =
     (let entry = entry_of account request issued
      in then_do (equipment sa entry) (\<lambda>reply.
        (case reply of
           Inl err \<Rightarrow> Ret (Inl err)
         | Inr equipped \<Rightarrow>
             then_do (set_condition x (pi_conditions entry) 0 conditionEquipped
                        (oc_status equipped) (oc_reason equipped) (oc_message equipped)) (\<lambda>conditions.
             then_do
               (case find_status_condition x (it_conditions (id_status issued)) conditionReady of
                  None \<Rightarrow> set_condition x conditions 0 conditionReady ConditionUnknown reasonAwaitingServicePrincipal
                            (nothing_asked_yet issued)
                | Some ready \<Rightarrow> set_condition x conditions 0 conditionReady (cn_status ready) (cn_reason ready) (cn_message ready))
               (\<lambda>conditions. Ret (Inr (Some (entry\<lparr>pi_conditions := conditions\<rparr>))))))))"

definition entry_for ::
  "extern \<Rightarrow> namespaced_name \<Rightarrow> service_account \<Rightarrow> request \<Rightarrow> bool \<Rightarrow> (error + projected_identity option) prog" where
  "entry_for x account sa request minting =
     then_do (issued_for account sa (req_name request)) (\<lambda>reply.
       (case reply of
          Inl err \<Rightarrow> Ret (Inl err)
        | Inr (Some issued) \<Rightarrow> fill_entry x account sa request issued
        | Inr None \<Rightarrow>
            if \<not> minting then Ret (Inr None)
            else then_do (issue_record account sa request) (\<lambda>reply.
              (case reply of
                 Inl err \<Rightarrow> Ret (Inl err)
               | Inr issued \<Rightarrow> fill_entry x account sa request issued))))"

section \<open>Writing the object\<close>

text \<open>A string is sent only where it has a value; so is the moment of removal.\<close>

definition set_said ::
  "string \<times> (string \<Rightarrow> applied_identity \<Rightarrow> applied_identity) \<Rightarrow> applied_identity \<Rightarrow> applied_identity" where
  "set_said field identity = (if fst field \<noteq> '''' then snd field (fst field) identity else identity)"

definition projected_identity_for :: "projected_identity \<Rightarrow> applied_identity" where
  "projected_identity_for entry =
     (let identity = with_profile (pi_profile entry) new_applied_identity;
          identity = fold set_said
            [(pi_operator entry, with_operator), (pi_issued entry, with_issued),
             (pi_service_principal_id entry, with_service_principal_id), (pi_account_id entry, with_account_id),
             (pi_client_id entry, with_client_id), (pi_subject entry, with_subject),
             (pi_audience entry, with_audience)] identity;
          identity = (case pi_removed_at entry of None \<Rightarrow> identity | Some t \<Rightarrow> with_removed_at t identity)
      in fold (\<lambda>c. with_conditions [c]) (pi_conditions entry) identity)"

definition sent :: "string \<Rightarrow> string option" where
  "sent s = (if s = '''' then None else Some s)"

lemma conditions_appended: "fold (\<lambda>c. with_conditions [c]) cs b = b\<lparr>ai_conditions := ai_conditions b @ cs\<rparr>"
  by (induction cs arbitrary: b) simp_all

lemma set_said_fields:
  "ai_operator b = None \<Longrightarrow> set_said (v, with_operator) b = b\<lparr>ai_operator := sent v\<rparr>"
  "ai_issued b = None \<Longrightarrow> set_said (v, with_issued) b = b\<lparr>ai_issued := sent v\<rparr>"
  "ai_service_principal_id b = None \<Longrightarrow> set_said (v, with_service_principal_id) b = b\<lparr>ai_service_principal_id := sent v\<rparr>"
  "ai_account_id b = None \<Longrightarrow> set_said (v, with_account_id) b = b\<lparr>ai_account_id := sent v\<rparr>"
  "ai_client_id b = None \<Longrightarrow> set_said (v, with_client_id) b = b\<lparr>ai_client_id := sent v\<rparr>"
  "ai_subject b = None \<Longrightarrow> set_said (v, with_subject) b = b\<lparr>ai_subject := sent v\<rparr>"
  "ai_audience b = None \<Longrightarrow> set_said (v, with_audience) b = b\<lparr>ai_audience := sent v\<rparr>"
  by (simp_all add: set_said_def sent_def with_identity_defs)

lemma projected_identity_for_fields:
  "projected_identity_for entry =
     \<lparr>ai_profile = Some (pi_profile entry), ai_operator = sent (pi_operator entry), ai_issued = sent (pi_issued entry),
      ai_service_principal_id = sent (pi_service_principal_id entry), ai_account_id = sent (pi_account_id entry),
      ai_client_id = sent (pi_client_id entry), ai_removed_at = pi_removed_at entry, ai_subject = sent (pi_subject entry),
      ai_audience = sent (pi_audience entry), ai_conditions = pi_conditions entry\<rparr>"
  by (simp add: projected_identity_for_def Let_def set_said_fields conditions_appended new_applied_identity_def
      with_profile_def with_removed_at_def split: option.split)

lemma read_back_projected: "read_back (projected_identity_for entry) = entry"
  by (simp add: projected_identity_for_fields read_back_def sent_def Let_def)

definition new_identities :: "service_account \<Rightarrow> databricks_service_account" where
  "new_identities sa =
     \<lparr>da_meta = \<lparr>om_namespace = om_namespace (sa_meta sa), om_name = om_name (sa_meta sa), om_uid = '''',
        om_resource_version = '''', om_generation = 0, om_deletion_timestamp = None, om_finalizers = [],
        om_labels = [], om_annotations = []\<rparr>, da_identities = []\<rparr>"

definition project_identities :: "service_account \<Rightarrow> error option prog" where
  "project_identities sa =
     AskIdentities (GetIdentities (object_key (sa_meta sa))) (\<lambda>reply.
       (case reply of
          Inr _ \<Rightarrow> Ret None
        | Inl err \<Rightarrow>
            if \<not> is_not_found err then Ret (Some err)
            else AskIdentities (CreateIdentities (new_identities sa) sa) (\<lambda>reply.
              (case reply of
                 Inr _ \<Rightarrow> Ret None
               | Inl err \<Rightarrow>
                   if \<not> is_already_exists err then Ret (Some err)
                   else AskIdentities (GetIdentities (object_key (sa_meta sa))) (\<lambda>reply. Ret (failure_of reply))))))"

text \<open>The object as it is applied: its key, and one entry per identity.\<close>

definition identities_for_apply :: "service_account \<Rightarrow> projected_identity list \<Rightarrow> applied_object" where
  "identities_for_apply sa entries =
     with_status (fold (\<lambda>entry. with_identities [projected_identity_for entry]) entries new_applied_status)
       (new_applied_object (om_name (sa_meta sa)) (om_namespace (sa_meta sa)))"

definition applied_by :: "applied_object \<Rightarrow> string \<Rightarrow> write_request" where
  "applied_by object owner = ApplyIdentities (applied_key object) (applied_entries object) owner"

lemma identities_appended:
  "fold (\<lambda>entry. with_identities [f entry]) entries b = b\<lparr>ap_identities := ap_identities b @ map f entries\<rparr>"
  by (induction entries arbitrary: b) simp_all

lemma applied_by_identities [simp]:
  "applied_by (identities_for_apply sa entries) owner =
     ApplyIdentities (object_key (sa_meta sa)) (map projected_identity_for entries) owner"
  by (simp add: applied_by_def identities_for_apply_def new_applied_object_fields with_status_def applied_key_def
      applied_entries_def ensure_applied_meta_def identities_appended new_applied_status_def object_key_def)

definition apply_identities ::
  "namespaced_name \<Rightarrow> service_account \<Rightarrow> projected_identity list \<Rightarrow> error option prog" where
  "apply_identities account sa entries =
     then_do (project_identities sa) (\<lambda>failed.
       (case failed of
          Some err \<Rightarrow> Ret (Some err)
        | None \<Rightarrow>
            AskWrite (applied_by (identities_for_apply sa entries) (field_owner_for account))
              (\<lambda>failed. Ret (ignore_not_found failed))))"

definition remove_identities :: "namespaced_name \<Rightarrow> service_account \<Rightarrow> error option prog" where
  "remove_identities account sa =
     AskIdentities (GetIdentities (object_key (sa_meta sa))) (\<lambda>reply.
       (case reply of
          Inl err \<Rightarrow> Ret (if is_not_found err then None else Some err)
        | Inr found \<Rightarrow>
            (let mine = length (filter (\<lambda>i. asked_of i account) (da_identities found));
                 others = length (filter (\<lambda>i. \<not> asked_of i account) (da_identities found))
             in if others = 0 then AskWrite (DeleteIdentities found) (\<lambda>failed. Ret (ignore_not_found failed))
                else if mine = 0 then Ret None
                else apply_identities account sa [])))"

section \<open>What is sent again\<close>

definition identity_name_of :: "namespaced_name \<Rightarrow> projected_identity \<Rightarrow> string" where
  "identity_name_of account entry = (if pi_profile entry = nn_string account then '''' else pi_profile entry)"

definition resent_identities ::
  "namespaced_name \<Rightarrow> service_account \<Rightarrow> requested \<Rightarrow> (error + projected_identity list) prog" where
  "resent_identities account sa requested =
     (if refused requested = [] then Ret (Inr [])
      else AskIdentities (GetIdentities (object_key (sa_meta sa))) (\<lambda>reply.
        (case reply of
           Inl err \<Rightarrow> if is_not_found err then Ret (Inr []) else Ret (Inl err)
         | Inr found \<Rightarrow>
             Ret (Inr (filter (\<lambda>i. asked_of i account \<and> unreadable requested (identity_name_of account i))
               (da_identities found))))))"

section \<open>Reconcile\<close>

definition ready_status :: "extern \<Rightarrow> condition list \<Rightarrow> condition_status" where
  "ready_status x conditions =
     (case find_status_condition x conditions conditionReady of Some c \<Rightarrow> cn_status c | None \<Rightarrow> ConditionUnknown)"

primrec soonest_of :: "extern \<Rightarrow> duration \<Rightarrow> projected_identity list \<Rightarrow> duration" where
  "soonest_of x soonest [] = soonest"
| "soonest_of x soonest (i # is) =
     (let after = retry_after_for (ready_status x (pi_conditions i))
                    servicePrincipalRetryAfterAwaited servicePrincipalRetryAfterSettled
      in soonest_of x (if after < soonest then after else soonest) is)"

definition come_back_in :: "extern \<Rightarrow> projected_identity list \<Rightarrow> duration" where
  "come_back_in x entries = soonest_of x servicePrincipalRetryAfterSettled entries"

primrec entries_for ::
  "extern \<Rightarrow> namespaced_name \<Rightarrow> service_account \<Rightarrow> bool \<Rightarrow> request list \<Rightarrow> (error + projected_identity list) prog" where
  "entries_for x account sa minting [] = Ret (Inr [])"
| "entries_for x account sa minting (request # rest) =
     then_do (entry_for x account sa request minting) (\<lambda>reply.
       (case reply of
          Inl err \<Rightarrow> Ret (Inl err)
        | Inr made \<Rightarrow>
            then_do (entries_for x account sa minting rest) (\<lambda>reply.
              (case reply of
                 Inl err \<Rightarrow> Ret (Inl err)
               | Inr entries \<Rightarrow> Ret (Inr (case made of None \<Rightarrow> entries | Some entry \<Rightarrow> entry # entries))))))"

definition write_entries ::
  "extern \<Rightarrow> namespaced_name \<Rightarrow> service_account \<Rightarrow> projected_identity list \<Rightarrow> reconciled prog" where
  "write_entries x account sa entries =
     (let entries = sort_key (identity_name_of account) entries
      in if entries = [] then then_do (remove_identities account sa) (\<lambda>failed. Ret (no_result, failed))
         else then_do (apply_identities account sa entries) (\<lambda>failed.
           (case failed of
              Some err \<Rightarrow> Ret (no_result, Some err)
            | None \<Rightarrow> Ret (requeue_after (come_back_in x entries), None))))"

definition reconcile_identities :: "extern \<Rightarrow> namespaced_name \<Rightarrow> namespaced_name \<Rightarrow> reconciled prog" where
  "reconcile_identities x account req =
     AskServiceAccount (CachedServiceAccount req) (\<lambda>reply.
       (case reply of
          Inl err \<Rightarrow> Ret (no_result, if is_not_found err then None else Some err)
        | Inr sa \<Rightarrow>
            then_do (databricks_account_serves account (om_namespace (sa_meta sa))) (\<lambda>reply.
              (case reply of
                 Inl err \<Rightarrow> Ret (no_result, Some err)
               | Inr (declared, served) \<Rightarrow>
                   (let requested = requests_for x (om_annotations (sa_meta sa)) account
                    in then_do (resent_identities account sa requested) (\<lambda>reply.
                      (case reply of
                         Inl err \<Rightarrow> Ret (no_result, Some err)
                       | Inr resent \<Rightarrow>
                           if understood requested = [] \<and> resent = [] then
                             then_do (remove_identities account sa) (\<lambda>failed. Ret (no_result, failed))
                           else then_do (namespace_mints (om_namespace (sa_meta sa))) (\<lambda>reply.
                             (case reply of
                                Inl err \<Rightarrow> Ret (no_result, Some err)
                              | Inr minting \<Rightarrow>
                                  then_do (entries_for x account sa (minting \<and> declared \<and> served) (understood requested))
                                    (\<lambda>reply. (case reply of
                                       Inl err \<Rightarrow> Ret (no_result, Some err)
                                     | Inr entries \<Rightarrow> write_entries x account sa (entries @ resent))))))))))))"

section \<open>What wakes it\<close>

definition identities_in_namespace :: "extern \<Rightarrow> namespaced_name \<Rightarrow> string \<Rightarrow> namespaced_name list prog" where
  "identities_in_namespace x account namespace =
     AskServiceAccounts (Some namespace) (\<lambda>reply.
       (case reply of
          Inl err \<Rightarrow> Ret []
        | Inr found \<Rightarrow>
            Ret (map (\<lambda>sa. object_key (sa_meta sa))
              (filter (\<lambda>sa. (let requested = requests_for x (om_annotations (sa_meta sa)) account
                             in understood requested \<noteq> [] \<or> refused requested \<noteq> [])) found))))"

primrec identities_in_each :: "extern \<Rightarrow> namespaced_name \<Rightarrow> string list \<Rightarrow> namespaced_name list prog" where
  "identities_in_each x account [] = Ret []"
| "identities_in_each x account (n # ns) =
     then_do (identities_in_namespace x account n) (\<lambda>requests.
       then_do (identities_in_each x account ns) (\<lambda>others. Ret (requests @ others)))"

definition identities_this_operator_reaches :: "extern \<Rightarrow> namespaced_name \<Rightarrow> account \<Rightarrow> namespaced_name list prog" where
  "identities_this_operator_reaches x account object =
     (if object_key (ac_meta object) \<noteq> account then Ret []
      else identities_in_each x account (as_namespaces (ac_spec object)))"

end
