(* ===== verification/ServiceAccountRequest.thy ===== *)
theory ServiceAccountRequest
  imports PodToken
begin

text \<open>
  \<open>internal/webhook/serviceaccountrequest.go\<close>, the validating webhook that refuses a request this
  operator will never answer at the write that introduces it. The admission request is the
  decoder's answer on the object and, on an update, on the old one. Lemmas: what is refused is a
  transition into a namespace the account was read not to serve, and never a removal.
\<close>

definition RequestPath :: string where "RequestPath = ''/validate-v1-serviceaccount''"

record admission_request =
  aq_namespace :: string
  aq_object :: "error + service_account"
  aq_old_object :: "(error + service_account) option" \<comment> \<open>\<open>None\<close>: no raw old object, as on a create\<close>

definition introduced_by ::
  "extern \<Rightarrow> namespaced_name \<Rightarrow> admission_request \<Rightarrow> requested \<Rightarrow> request list" where
  "introduced_by x account req asking =
     (case aq_old_object req of
        None \<Rightarrow> understood asking
      | Some (Inl err) \<Rightarrow> []
      | Some (Inr old) \<Rightarrow>
          (let already = requests_for x (om_annotations (sa_meta old)) account
           in filter (\<lambda>r. r \<notin> set (understood already)) (understood asking)))"

definition not_served_message :: "request list \<Rightarrow> string \<Rightarrow> string \<Rightarrow> namespaced_name \<Rightarrow> string" where
  "not_served_message introduced namespace name account =
     (let keys = map (\<lambda>r. service_principal_annotation_for (req_name r)) introduced
      in ''ServiceAccount '' @ namespace @ ''/'' @ name @ '' asks DatabricksAccount '' @ nn_string account @
         '' for a Databricks identity through '' @ join_with '', '' keys @ '', and '' @ namespace @
         '' is not one of the namespaces that account names. Add '' @ namespace @
         '' to spec.namespaces of DatabricksAccount '' @ nn_string account @
         '' first, and write the annotation after that. In that order, because the list is what says this account '' @
         ''has identities in a namespace: taking a namespace off it destroys every identity there. Written now, the '' @
         ''annotation would be answered by nothing at all -- no DatabricksServiceAccount, no condition and no event '' @
         ''-- and the workloads here would go on failing every call to Databricks with an error naming Databricks.'')"

definition service_account_handle :: "extern \<Rightarrow> namespaced_name \<Rightarrow> admission_request \<Rightarrow> admission prog" where
  "service_account_handle x account req =
     (case aq_object req of
        Inl err \<Rightarrow> Ret (Errored 400 err)
      | Inr service_account \<Rightarrow>
          (let asking = requests_for x (om_annotations (sa_meta service_account)) account
           in if understood asking = [] then Ret (Allowed ''nothing here asks this operator for an identity'')
              else (let introduced = introduced_by x account req asking
                in if introduced = [] then Ret (Allowed ''this write introduces no request to this operator'')
                   else (let namespace = (if aq_namespace req = '''' then om_namespace (sa_meta service_account)
                                          else aq_namespace req)
                     in AskAccount (GetAccount account) (\<lambda>reply.
                       (case reply of
                          Inl err \<Rightarrow>
                            if is_not_found err then Ret (Allowed ''this operator has no DatabricksAccount to answer from'')
                            else Ret (Allowed (''could not read the DatabricksAccount: '' @ error_string (quote x) err))
                        | Inr databricks_account \<Rightarrow>
                            if serves (ac_spec databricks_account) namespace
                            then Ret (Allowed ''this account serves this namespace'')
                            else Ret (Forbidden (not_served_message introduced namespace
                                   (om_name (sa_meta service_account)) account))))))))"

definition asked_now :: "extern \<Rightarrow> namespaced_name \<Rightarrow> service_account \<Rightarrow> request set" where
  "asked_now x account sa = set (understood (requests_for x (om_annotations (sa_meta sa)) account))"

lemma introduced_set:
  "set (introduced_by x account req (requests_for x (om_annotations (sa_meta sa)) account)) =
     (case aq_old_object req of None \<Rightarrow> asked_now x account sa | Some (Inl _) \<Rightarrow> {}
      | Some (Inr old) \<Rightarrow> asked_now x account sa - asked_now x account old)"
  by (auto simp: introduced_by_def asked_now_def Let_def split: option.split sum.split)

lemma handle_denies:
  assumes "returns (service_account_handle x account req) es (Forbidden why)"
  shows "\<exists>sa a. aq_object req = Inr sa \<and> es = [EAccount (GetAccount account) (Inr a)] \<and>
    introduced_by x account req (requests_for x (om_annotations (sa_meta sa)) account) \<noteq> [] \<and>
    \<not> serves (ac_spec a) (if aq_namespace req = '''' then om_namespace (sa_meta sa) else aq_namespace req)"
  using assms by (cases "aq_object req") (auto simp: service_account_handle_def Let_def returns_branches)

text \<open>A write of a ServiceAccount is denied only when the DatabricksAccount was read and does not name the
  namespace, and the write asks this operator for an identity the object did not ask it for
  before; so taking an annotation off, or changing anything else, always goes through.\<close>
theorem denied_only_when_introduced:
  assumes "returns (service_account_handle x account req) es (Forbidden why)"
  shows "\<exists>sa a r. aq_object req = Inr sa \<and> es = [EAccount (GetAccount account) (Inr a)] \<and>
    \<not> serves (ac_spec a) (if aq_namespace req = '''' then om_namespace (sa_meta sa) else aq_namespace req) \<and>
    r \<in> asked_now x account sa \<and>
    (\<forall>old. aq_old_object req = Some old \<longrightarrow> (\<exists>o1. old = Inr o1 \<and> r \<notin> asked_now x account o1 \<and>
       \<not> asked_now x account sa \<subseteq> asked_now x account o1))"
proof -
  from handle_denies [OF assms] obtain sa a where
    sa: "aq_object req = Inr sa" "es = [EAccount (GetAccount account) (Inr a)]"
    "\<not> serves (ac_spec a) (if aq_namespace req = '''' then om_namespace (sa_meta sa) else aq_namespace req)"
    and "introduced_by x account req (requests_for x (om_annotations (sa_meta sa)) account) \<noteq> []"
    by blast
  then obtain r where r: "r \<in> set (introduced_by x account req (requests_for x (om_annotations (sa_meta sa)) account))"
    by (meson hd_in_set)
  from r have "r \<in> asked_now x account sa \<and>
    (\<forall>old. aq_old_object req = Some old \<longrightarrow> (\<exists>o1. old = Inr o1 \<and> r \<notin> asked_now x account o1 \<and>
       \<not> asked_now x account sa \<subseteq> asked_now x account o1))"
    unfolding introduced_set by (auto split: option.splits sum.splits)
  with sa show ?thesis by blast
qed

text \<open>C37: And in a namespace the account was read not to name, a write that introduces a request to this
  operator is always denied; with no account to read, or one that cannot be read, it is admitted.\<close>
theorem introduced_is_denied:
  assumes "aq_object req = Inr sa" "\<exists>r \<in> asked_now x account sa. \<forall>old. aq_old_object req = Some old \<longrightarrow>
      (\<exists>o1. old = Inr o1 \<and> r \<notin> asked_now x account o1)"
  shows "(returns (service_account_handle x account req) [EAccount (GetAccount account) (Inr a)] r \<longleftrightarrow>
    (if serves (ac_spec a) (if aq_namespace req = '''' then om_namespace (sa_meta sa) else aq_namespace req)
     then r = Allowed ''this account serves this namespace''
     else r = Forbidden (not_served_message
       (introduced_by x account req (requests_for x (om_annotations (sa_meta sa)) account))
       (if aq_namespace req = '''' then om_namespace (sa_meta sa) else aq_namespace req) (om_name (sa_meta sa)) account))) \<and>
    (returns (service_account_handle x account req) [EAccount (GetAccount account) (Inl err)] r \<longrightarrow> (\<exists>why. r = Allowed why))"
proof -
  from assms(2) have "asked_now x account sa \<noteq> {}"
    "set (introduced_by x account req (requests_for x (om_annotations (sa_meta sa)) account)) \<noteq> {}"
    unfolding introduced_set by (auto split: option.split sum.split)
  then have "understood (requests_for x (om_annotations (sa_meta sa)) account) \<noteq> []"
    "introduced_by x account req (requests_for x (om_annotations (sa_meta sa)) account) \<noteq> []"
    by (auto simp: asked_now_def)
  with assms(1) show ?thesis
    by (auto simp: service_account_handle_def Let_def returns_branches)
qed

definition ex_annotated :: service_account where
  "ex_annotated = \<lparr>sa_meta = (pod_meta ex_pod)\<lparr>om_name := ''etl'', om_annotations := [(ServicePrincipalAnnotation, ''ops/acc'')]\<rparr>\<rparr>"

definition ex_acc :: namespaced_name where "ex_acc = \<lparr>nn_namespace = ''ops'', nn_name = ''acc''\<rparr>"

definition ex_nowhere :: account where
  "ex_nowhere = \<lparr>ac_meta = pod_meta ex_pod,
     ac_spec = \<lparr>as_host = ''h'', as_account_id = ''dbx-1'', as_client_id = ''c'', as_namespaces = []\<rparr>,
     ac_status = \<lparr>at_subject = '''', at_audience = '''', at_issuer = '''', at_cluster_marker = '''', at_conditions = []\<rparr>\<rparr>"

definition ex_create_request :: admission_request where
  "ex_create_request = \<lparr>aq_namespace = ''team-a'', aq_object = Inr ex_annotated, aq_old_object = None\<rparr>"

lemma ex_asked: "asked_now ref_extern ex_acc ex_annotated = {\<lparr>req_operator = ex_acc, req_name = ''''\<rparr>}"
proof -
  have "understood (requests_for ref_extern [(ServicePrincipalAnnotation, ''ops/acc'')] ex_acc) =
      [\<lparr>req_operator = ex_acc, req_name = ''''\<rparr>]" by code_simp
  then show ?thesis by (simp add: asked_now_def ex_annotated_def)
qed

lemma ex_nowhere_serves [simp]: "\<not> serves (ac_spec ex_nowhere) ns"
  by (simp add: ex_nowhere_def serves_def)

theorem introduced_is_denied_witness:
  "\<exists>why. returns (service_account_handle ref_extern ex_acc ex_create_request)
     [EAccount (GetAccount ex_acc) (Inr ex_nowhere)] (Forbidden why)"
  using introduced_is_denied [of ex_create_request ex_annotated ref_extern ex_acc ex_nowhere]
  by (simp add: ex_create_request_def ex_asked)

theorem denied_only_when_introduced_witness:
  "asked_now ref_extern ex_acc ex_annotated \<noteq> {}"
proof -
  have u: "understood (requests_for ref_extern [(ServicePrincipalAnnotation, ''ops/acc'')] ex_acc) =
      [\<lparr>req_operator = ex_acc, req_name = ''''\<rparr>]" by code_simp
  have "\<exists>why. returns (service_account_handle ref_extern ex_acc ex_create_request)
      [EAccount (GetAccount ex_acc) (Inr ex_nowhere)] (Forbidden why)"
    by (simp add: service_account_handle_def ex_create_request_def ex_annotated_def u introduced_by_def Let_def)
  then obtain why where "returns (service_account_handle ref_extern ex_acc ex_create_request)
      [EAccount (GetAccount ex_acc) (Inr ex_nowhere)] (Forbidden why)" ..
  from denied_only_when_introduced [OF this] show ?thesis by (auto simp: ex_create_request_def)
qed

end
