(* ===== verification/ServiceAccountSafety.thy ===== *)
theory ServiceAccountSafety
  imports ServiceAccountController ServiceAccountRequest ServicePrincipals
begin

text \<open>
  What the reconcile of \<open>ServiceAccountController\<close> never does, whatever it is answered and wherever it
  stops: ask Databricks, write a record where minting is not open, touch another operator's
  entries, or take away an identity because its request cannot be read; and that what it reports
  of an identity is what the record says and, of a pod the webhook equipped, that it is equipped.
\<close>

section \<open>What a pass can exchange\<close>

lemma emits_set_condition: "(\<And>t. K (ENow t)) \<Longrightarrow> emits K (set_condition x cs g ty st re m)"
  by (simp add: set_condition_def)


lemma emits_equipment: "(\<And>n r. K (EPods n r)) \<Longrightarrow> (\<And>n r. K (ENamespace n r)) \<Longrightarrow> emits K (equipment sa entry)"
  unfolding equipment_def Let_def
  by (auto intro!: emits_then_do emits_injecting split: sum.split bool.split)

lemma emits_issued_for: "(\<And>n r. K (EIssued (GetIssued n) r)) \<Longrightarrow> emits K (issued_for account sa identity)"
  by (simp add: issued_for_def split: sum.split)

lemma emits_issue_record:
  assumes "\<And>n r. K (ENamespace n r)" "\<And>n r. K (EIssued (GetIssued n) r)" "\<And>i r. K (EIssued (CreateIssued i) r)"
  shows "emits K (issue_record account sa request)"
  unfolding issue_record_def Let_def using assms
  by (auto intro!: emits_then_do emits_issued_for split: sum.split option.split)

lemma emits_fill_entry:
  assumes "\<And>t. K (ENow t)" "\<And>n r. K (EPods n r)" "\<And>n r. K (ENamespace n r)"
  shows "emits K (fill_entry x account sa request issued)"
  unfolding fill_entry_def Let_def using assms
  by (auto intro!: emits_then_do emits_equipment emits_set_condition split: sum.split option.split)

lemma emits_entry_for:
  assumes "\<And>t. K (ENow t)" "\<And>n r. K (EPods n r)" "\<And>n r. K (ENamespace n r)"
    and "\<And>n r. K (EIssued (GetIssued n) r)" "\<And>i r. minting \<Longrightarrow> K (EIssued (CreateIssued i) r)"
  shows "emits K (entry_for x account sa request minting)"
  unfolding entry_for_def using assms
  by (auto intro!: emits_then_do emits_issued_for emits_issue_record emits_fill_entry split: sum.split option.split)

lemma emits_entries_for:
  assumes "\<And>t. K (ENow t)" "\<And>n r. K (EPods n r)" "\<And>n r. K (ENamespace n r)"
    and "\<And>n r. K (EIssued (GetIssued n) r)" "\<And>i r. minting \<Longrightarrow> K (EIssued (CreateIssued i) r)"
  shows "emits K (entries_for x account sa minting requests)"
  by (induction requests) (auto intro!: emits_then_do emits_entry_for assms split: sum.split)

lemma emits_apply_identities:
  assumes "\<And>q r. K (EIdentities q r)" "\<And>r. K (EWrite (ApplyIdentities (object_key (sa_meta sa)) (map projected_identity_for entries) (field_owner_for account)) r)"
  shows "emits K (apply_identities account sa entries)"
  unfolding apply_identities_def project_identities_def using assms
  by (auto intro!: emits_then_do split: sum.split option.split)

lemma emits_remove_identities:
  assumes "\<And>q r. K (EIdentities q r)" "\<And>r. K (EWrite (ApplyIdentities (object_key (sa_meta sa)) [] (field_owner_for account)) r)"
    and "\<And>d r. K (EWrite (DeleteIdentities d) r)"
  shows "emits K (remove_identities account sa)"
  unfolding remove_identities_def Let_def using assms
  by (auto intro!: emits_then_do emits_apply_identities split: sum.split)

lemma emits_resent_identities: "(\<And>q r. K (EIdentities q r)) \<Longrightarrow> emits K (resent_identities account sa requested)"
  by (simp add: resent_identities_def split: sum.split)

text \<open>The requests of a pass that are not writes of entries.\<close>

definition is_entry_write :: "event \<Rightarrow> bool" where
  "is_entry_write e = (case e of EWrite (DeleteIdentities _) _ \<Rightarrow> True | EWrite (ApplyIdentities _ _ _) _ \<Rightarrow> True | _ \<Rightarrow> False)"

lemma is_entry_write_simps [simp]:
  "is_entry_write (EWrite (DeleteIdentities d) r1)" "is_entry_write (EWrite (ApplyIdentities n es o1) r2)"
  "\<not> is_entry_write (EIssued q r3)" "\<not> is_entry_write (EAccount qa r4)" "\<not> is_entry_write (EServiceAccount qs r5)"
  "\<not> is_entry_write (ENamespace m r6)" "\<not> is_entry_write (EIdentities qd r7)" "\<not> is_entry_write (EPods m' r8)"
  "\<not> is_entry_write (ENow t)"
  by (simp_all add: is_entry_write_def)

section \<open>Writing a record\<close>

text \<open>Minting is open to this operator: the account was read to serve the namespace, and the
  namespace to be enabled for minting, with nobody destroying identities in it.\<close>

definition minting_open :: "namespaced_name \<Rightarrow> string \<Rightarrow> event list \<Rightarrow> bool" where
  "minting_open account ns h \<longleftrightarrow>
     (\<exists>a n. EAccount (GetAccount account) (Inr a) \<in> set h \<and> serves (ac_spec a) ns \<and>
        ENamespace ns (Inr n) \<in> set h \<and> map_get (om_labels (ns_meta n)) MintLabel = Enabled \<and>
        map_of (om_labels (ns_meta n)) DestroyingIdentitiesLabel = None)"

lemma minting_open_append [simp]: "minting_open account ns h \<Longrightarrow> minting_open account ns (h @ es)"
  unfolding minting_open_def set_append by blast

definition record_ok :: "extern \<Rightarrow> namespaced_name \<Rightarrow> namespaced_name \<Rightarrow> event list \<Rightarrow> event \<Rightarrow> bool" where
  "record_ok x account req h e \<longleftrightarrow> (\<forall>rec reply. e = EIssued (CreateIssued rec) reply \<longrightarrow>
     (\<exists>sa request namespace. EServiceAccount (CachedServiceAccount req) (Inr sa) \<in> set h \<and>
        request \<in> set (understood (requests_for x (om_annotations (sa_meta sa)) account)) \<and>
        minting_open account (om_namespace (sa_meta sa)) h \<and>
        (\<exists>err. EIssued (GetIssued (record_key account sa (req_name request))) (Inl err) \<in> set h \<and> is_not_found err) \<and>
        rec = new_record account sa request namespace))"

lemma record_ok_quiet [simp]: "\<not> is_new_record e \<Longrightarrow> record_ok x account req h e"
  by (auto simp: record_ok_def)

lemmas record_quiet = always_quiet [where K = "\<lambda>e. \<not> is_new_record e", OF _ record_ok_quiet]
lemmas record_bind = always_bind [where K = "\<lambda>e. \<not> is_new_record e", OF _ record_ok_quiet]

abbreviation record_always :: "extern \<Rightarrow> namespaced_name \<Rightarrow> namespaced_name \<Rightarrow> 'a prog \<Rightarrow> event list \<Rightarrow> bool" where
  "record_always x account req p h \<equiv> always (record_ok x account req) (\<lambda>_ _. True) p h"

lemma issue_record_ok:
  assumes "EServiceAccount (CachedServiceAccount req) (Inr sa) \<in> set h"
    and "request \<in> set (understood (requests_for x (om_annotations (sa_meta sa)) account))"
    and "minting_open account (om_namespace (sa_meta sa)) h"
    and "EIssued (GetIssued (record_key account sa (req_name request))) (Inl err) \<in> set h" "is_not_found err"
  shows "record_always x account req (issue_record account sa request) h"
proof -
  have "record_ok x account req (h @ es) (EIssued (CreateIssued (new_record account sa request n)) r)" for es n r
    unfolding record_ok_def using assms minting_open_append [OF assms(3), of es]
    by (auto intro!: exI [of _ sa] exI [of _ request] exI [of _ n])
  moreover have "record_always x account req (issued_for account sa identity) h'" for identity h'
    by (rule record_quiet) (simp add: emits_issued_for)
  ultimately show ?thesis
    by (auto simp: issue_record_def Let_def intro!: always_then split: sum.split option.split)
qed

lemma entry_for_ok:
  assumes "EServiceAccount (CachedServiceAccount req) (Inr sa) \<in> set h"
    and "request \<in> set (understood (requests_for x (om_annotations (sa_meta sa)) account))"
    and "minting \<longrightarrow> minting_open account (om_namespace (sa_meta sa)) h"
  shows "record_always x account req (entry_for x account sa request minting) h"
proof -
  have filled: "record_always x account req (fill_entry x account sa request issued) h'" for issued h'
    by (rule record_quiet) (simp add: emits_fill_entry)
  have issue: "record_always x account req (then_do (issue_record account sa request) (\<lambda>reply. case reply of
      Inl err \<Rightarrow> Ret (Inl err) | Inr issued \<Rightarrow> fill_entry x account sa request issued)) (h @ es)"
    if "minting" "returns (issued_for account sa (req_name request)) es (Inr None)" for es
  proof -
    from that(2) obtain err where "es = [EIssued (GetIssued (record_key account sa (req_name request))) (Inl err)]" "is_not_found err"
      by (auto simp: issued_for_def returns_branches)
    with assms that(1) have "record_always x account req (issue_record account sa request) (h @ es)"
      by (intro issue_record_ok [where err = err]) simp_all
    then show ?thesis by (rule always_then) (auto simp: filled split: sum.split)
  qed
  show ?thesis
    unfolding entry_for_def
    by (auto intro!: record_bind emits_issued_for filled issue split: sum.split option.split)
qed

lemma entries_for_ok:
  assumes "EServiceAccount (CachedServiceAccount req) (Inr sa) \<in> set h"
    and "set requests \<subseteq> set (understood (requests_for x (om_annotations (sa_meta sa)) account))"
    and "minting \<longrightarrow> minting_open account (om_namespace (sa_meta sa)) h"
  shows "record_always x account req (entries_for x account sa minting requests) h"
  using assms
proof (induction requests arbitrary: h)
  case (Cons request requests)
  have each: "always (record_ok x account req) (\<lambda>_ h'. set h \<subseteq> set h' \<and> (minting \<longrightarrow> minting_open account (om_namespace (sa_meta sa)) h'))
      (entry_for x account sa request minting) h"
    by (rule always_mono [OF always_conj [OF entry_for_ok always_returned]]) (use Cons.prems in auto)
  show ?case
    unfolding entries_for.simps always_then_do [of _ _ "entry_for x account sa request minting"]
  proof (rule always_mono [OF each])
    fix made h'
    assume "set h \<subseteq> set h' \<and> (minting \<longrightarrow> minting_open account (om_namespace (sa_meta sa)) h')"
    with Cons have rest: "record_always x account req (entries_for x account sa minting requests) h'" by auto
    show "record_always x account req (case made of Inl err \<Rightarrow> Ret (Inl err)
        | Inr made \<Rightarrow> then_do (entries_for x account sa minting requests) (\<lambda>reply. case reply of Inl err \<Rightarrow> Ret (Inl err)
            | Inr entries \<Rightarrow> Ret (Inr (case made of None \<Rightarrow> entries | Some entry \<Rightarrow> entry # entries)))) h'"
      by (auto intro!: always_then [OF rest] split: sum.split)
  qed
qed simp


lemma emits_write_entries:
  assumes "\<And>q r. K (EIdentities q r)" "\<And>d r. K (EWrite (DeleteIdentities d) r)"
    and "\<And>n es r. K (EWrite (ApplyIdentities n es (field_owner_for account)) r)"
  shows "emits K (write_entries x account sa entries)"
  unfolding write_entries_def Let_def using assms
  by (auto intro!: emits_then_do emits_remove_identities emits_apply_identities split: option.split)

lemma reconcile_records: "record_always x account req (reconcile_identities x account req) []"
proof -
  have entries: "record_always x account req (then_do (entries_for x account sa (minting \<and> declared \<and> served)
        (understood (requests_for x (om_annotations (sa_meta sa)) account))) (\<lambda>reply. case reply of
        Inl err \<Rightarrow> Ret (no_result, Some err) | Inr entries \<Rightarrow> write_entries x account sa (entries @ resent)))
      (EServiceAccount (CachedServiceAccount req) (Inr sa) # s @ es @ m)"
    if "returns (databricks_account_serves account (om_namespace (sa_meta sa))) s (Inr (declared, served))"
      and "returns (namespace_mints (om_namespace (sa_meta sa))) m (Inr minting)" for sa s es m declared served minting resent
  proof -
    have "minting_open account (om_namespace (sa_meta sa)) (EServiceAccount (CachedServiceAccount req) (Inr sa) # s @ es @ m)"
      if "minting" "declared" "served"
      using that \<open>returns (databricks_account_serves account (om_namespace (sa_meta sa))) s (Inr (declared, served))\<close>
        \<open>returns (namespace_mints (om_namespace (sa_meta sa))) m (Inr minting)\<close>
      unfolding minting_open_def by (fastforce simp: account_serves_returns namespace_mints_returns)
    then show ?thesis
      by (intro always_then [OF entries_for_ok])
        (auto intro!: record_quiet emits_write_entries split: sum.split)
  qed
  show ?thesis
    unfolding reconcile_identities_def Let_def
    by (auto intro!: record_bind emits_account_serves emits_resent_identities emits_namespace_mints
        emits_remove_identities entries split: sum.split prod.split)
qed

text \<open>C27: A record is written only for an identity a read of the ServiceAccount asks this operator for, when
  the read of it said there was none, and only where the account was read to serve the namespace
  and the namespace to be enabled for minting with nobody destroying identities in it. It carries
  its finalizer from the start, and names the ServiceAccount by its uid.\<close>
theorem record_only_where_minting:
  assumes "runs (reconcile_identities x account req) (pre @ EIssued (CreateIssued rec) reply # post)"
  shows "\<exists>sa request a n. EServiceAccount (CachedServiceAccount req) (Inr sa) \<in> set pre \<and>
    request \<in> set (understood (requests_for x (om_annotations (sa_meta sa)) account)) \<and>
    (\<exists>err. EIssued (GetIssued (object_key (id_meta rec))) (Inl err) \<in> set pre \<and> is_not_found err) \<and>
    EAccount (GetAccount account) (Inr a) \<in> set pre \<and> serves (ac_spec a) (om_namespace (sa_meta sa)) \<and>
    ENamespace (om_namespace (sa_meta sa)) (Inr n) \<in> set pre \<and> map_get (om_labels (ns_meta n)) MintLabel = Enabled \<and>
    map_of (om_labels (ns_meta n)) DestroyingIdentitiesLabel = None \<and>
    contains_finalizer (id_meta rec) ServicePrincipalFinalizer \<and> service_principal_state (id_status rec) = Unsent \<and>
    is_uid (ip_service_account (id_spec rec)) = om_uid (sa_meta sa) \<and> ip_identity (id_spec rec) = req_name request"
proof -
  have "record_ok x account req pre (EIssued (CreateIssued rec) reply)"
    using always_runs [OF reconcile_records assms refl] .
  then obtain sa request namespace err where
    r: "EServiceAccount (CachedServiceAccount req) (Inr sa) \<in> set pre"
      "request \<in> set (understood (requests_for x (om_annotations (sa_meta sa)) account))"
      "minting_open account (om_namespace (sa_meta sa)) pre"
      "EIssued (GetIssued (record_key account sa (req_name request))) (Inl err) \<in> set pre" "is_not_found err"
    and rec: "rec = new_record account sa request namespace" unfolding record_ok_def by blast
  have "object_key (id_meta rec) = record_key account sa (req_name request)"
    "contains_finalizer (id_meta rec) ServicePrincipalFinalizer" "service_principal_state (id_status rec) = Unsent"
    "is_uid (ip_service_account (id_spec rec)) = om_uid (sa_meta sa)" "ip_identity (id_spec rec) = req_name request"
    by (simp_all add: rec new_record_def object_key_def record_key_def contains_finalizer_def service_principal_state_simps)
  with r show ?thesis unfolding minting_open_def by metis
qed

section \<open>What an entry says\<close>

lemma set_condition_returns [simp]:
  "returns (set_condition x cs g ty st re m) es cs' \<longleftrightarrow> (\<exists>t. es = [ENow t] \<and> cs' = set_status_condition x t cs
     \<lparr>cn_type = ty, cn_status = st, cn_observed_generation = g, cn_last_transition = 0, cn_reason = re, cn_message = m\<rparr>)"
  by (auto simp: set_condition_def)

text \<open>The \<open>Ready\<close> the entry is given: the record's, or that it has none yet.\<close>

definition ready_of :: "extern \<Rightarrow> issued \<Rightarrow> condition" where
  "ready_of x issued =
     (case find_status_condition x (it_conditions (id_status issued)) conditionReady of
        None \<Rightarrow> \<lparr>cn_type = conditionReady, cn_status = ConditionUnknown, cn_observed_generation = 0, cn_last_transition = 0,
                  cn_reason = reasonAwaitingServicePrincipal, cn_message = nothing_asked_yet issued\<rparr>
      | Some c \<Rightarrow> \<lparr>cn_type = conditionReady, cn_status = cn_status c, cn_observed_generation = 0, cn_last_transition = 0,
                  cn_reason = cn_reason c, cn_message = cn_message c\<rparr>)"

definition equipped_of :: "outcome \<Rightarrow> condition" where
  "equipped_of oc = \<lparr>cn_type = conditionEquipped, cn_status = oc_status oc, cn_observed_generation = 0, cn_last_transition = 0,
     cn_reason = oc_reason oc, cn_message = oc_message oc\<rparr>"

text \<open>The entry as it is filled in, the two conditions over an empty list.\<close>

definition filled :: "extern \<Rightarrow> namespaced_name \<Rightarrow> request \<Rightarrow> issued \<Rightarrow> outcome \<Rightarrow> time \<Rightarrow> time \<Rightarrow> projected_identity" where
  "filled x account request issued oc t1 t2 =
     (entry_of account request issued)\<lparr>pi_conditions :=
        set_status_condition x t2 (set_status_condition x t1 [] (equipped_of oc)) (ready_of x issued)\<rparr>"

lemma fill_entry_returns:
  "returns (fill_entry x account sa request issued) es (Inr (Some entry)) \<Longrightarrow>
     (\<exists>q oc t1 t2. es = q @ [ENow t1, ENow t2] \<and>
        returns (equipment sa (entry_of account request issued)) q (Inr oc) \<and>
        entry = filled x account request issued oc t1 t2)"
proof -
  have "pi_conditions (entry_of account request issued) = []" by (simp add: entry_of_def)
  then show "returns (fill_entry x account sa request issued) es (Inr (Some entry)) \<Longrightarrow> ?thesis"
    by (cases "find_status_condition x (it_conditions (id_status issued)) conditionReady")
      (auto simp: fill_entry_def Let_def returns_branches filled_def ready_of_def equipped_of_def)
qed

lemma fill_entry_always: "\<not> returns (fill_entry x account sa request issued) es (Inr None)"
  by (auto simp: fill_entry_def Let_def returns_branches split: option.splits)

lemma issue_record_returns:
  "returns (issue_record account sa request) es (Inr issued) \<Longrightarrow>
     (\<exists>rec. EIssued (CreateIssued rec) (Inr issued) \<in> set es) \<or>
     EIssued (GetIssued (record_key account sa (req_name request))) (Inr issued) \<in> set es"
  by (auto simp: issue_record_def issued_for_def Let_def returns_branches split: option.splits)

lemma entry_for_returns:
  assumes "returns (entry_for x account sa request minting) es (Inr (Some entry))"
  shows "\<exists>issued oc t1 t2. entry = filled x account request issued oc t1 t2 \<and> ENow t2 \<in> set es \<and>
     ((\<exists>rec. EIssued (CreateIssued rec) (Inr issued) \<in> set es) \<or>
      EIssued (GetIssued (record_key account sa (req_name request))) (Inr issued) \<in> set es)"
proof -
  have "\<exists>es1 es2 issued. set es1 \<union> set es2 \<subseteq> set es \<and> returns (fill_entry x account sa request issued) es2 (Inr (Some entry)) \<and>
      (returns (issued_for account sa (req_name request)) es1 (Inr (Some issued)) \<or>
       returns (issue_record account sa request) es1 (Inr issued))"
    using assms unfolding entry_for_def returns_then_do
  proof (elim exE conjE)
    fix es1 es2 reply
    assume es: "es = es1 @ es2" and reply: "returns (issued_for account sa (req_name request)) es1 reply"
      and rest: "returns (case reply of Inl err \<Rightarrow> Ret (Inl err) | Inr (Some issued) \<Rightarrow> fill_entry x account sa request issued
        | Inr None \<Rightarrow> if \<not> minting then Ret (Inr None)
            else then_do (issue_record account sa request) (\<lambda>reply. case reply of
               Inl err \<Rightarrow> Ret (Inl err) | Inr issued \<Rightarrow> fill_entry x account sa request issued)) es2 (Inr (Some entry))"
    show ?thesis
    proof (cases reply)
      case (Inr found)
      show ?thesis
      proof (cases found)
        case (Some issued)
        with Inr es reply rest show ?thesis by auto
      next
        case None
        with Inr rest obtain is1 is2 issued where "es2 = is1 @ is2" "returns (issue_record account sa request) is1 (Inr issued)"
          "returns (fill_entry x account sa request issued) is2 (Inr (Some entry))"
          by (auto simp: returns_branches)
        with es show ?thesis by (intro exI [of _ is1] exI [of _ is2] exI [of _ issued]) auto
      qed
    qed (use rest in simp)
  qed
  then obtain es1 es2 issued where sub: "set es1 \<subseteq> set es" "set es2 \<subseteq> set es"
    and fill: "returns (fill_entry x account sa request issued) es2 (Inr (Some entry))"
    and "returns (issued_for account sa (req_name request)) es1 (Inr (Some issued)) \<or>
       returns (issue_record account sa request) es1 (Inr issued)" by auto
  then have "(\<exists>rec. EIssued (CreateIssued rec) (Inr issued) \<in> set es1) \<or>
      EIssued (GetIssued (record_key account sa (req_name request))) (Inr issued) \<in> set es1"
    using issue_record_returns [of account sa request es1 issued] by (auto simp: issued_for_def returns_branches)
  with sub fill_entry_returns [OF fill] show ?thesis by fastforce
qed

lemma entries_for_returns:
  "returns (entries_for x account sa minting requests) es (Inr entries) \<Longrightarrow> entry \<in> set entries \<Longrightarrow>
     \<exists>request \<in> set requests. \<exists>es1 es2 es3. es = es1 @ es2 @ es3 \<and>
       returns (entry_for x account sa request minting) es2 (Inr (Some entry))"
proof (induction requests arbitrary: es entries)
  case (Cons request requests)
  from Cons.prems(1) obtain es1 es2 made entries' where es: "es = es1 @ es2"
    and made: "returns (entry_for x account sa request minting) es1 (Inr made)"
    and rest: "returns (entries_for x account sa minting requests) es2 (Inr entries')"
    and entries: "entries = (case made of None \<Rightarrow> entries' | Some e \<Rightarrow> e # entries')"
    by (auto simp: returns_branches)
  from entries Cons.prems(2) consider "made = Some entry" | "entry \<in> set entries'" by (auto split: option.splits)
  then show ?case
  proof cases
    case 1
    with made es show ?thesis
      by (intro bexI [of _ request] exI [of _ "[]"] exI [of _ es1] exI [of _ es2]) simp_all
  next
    case 2
    from Cons.IH [OF rest 2] show ?thesis unfolding es by (metis append.assoc list.set_intros(2))
  qed
qed simp

section \<open>Whose entries are written\<close>

definition entries_ok :: "namespaced_name \<Rightarrow> event list \<Rightarrow> event \<Rightarrow> bool" where
  "entries_ok account h e \<longleftrightarrow>
     (\<forall>n ais owner reply. e = EWrite (ApplyIdentities n ais owner) reply \<longrightarrow>
        owner = field_owner_for account \<and> list_all (\<lambda>ai. ai_operator ai = Some (nn_string account)) ais) \<and>
     (\<forall>d reply. e = EWrite (DeleteIdentities d) reply \<longrightarrow>
        (\<exists>n. EIdentities (GetIdentities n) (Inr d) \<in> set h) \<and> list_all (\<lambda>i. asked_of i account) (da_identities d))"

lemma entries_ok_quiet [simp]: "\<not> is_entry_write e \<Longrightarrow> entries_ok account h e"
  by (auto simp: entries_ok_def)

lemma entries_ok_writes [simp]:
  "entries_ok account h (EWrite (ApplyIdentities n ais owner) reply) \<longleftrightarrow>
     owner = field_owner_for account \<and> list_all (\<lambda>ai. ai_operator ai = Some (nn_string account)) ais"
  "entries_ok account h (EWrite (DeleteIdentities d) reply) \<longleftrightarrow>
     (\<exists>n. EIdentities (GetIdentities n) (Inr d) \<in> set h) \<and> list_all (\<lambda>i. asked_of i account) (da_identities d)"
  by (auto simp: entries_ok_def)

lemmas entries_quiet = always_quiet [where K = "\<lambda>e. \<not> is_entry_write e", OF _ entries_ok_quiet]
lemmas entries_bind = always_bind [where K = "\<lambda>e. \<not> is_entry_write e", OF _ entries_ok_quiet]

abbreviation entries_always :: "namespaced_name \<Rightarrow> 'a prog \<Rightarrow> event list \<Rightarrow> bool" where
  "entries_always account p h \<equiv> always (entries_ok account) (\<lambda>_ _. True) p h"

lemma emits_project_identities: "(\<And>q r. K (EIdentities q r)) \<Longrightarrow> emits K (project_identities sa)"
  by (simp add: project_identities_def split: sum.split)

lemma sent_operator [simp]: "sent (nn_string account) = Some (nn_string account)"
  by (simp add: sent_def nn_string_def)

lemma apply_entries_ok:
  assumes "list_all (\<lambda>i. pi_operator i = nn_string account) entries"
  shows "entries_always account (apply_identities account sa entries) h"
proof -
  have "list_all (\<lambda>ai. ai_operator ai = Some (nn_string account)) (map projected_identity_for entries)"
    using assms by (auto simp: list_all_iff projected_identity_for_fields)
  then show ?thesis
    unfolding apply_identities_def
    by (intro entries_bind) (auto simp: emits_project_identities split: option.split)
qed

lemma remove_entries_ok: "entries_always account (remove_identities account sa) h"
proof -
  have "length (filter (\<lambda>i. \<not> asked_of i account) is) = 0 \<longleftrightarrow> list_all (\<lambda>i. asked_of i account) is" for "is"
    by (simp add: filter_empty_conv list_all_iff)
  then show ?thesis
    by (auto simp: remove_identities_def Let_def apply_entries_ok split: sum.split)
qed

lemma write_entries_ok:
  assumes "list_all (\<lambda>i. pi_operator i = nn_string account) entries"
  shows "entries_always account (write_entries x account sa entries) h"
proof -
  have "list_all (\<lambda>i. pi_operator i = nn_string account) (sort_key (identity_name_of account) entries)"
    using assms by (simp add: list_all_iff)
  then show ?thesis
    unfolding write_entries_def Let_def
    by (auto intro!: always_then remove_entries_ok apply_entries_ok split: option.split)
qed

lemma filled_operator [simp]: "pi_operator (filled x account request issued oc t1 t2) = nn_string (req_operator request)"
  by (simp add: filled_def entry_of_def)

lemma understood_operator: "r \<in> set (understood (requests_for v annotations operator)) \<Longrightarrow> req_operator r = operator"
  using understood_valid by blast

lemma resent_returns:
  "returns (resent_identities account sa requested) es (Inr resent) \<Longrightarrow>
     refused requested = [] \<and> es = [] \<and> resent = [] \<or>
     refused requested \<noteq> [] \<and> (\<exists>reply. es = [EIdentities (GetIdentities (object_key (sa_meta sa))) reply] \<and>
       (case reply of Inl err \<Rightarrow> is_not_found err \<and> resent = []
        | Inr found \<Rightarrow> resent = filter (\<lambda>i. asked_of i account \<and> unreadable requested (identity_name_of account i)) (da_identities found)))"
  by (auto simp: resent_identities_def returns_branches)

lemma resent_operator:
  "returns (resent_identities account sa requested) es (Inr resent) \<Longrightarrow> list_all (\<lambda>i. pi_operator i = nn_string account) resent"
  by (auto dest!: resent_returns simp: list_all_iff asked_of_def split: sum.splits)

lemma entries_operator:
  assumes "returns (entries_for x account sa minting (understood (requests_for x annotations account))) es (Inr entries)"
  shows "list_all (\<lambda>i. pi_operator i = nn_string account) entries"
  unfolding list_all_iff
proof
  fix entry assume "entry \<in> set entries"
  from entries_for_returns [OF assms this] obtain request es2 where
    "request \<in> set (understood (requests_for x annotations account))"
    "returns (entry_for x account sa request minting) es2 (Inr (Some entry))" by blast
  with entry_for_returns understood_operator show "pi_operator entry = nn_string account" by fastforce
qed

lemma reconcile_entries: "entries_always account (reconcile_identities x account req) []"
proof -
  have removed: "entries_always account (then_do (remove_identities account sa) (\<lambda>failed. Ret (f failed))) h" for f sa h
    by (rule always_then [OF remove_entries_ok]) simp
  have written: "entries_always account (write_entries x account sa (entries @ resent)) h"
    if "returns (resent_identities account sa requested) es1 (Inr resent)"
      "returns (entries_for x account sa minting (understood (requests_for x annotations account))) es2 (Inr entries)"
    for sa requested annotations es1 es2 resent entries minting h
    using resent_operator [OF that(1)] entries_operator [OF that(2)] by (simp add: write_entries_ok)
  show ?thesis
    unfolding reconcile_identities_def Let_def
    by (auto intro!: entries_bind emits_account_serves emits_resent_identities emits_namespace_mints emits_entries_for
        removed split: sum.split prod.split) (rule written, assumption, assumption)+
qed

text \<open>C28: A pass writes entries only as its own operator and only of its own identities, and deletes the object
  only as it read it, with no entry of another operator in it: no pass of one operator takes away
  or changes what another was issued. It asks Databricks nothing, and writes no record but a new
  one.\<close>
theorem other_operators_untouched:
  assumes "runs (reconcile_identities x account req) (pre @ e # post)"
  shows "(\<forall>n ais owner reply. e = EWrite (ApplyIdentities n ais owner) reply \<longrightarrow>
      owner = field_owner_for account \<and> (\<forall>ai \<in> set ais. ai_operator ai = Some (nn_string account))) \<and>
    (\<forall>d reply. e = EWrite (DeleteIdentities d) reply \<longrightarrow>
      (\<exists>n. EIdentities (GetIdentities n) (Inr d) \<in> set pre) \<and> (\<forall>i \<in> set (da_identities d). asked_of i account)) \<and>
    event_account e = None \<and>
    (\<forall>i reply. e \<noteq> EIssued (UpdateIssued i) reply \<and> e \<noteq> EIssued (UpdateIssuedStatus i) reply) \<and>
    (\<forall>i reply. e \<noteq> EWrite (DeleteIssued i) reply)"
proof -
  have ok: "entries_ok account pre e" using always_runs [OF reconcile_entries assms refl] .
  let ?K = "\<lambda>e. event_account e = None \<and>
    (\<forall>i reply. e \<noteq> EIssued (UpdateIssued i) reply \<and> e \<noteq> EIssued (UpdateIssuedStatus i) reply) \<and>
    (\<forall>i reply. e \<noteq> EWrite (DeleteIssued i) reply)"
  have "emits ?K (reconcile_identities x account req)"
    unfolding reconcile_identities_def Let_def
    by (auto intro!: emits_then_do emits_account_serves emits_resent_identities emits_namespace_mints emits_entries_for
        emits_remove_identities emits_write_entries split: sum.split prod.split)
  from emits_runs [OF this assms, of e] have "?K e" by simp
  with ok show ?thesis unfolding entries_ok_def list_all_iff by blast
qed

text \<open>C32: What an entry says of an identity is what the record read, or just written, in this pass says, its
  Ready condition included; and, the conditions being built from nothing each time, with the
  documented helpers its Ready is dated by the clock of this pass, whatever the record's own says,
  so that two passes over an unchanged record write different entries.\<close>
theorem entry_says_the_record:
  assumes "returns (entry_for x account sa request minting) es (Inr (Some entry))"
    and "set_status_condition x = ref_set_condition" "find_status_condition x = ref_find_condition"
  shows "\<exists>issued t. ((\<exists>rec. EIssued (CreateIssued rec) (Inr issued) \<in> set es) \<or>
      EIssued (GetIssued (record_key account sa (req_name request))) (Inr issued) \<in> set es) \<and> ENow t \<in> set es \<and>
    pi_profile entry = request_string request \<and> pi_subject entry = ip_subject (id_spec issued) \<and>
    pi_client_id entry = it_client_id (id_status issued) \<and> pi_audience entry = it_audience (id_status issued) \<and>
    pi_service_principal_id entry = it_service_principal_id (id_status issued) \<and>
    (usable entry \<longleftrightarrow> service_principal_state (id_status issued) = Known) \<and>
    ref_find_condition (pi_conditions entry) conditionReady = Some ((ready_of x issued)\<lparr>cn_last_transition := t\<rparr>) \<and>
    (\<forall>c. ref_find_condition (it_conditions (id_status issued)) conditionReady = Some c \<longrightarrow>
       ready_status x (pi_conditions entry) = cn_status c)"
proof -
  from entry_for_returns [OF assms(1)] obtain issued oc t1 t where e: "entry = filled x account request issued oc t1 t"
    and es: "ENow t \<in> set es" "(\<exists>rec. EIssued (CreateIssued rec) (Inr issued) \<in> set es) \<or>
      EIssued (GetIssued (record_key account sa (req_name request))) (Inr issued) \<in> set es" by blast
  have apart: "conditionEquipped \<noteq> conditionReady" by (simp add: conditionEquipped_def conditionReady_def)
  have ready: "cn_type (ready_of x issued) = conditionReady" "cn_last_transition (ready_of x issued) = 0"
    by (simp_all add: ready_of_def split: option.split)
  have "pi_conditions entry = [equipped_of oc\<lparr>cn_last_transition := t1\<rparr>, (ready_of x issued)\<lparr>cn_last_transition := t\<rparr>]"
    using assms(2) apart ready by (simp add: e filled_def equipped_of_def)
  then have found: "ref_find_condition (pi_conditions entry) conditionReady = Some ((ready_of x issued)\<lparr>cn_last_transition := t\<rparr>)"
    using apart ready by (simp add: ref_find_condition_def equipped_of_def)
  then have "ready_status x (pi_conditions entry) = cn_status (ready_of x issued)"
    using assms(3) by (simp add: ready_status_def)
  moreover have "ready_status x (pi_conditions entry) = cn_status (ready_of x issued)" by fact
  ultimately have "\<forall>c. ref_find_condition (it_conditions (id_status issued)) conditionReady = Some c \<longrightarrow>
       ready_status x (pi_conditions entry) = cn_status c"
    using assms(3) by (simp add: ready_of_def)
  moreover have "usable entry \<longleftrightarrow> service_principal_state (id_status issued) = Known"
    by (auto simp: e filled_def entry_of_def usable_def service_principal_state_simps)
  ultimately show ?thesis using es found
    by (intro exI [of _ issued] exI [of _ t]) (simp add: e filled_def entry_of_def)
qed

section \<open>A request that cannot be read\<close>

definition keeps :: "projected_identity \<Rightarrow> event \<Rightarrow> bool" where
  "keeps i e \<longleftrightarrow> (\<forall>w reply. e = EWrite w reply \<longrightarrow>
     (\<exists>n ais owner. w = ApplyIdentities n ais owner \<and> projected_identity_for i \<in> set ais))"

lemma keeps_quiet [simp]:
  "keeps i (EIssued q r1)" "keeps i (EAccount qa r2)" "keeps i (EServiceAccount qs r3)" "keeps i (ENamespace m r4)"
  "keeps i (EIdentities qd r5)" "keeps i (EPods m' r6)" "keeps i (ENow t)"
  by (simp_all add: keeps_def)

lemma write_entries_keeps:
  assumes "i \<in> set entries"
  shows "emits (keeps i) (write_entries x account sa entries)"
proof -
  have "sort_key (identity_name_of account) entries \<noteq> []" using assms by (metis empty_iff empty_set set_sort)
  moreover have "keeps i (EWrite (ApplyIdentities n (map projected_identity_for (sort_key f entries)) owner) r)" for n f owner r
    using assms by (auto simp: keeps_def)
  ultimately show ?thesis
    unfolding write_entries_def Let_def
    by (auto intro!: emits_then_do emits_apply_identities split: option.split)
qed

text \<open>C31: An entry of this operator whose request cannot be read is never taken away: once a pass has read the
  object with it, every write of that pass is an apply that says the entry again as it was
  read.\<close>
theorem unreadable_keeps_its_entry:
  assumes "runs (reconcile_identities x account req)
      (EServiceAccount (CachedServiceAccount req) (Inr sa) # EAccount (GetAccount account) reply #
       EIdentities (GetIdentities (object_key (sa_meta sa))) (Inr found) # es)"
    and "i \<in> set (da_identities found)" "asked_of i account"
    and "unreadable (requests_for x (om_annotations (sa_meta sa)) account) (identity_name_of account i)"
    and "e \<in> set es"
  shows "\<forall>w reply. e = EWrite w reply \<longrightarrow>
    (\<exists>n ais owner. w = ApplyIdentities n ais owner \<and> projected_identity_for i \<in> set ais)"
proof -
  let ?req = "requests_for x (om_annotations (sa_meta sa)) account"
  let ?resent = "filter (\<lambda>i. asked_of i account \<and> unreadable ?req (identity_name_of account i)) (da_identities found)"
  have i: "i \<in> set ?resent" using assms(2-4) by simp
  then have ne: "?resent \<noteq> []" by (metis empty_iff empty_set)
  have refused: "refused ?req \<noteq> []" using assms(4) by (auto simp: unreadable_def)
  define rest where "rest = (\<lambda>declared served. then_do (namespace_mints (om_namespace (sa_meta sa))) (\<lambda>reply.
      (case reply of Inl err \<Rightarrow> Ret (no_result, Some err)
       | Inr minting \<Rightarrow> then_do (entries_for x account sa (minting \<and> declared \<and> served) (understood ?req))
           (\<lambda>reply. (case reply of Inl err \<Rightarrow> Ret (no_result, Some err)
              | Inr entries \<Rightarrow> write_entries x account sa (entries @ ?resent))))))"
  have "emits (keeps i) (rest declared served)" for declared served
    using i unfolding rest_def
    by (auto intro!: emits_then_do emits_namespace_mints emits_entries_for write_entries_keeps split: sum.split)
  moreover have "es = [] \<or> (\<exists>declared served. runs (rest declared served) es)"
  proof (cases reply)
    case (Inl err)
    show ?thesis
    proof (cases "is_not_found err")
      case True
      with assms(1) Inl refused ne have "runs (rest False False) es"
        by (simp add: reconcile_identities_def databricks_account_serves_def resent_identities_def Let_def rest_def runs_def)
      then show ?thesis by blast
    qed (use assms(1) Inl in \<open>simp add: reconcile_identities_def databricks_account_serves_def Let_def runs_def\<close>)
  next
    case (Inr a)
    with assms(1) refused ne have "runs (rest True (serves (ac_spec a) (om_namespace (sa_meta sa)))) es"
      by (simp add: reconcile_identities_def databricks_account_serves_def resent_identities_def Let_def rest_def runs_def)
    then show ?thesis by blast
  qed
  ultimately have "keeps i e" using assms(5) emits_runs by force
  then show ?thesis by (simp add: keeps_def)
qed

section \<open>Pods the webhook equipped\<close>

lemma token_in_volumes_skip:
  "\<not> has_volume vs TokenVolume \<Longrightarrow> token_in_volumes (vs @ ws) wanted = token_in_volumes ws wanted"
  by (induction vs) (auto split: if_splits)

lemma first_token_source:
  assumes "\<And>j. j \<in> set is \<Longrightarrow> token_projection_path_for (pi_profile j) = token_projection_path_for (pi_profile i) \<Longrightarrow> j = i"
    and "i \<in> set is"
  shows "first_token (map token_source is @ ss) (token_projection_path_for (pi_profile i)) = Some (pi_audience i)"
  using assms
proof (induction "is")
  case (Cons j "is")
  show ?case
  proof (cases "token_projection_path_for (pi_profile j) = token_projection_path_for (pi_profile i)")
    case True
    with Cons.prems(1) [of j] show ?thesis by (simp add: token_source_def)
  next
    case False
    then have "i \<in> set is" using Cons.prems(2) by auto
    with Cons.IH Cons.prems(1) False show ?thesis by (simp add: token_source_def)
  qed
qed simp

lemma webhook_equips:
  assumes "\<not> has_volume (pod_volumes p) TokenVolume" "map_of (om_annotations (pod_meta p)) ConfigAnnotation = None"
    and "list_all (\<lambda>j. profile_name (pi_profile j)) is" "distinct (map pi_profile is)"
    and "i \<in> set is" "usable i"
  shows "token_audience_of (inject p is) (pi_profile i) = (pi_audience i, True) \<and> describes (inject p is) i \<and>
    shortfall_of sa i (inject p is) = None"
proof -
  have "token_projection_path_for (pi_profile j) = token_projection_path_for (pi_profile i) \<Longrightarrow> j = i" if "j \<in> set is" for j
    using that assms(3-5) token_projection_path_clean [OF profile_name_clean]
    by (auto simp: list_all_iff distinct_map dest: inj_onD)
  then have audience: "token_audience_of (inject p is) (pi_profile i) = (pi_audience i, True)"
    using assms(1,5) by (simp add: token_audience_of_def inject_volumes token_in_volumes_skip first_token_source)
  have "map_get (om_annotations (pod_meta (inject p is))) ConfigAnnotation = profiles is"
    using assms(1,2) by (simp add: inject_def Let_def map_get_def map_of_with_annotation)
  then have "describes (inject p is) i"
    using assms(5,6) by (simp add: describes_def profiles_one section_in_profiles)
  with audience show ?thesis by (simp add: shortfall_of_def)
qed

text \<open>C33: The webhook and the controller agree: a pod the webhook equipped with usable identities of distinct
  profile names, and that had neither the volume nor the annotation before, is one the controller
  finds nothing missing on for any of them, so that Equipped never calls for recreating a pod that
  was just created right.\<close>
theorem equipped_by_the_webhook:
  assumes "\<not> has_volume (pod_volumes p) TokenVolume" "map_of (om_annotations (pod_meta p)) ConfigAnnotation = None"
    and "list_all (\<lambda>j. profile_name (pi_profile j)) is" "distinct (map pi_profile is)"
    and "i \<in> set is" "usable i"
  shows "token_audience_of (inject p is) (pi_profile i) = (pi_audience i, True) \<and> describes (inject p is) i \<and>
    shortfall_of sa i (inject p is) = None"
  using assms by (rule webhook_equips)

text \<open>C34: Also when no container of the pod was given anything: where every container already mounts something at
  the token's path the webhook leaves each as it is, without the mount and without the variables,
  and the controller still finds nothing missing on the pod, although the comment in \<open>equip\<close> says the
  identity reports it as not equipped.\<close>
theorem unmounted_reads_equipped:
  assumes "\<not> has_volume (pod_volumes p) TokenVolume" "map_of (om_annotations (pod_meta p)) ConfigAnnotation = None"
    and "list_all (\<lambda>j. profile_name (pi_profile j)) is" "distinct (map pi_profile is)"
    and "i \<in> set is" "usable i"
    and "list_all (\<lambda>c. has_mount_path (co_mounts c) TokenMountPath) (pod_containers p)"
  shows "pod_containers (inject p is) = pod_containers p \<and> shortfall_of sa i (inject p is) = None"
proof -
  have "map (equip d) (pod_containers p) = pod_containers p" for d
    using assms(7) by (auto simp: equip_def list_all_iff intro!: map_idI)
  then have "pod_containers (inject p is) = pod_containers p"
    using assms(1) by (simp add: inject_def Let_def)
  with webhook_equips [OF assms(1-6)] show ?thesis by simp
qed

section \<open>Examples\<close>

definition ex_serving :: account where
  "ex_serving = ex_nowhere\<lparr>ac_spec := (ac_spec ex_nowhere)\<lparr>as_namespaces := [''team-a'']\<rparr>\<rparr>"

definition ex_minting :: namespace_object where
  "ex_minting = \<lparr>ns_meta = (pod_meta ex_pod)\<lparr>om_name := ''team-a'', om_labels := [(MintLabel, Enabled)]\<rparr>\<rparr>"

definition ex_missing :: error where "ex_missing = KubeError KubeNotFound ''not found''"

definition ex_unnamed :: request where "ex_unnamed = \<lparr>req_operator = ex_acc, req_name = ''''\<rparr>"

definition ex_written :: issued where "ex_written = new_record ex_acc ex_annotated ex_unnamed ex_minting"

lemma ex_requests: "requests_for ref_extern (om_annotations (sa_meta ex_annotated)) ex_acc =
    \<lparr>understood = [ex_unnamed], refused = []\<rparr>"
proof -
  have "requests_for ref_extern [(ServicePrincipalAnnotation, ''ops/acc'')] ex_acc =
      \<lparr>understood = [\<lparr>req_operator = ex_acc, req_name = ''''\<rparr>], refused = []\<rparr>" by code_simp
  then show ?thesis by (simp add: ex_annotated_def ex_unnamed_def)
qed

text \<open>A first pass over a ServiceAccount that asks, and its entry being read back.\<close>

definition ex_pass :: "event list" where
  "ex_pass =
     [EServiceAccount (CachedServiceAccount ex_acc) (Inr ex_annotated),
      EAccount (GetAccount ex_acc) (Inr ex_serving),
      ENamespace ''team-a'' (Inr ex_minting),
      EIssued (GetIssued (record_key ex_acc ex_annotated '''')) (Inl ex_missing),
      ENamespace ''team-a'' (Inr ex_minting)]"

lemma ex_facts [simp]:
  "om_namespace (sa_meta ex_annotated) = ''team-a''" "serves (ac_spec ex_serving) ''team-a''" "is_not_found ex_missing"
  "map_of (om_labels (ns_meta ex_minting)) DestroyingIdentitiesLabel = None"
  "map_get (om_labels (ns_meta ex_minting)) MintLabel = Enabled" "req_name ex_unnamed = ''''" "req_operator ex_unnamed = ex_acc"
  by (simp_all add: ex_annotated_def ex_serving_def ex_nowhere_def ex_missing_def ex_minting_def ex_pod_def serves_def
      map_get_def is_kube_def MintLabel_def DestroyingIdentitiesLabel_def ex_unnamed_def)

lemma ex_pass_runs: "runs (reconcile_identities ref_extern ex_acc ex_acc) (ex_pass @ [EIssued (CreateIssued ex_written) reply])"
  by (cases reply) (simp_all add: ex_pass_def reconcile_identities_def databricks_account_serves_def resent_identities_def ex_requests
      namespace_mints_def entry_for_def issued_for_def issue_record_def Let_def ex_written_def runs_def)

theorem record_only_where_minting_witness:
  "contains_finalizer (id_meta ex_written) ServicePrincipalFinalizer \<and> service_principal_state (id_status ex_written) = Unsent"
  using record_only_where_minting [of ref_extern ex_acc ex_acc ex_pass ex_written "Inr ex_written" "[]"] ex_pass_runs by blast

theorem other_operators_untouched_witness: "event_account (EIssued (CreateIssued ex_written) (Inr ex_written)) = None"
  using other_operators_untouched [of ref_extern ex_acc ex_acc ex_pass "EIssued (CreateIssued ex_written) (Inr ex_written)" "[]"]
    ex_pass_runs by blast

definition ex_ready_condition :: condition where
  "ex_ready_condition = \<lparr>cn_type = conditionReady, cn_status = ConditionTrue, cn_observed_generation = 1, cn_last_transition = 5,
     cn_reason = ''ServicePrincipalReady'', cn_message = ''m''\<rparr>"

definition ex_known_record :: issued where
  "ex_known_record = ex_written\<lparr>id_status := (id_status ex_written)\<lparr>it_service_principal_id := ''17'', it_client_id := ''app'',
     it_audience := ''a'', it_conditions := [ex_ready_condition]\<rparr>\<rparr>"

definition ex_read :: "time \<Rightarrow> event list" where
  "ex_read t =
     [EIssued (GetIssued (record_key ex_acc ex_annotated '''')) (Inr ex_known_record), EPods ''team-a'' (Inr []), ENow t, ENow t]"

lemma ex_read_entry: "\<exists>entry. returns (entry_for ref_extern ex_acc ex_annotated ex_unnamed True) (ex_read t) (Inr (Some entry))"
  by (simp add: ex_read_def entry_for_def issued_for_def fill_entry_def equipment_def Let_def entry_of_def short_of_def
      set_condition_def ex_known_record_def ref_find_condition_def ex_ready_condition_def del: set_condition_returns)

theorem entry_says_the_record_witness:
  "\<exists>entry :: projected_identity. pi_client_id entry = ''app'' \<and>
     map_option cn_last_transition (ref_find_condition (pi_conditions entry) conditionReady) = Some 9"
proof -
  obtain entry where "returns (entry_for ref_extern ex_acc ex_annotated ex_unnamed True) (ex_read 9) (Inr (Some entry))"
    using ex_read_entry by blast
  from entry_says_the_record [OF this] obtain issued t where
    "(\<exists>rec. EIssued (CreateIssued rec) (Inr issued) \<in> set (ex_read 9)) \<or>
      EIssued (GetIssued (record_key ex_acc ex_annotated '''')) (Inr issued) \<in> set (ex_read 9)"
    "ENow t \<in> set (ex_read 9)" "pi_client_id entry = it_client_id (id_status issued)"
    "ref_find_condition (pi_conditions entry) conditionReady = Some ((ready_of ref_extern issued)\<lparr>cn_last_transition := t\<rparr>)"
    by auto
  then show ?thesis by (intro exI [of _ entry]) (auto simp: ex_read_def ex_known_record_def)
qed

text \<open>A ServiceAccount whose one request does not parse, with an entry from when it did.\<close>

definition ex_mistyped :: service_account where
  "ex_mistyped = \<lparr>sa_meta = (sa_meta ex_annotated)\<lparr>om_annotations := [(ServicePrincipalAnnotation, ''acc'')]\<rparr>\<rparr>"

lemma ex_mistyped_requests:
  "\<exists>q. requests_for ref_extern (om_annotations (sa_meta ex_mistyped)) ex_acc = q \<and> understood q = [] \<and> unreadable q ''''"
proof -
  have "understood (requests_for ref_extern [(ServicePrincipalAnnotation, ''acc'')] ex_acc) = [] \<and>
      unreadable (requests_for ref_extern [(ServicePrincipalAnnotation, ''acc'')] ex_acc) ''''" by code_simp
  then show ?thesis by (simp add: ex_mistyped_def)
qed

definition ex_key :: namespaced_name where "ex_key = object_key (sa_meta ex_mistyped)"

definition ex_rewrite :: "event list" where
  "ex_rewrite = [ENamespace ''team-a'' (Inr ex_minting), EIdentities (GetIdentities ex_key) (Inr ex_database),
     EWrite (ApplyIdentities ex_key [projected_identity_for ex_identity] (field_owner_for ex_acc)) None]"

theorem unreadable_keeps_its_entry_witness:
  "\<exists>n ais owner. ApplyIdentities ex_key [projected_identity_for ex_identity] (field_owner_for ex_acc) =
     ApplyIdentities n ais owner \<and> projected_identity_for ex_identity \<in> set ais"
proof -
  from ex_mistyped_requests obtain q where q: "requests_for ref_extern (om_annotations (sa_meta ex_mistyped)) ex_acc = q"
    "understood q = []" "unreadable q ''''" by blast
  then have "refused q \<noteq> []" by (auto simp: unreadable_def)
  moreover have i: "asked_of ex_identity ex_acc" "identity_name_of ex_acc ex_identity = ''''"
    by (simp_all add: asked_of_def identity_name_of_def ex_identity_def ex_acc_def nn_string_def)
  moreover have "om_namespace (sa_meta ex_mistyped) = ''team-a''" by (simp add: ex_mistyped_def)
  ultimately have "runs (reconcile_identities ref_extern ex_acc ex_acc)
      (EServiceAccount (CachedServiceAccount ex_acc) (Inr ex_mistyped) # EAccount (GetAccount ex_acc) (Inr ex_serving) #
       EIdentities (GetIdentities (object_key (sa_meta ex_mistyped))) (Inr ex_database) # ex_rewrite)"
    using q by (simp add: reconcile_identities_def databricks_account_serves_def resent_identities_def Let_def
      namespace_mints_def write_entries_def apply_identities_def project_identities_def runs_def ex_rewrite_def ex_key_def
      ex_database_def)
  from unreadable_keeps_its_entry [OF this, of ex_identity "EWrite (ApplyIdentities ex_key [projected_identity_for ex_identity] (field_owner_for ex_acc)) None"]
  show ?thesis using i q by (simp add: ex_database_def ex_rewrite_def)
qed

lemma ex_profile_name: "profile_name (pi_profile ex_identity)"
proof -
  have "rfc1123_label ''ops'' \<and> rfc1123_subdomain ''acc''" by code_simp
  then show ?thesis unfolding profile_name_def
    by (intro disjI2 exI [of _ ex_acc]) (simp add: nn_string_def ex_acc_def ex_identity_def)
qed

theorem equipped_by_the_webhook_witness: "shortfall_of ex_annotated ex_identity (inject ex_pod [ex_identity]) = None"
  using equipped_by_the_webhook [of ex_pod "[ex_identity]" ex_identity ex_annotated] ex_profile_name by (simp add: ex_pod_def)

definition ex_mounted :: pod where
  "ex_mounted = ex_pod\<lparr>pod_containers := [ex_container\<lparr>co_mounts :=
     [\<lparr>vm_name = ''own'', vm_mount_path = TokenMountPath, vm_read_only = True, vm_rest = ''''\<rparr>]\<rparr>]\<rparr>"

theorem unmounted_reads_equipped_witness:
  "pod_containers (inject ex_mounted [ex_identity]) = pod_containers ex_mounted \<and>
   shortfall_of ex_annotated ex_identity (inject ex_mounted [ex_identity]) = None"
  using unmounted_reads_equipped [of ex_mounted "[ex_identity]" ex_identity ex_annotated] ex_profile_name
  by (simp add: ex_mounted_def ex_pod_def)

end
