(* ===== verification/EndToEnd.thy ===== *)
theory EndToEnd
  imports Convergence ServiceAccountSafety
begin

text \<open>
  From an annotation to a token Databricks takes: a pass of the record controller over the record that was
  made for a request, the entry the ServiceAccount controller then makes of it, server-side apply
  carrying it into the object the webhook reads, and the pod the webhook lets in. What Databricks
  grants a token on is \<open>exchange_granted\<close>.
\<close>

text \<open>An exchange is granted to the service principal that presents its client id, where one of its policies
  trusts the issuer, the subject and the audience of the token.\<close>

definition exchange_granted :: "extern \<Rightarrow> principal set \<Rightarrow> policy_lookup \<Rightarrow> string \<Rightarrow> string \<Rightarrow> string \<Rightarrow> string \<Rightarrow> bool" where
  "exchange_granted x ps pol client_id issuer subject audience \<longleftrightarrow>
     (\<exists>p \<in> ps. pr_application_id p = client_id \<and> trust_stands x pol (pr_id p) issuer subject audience)"

text \<open>The subject of the token the kubelet writes for a pod.\<close>

definition pod_subject :: "pod \<Rightarrow> string" where
  "pod_subject p = subject_for (om_namespace (pod_meta p)) (service_account_of p)"

lemma inject_runs_as: "pod_subject (inject p is) = pod_subject p"
  by (simp add: pod_subject_def inject_def service_account_of_def Let_def)

lemma describes_section: "describes p i \<Longrightarrow> sublist (profile_section i) (map_get (om_annotations (pod_meta p)) ConfigAnnotation)"
  by (cases "usable i") (simp_all add: describes_def profiles_one)

text \<open>What the pass leaves, in terms of the service principal.\<close>

lemma reached_granted:
  assumes "exchangeable x ps pol issued issuer audience"
    and "\<exists>p \<in> ps. pr_id p = it_service_principal_id (id_status issued) \<and> pr_application_id p = it_client_id (id_status issued)"
  shows "exchange_granted x ps pol (it_client_id (id_status issued)) issuer (ip_subject (id_spec issued)) audience"
  using assms by (auto simp: exchangeable_def exchange_granted_def)

lemma pass_leaves_granted:
  assumes world: "healthy_world policy_of serve env record_of there policies x r cfg (Inr owner) account token"
    and laws: "status_conditions (set_status_condition x) (find_status_condition x)"
    and token: "token_says x token issuer audience" and start: "within_reach r (there w) (record_of w) issuer"
    and live: "om_deletion_timestamp (id_meta (record_of w)) = None"
      "contains_finalizer (id_meta (record_of w)) ServicePrincipalFinalizer"
    and wanted: "wanted_and_served x r (Inr owner) account (record_of w)"
    and known: "service_principal_state (id_status (record_of w)) = Known \<Longrightarrow> \<exists>p \<in> there w.
      pr_id p = it_service_principal_id (id_status (record_of w)) \<and> pr_application_id p = it_client_id (id_status (record_of w))"
    and pass: "returns (reconcile_issued x r (object_key (id_meta (record_of w)))) es a" "traced env w es w'"
  shows "service_principal_state (id_status (record_of w')) = Known \<and> it_audience (id_status (record_of w')) = audience \<and>
    exchange_granted x (there w') (policy_of (policies w')) (it_client_id (id_status (record_of w'))) issuer
      (ip_subject (id_spec (record_of w))) audience"
proof -
  let ?sp = "\<lambda>w'. it_service_principal_id (id_status (record_of w'))" and ?client = "\<lambda>w'. it_client_id (id_status (record_of w'))"
  from ensures_sound [OF healthy_world.ensures_reconciled [OF world laws token start live wanted]] pass
  have "healthy_world.converged policy_of record_of there policies x r w issuer audience a w'" by blast
  then have left: "exchangeable x (there w') (policy_of (policies w')) (record_of w') issuer audience"
    "id_spec (record_of w') = id_spec (record_of w)"
    "service_principal_state (id_status (record_of w)) \<noteq> Known \<longrightarrow>
       (\<exists>p. there w' = insert p (there w) \<and> pr_id p = ?sp w' \<and> pr_application_id p = ?client w')"
    "service_principal_state (id_status (record_of w)) = Known \<longrightarrow> there w' = there w \<and> ?sp w' = ?sp w \<and> ?client w' = ?client w"
    by (auto simp: healthy_world.converged_def [OF world] healthy_world.reached_def [OF world] Let_def)
  have "\<exists>p \<in> there w'. pr_id p = ?sp w' \<and> pr_application_id p = ?client w'"
    using left(3,4) known by (cases "service_principal_state (id_status (record_of w)) = Known") auto
  from reached_granted [OF left(1) this] left(1,2) show ?thesis by (simp add: exchangeable_def)
qed

text \<open>C2: From an annotation to a token Databricks takes. Take the record made for a request of a ServiceAccount,
  in any of the states a pass can go on from; a complete pass of the record controller over it, answered
  as documented; the entry the ServiceAccount controller then makes for the request, and any object of
  identities the entry was applied to; and a pod of the ServiceAccount that the webhook patches. Then
  the pod's token for the request's profile is minted for the audience in force, its configuration
  has a section of that profile, and the client id in that section is granted an exchange, by a policy
  that trusts exactly the issuer, the subject of the pod's own token and that audience.\<close>
theorem asked_for_is_granted:
  assumes "healthy_world policy_of serve env record_of there policies x r cfg (Inr owner) account token"
    and "status_conditions (set_status_condition x) (find_status_condition x)"
    and "token_says x token issuer audience" and "within_reach r (there w) (record_of w) issuer"
    and "om_deletion_timestamp (id_meta (record_of w)) = None"
    and "contains_finalizer (id_meta (record_of w)) ServicePrincipalFinalizer"
    and "wanted_and_served x r (Inr owner) account (record_of w)"
    and "service_principal_state (id_status (record_of w)) = Known \<Longrightarrow> \<exists>p \<in> there w.
      pr_id p = it_service_principal_id (id_status (record_of w)) \<and> pr_application_id p = it_client_id (id_status (record_of w))"
    and "id_spec (record_of w) = id_spec (new_record (ir_account r) owner request namespace)"
    and "returns (reconcile_issued x r (object_key (id_meta (record_of w)))) es a" "traced env w es w'"
    and "returns (entry_for x (ir_account r) owner request minting) fs (Inr (Some entry))"
    and "\<forall>q reply. EIssued q reply \<in> set fs \<longrightarrow> reply = Inr (record_of w')"
    and "read_back (projected_identity_for entry) \<in> set (da_identities found)"
    and "list_all (\<lambda>i. profile_name (pi_profile i)) (da_identities found)" "distinct (map pi_profile (da_identities found))"
    and "om_namespace (pod_meta p) = om_namespace (sa_meta owner)" "service_account_of p = om_name (sa_meta owner)"
    and "\<not> has_volume (pod_volumes p) TokenVolume" "map_of (om_annotations (pod_meta p)) ConfigAnnotation = None"
    and "returns (pod_handle x marshals (Inr p) requested) [EIdentities q (Inr found)] (Patched admitted)"
  shows "token_audience_of admitted (request_string request) = (audience, True) \<and>
    (\<exists>i. pi_profile i = request_string request \<and> pi_audience i = audience \<and>
       sublist (profile_section i) (map_get (om_annotations (pod_meta admitted)) ConfigAnnotation) \<and>
       exchange_granted x (there w') (policy_of (policies w')) (pi_client_id i) issuer (pod_subject admitted) audience)"
proof -
  from pass_leaves_granted [OF assms(1-8,10,11)] have known: "service_principal_state (id_status (record_of w')) = Known"
    "it_audience (id_status (record_of w')) = audience"
    "exchange_granted x (there w') (policy_of (policies w')) (it_client_id (id_status (record_of w'))) issuer
      (ip_subject (id_spec (record_of w))) audience" by simp_all
  from entry_for_returns [OF assms(12)] assms(13) obtain oc t1 t2 where
    entry: "entry = filled x (ir_account r) request (record_of w') oc t1 t2" by blast
  then have says: "pi_profile entry = request_string request" "pi_audience entry = audience"
    "pi_client_id entry = it_client_id (id_status (record_of w'))" "usable entry"
    using known(1,2) by (simp_all add: filled_def entry_of_def usable_def service_principal_state_simps)
  from assms(14) have there: "entry \<in> set (filter usable (da_identities found))" using says(4) by (simp add: read_back_projected)
  have admitted: "admitted = inject p (filter usable (da_identities found))"
    using assms(21) there by (auto simp: pod_handle_def Let_def returns_branches split: if_splits)
  have "list_all (\<lambda>i. profile_name (pi_profile i)) (filter usable (da_identities found))"
    "distinct (map pi_profile (filter usable (da_identities found)))"
    using assms(15,16) by (simp_all add: list_all_iff distinct_map_filter)
  from webhook_equips [OF assms(19,20) this there says(4)]
  have "token_audience_of admitted (pi_profile entry) = (pi_audience entry, True)" "describes admitted entry"
    by (simp_all add: admitted)
  moreover have "pod_subject admitted = ip_subject (id_spec (record_of w))"
    using assms(9,17,18) by (simp add: admitted inject_runs_as) (simp add: pod_subject_def new_record_def)
  ultimately show ?thesis using says known(3) describes_section by (intro conjI exI [of _ entry]) auto
qed

section \<open>An example\<close>

definition ex_request :: request where "ex_request = \<lparr>req_operator = ex_operator, req_name = ''''\<rparr>"

lemma ex_entry:
  fixes issued :: issued
  shows "\<exists>entry. returns (entry_for ref_extern ex_operator ex_service_account ex_request True)
    [EIssued (GetIssued (record_key ex_operator ex_service_account '''')) (Inr issued), EPods ''team-a'' (Inr []), ENow 9, ENow 9]
    (Inr (Some entry)) \<and> pi_profile entry = ''ops/acc'' \<and> (usable entry \<longleftrightarrow> service_principal_state (id_status issued) = Known)"
  by (cases "ref_find_condition (it_conditions (id_status issued)) conditionReady")
    (simp_all add: entry_for_def issued_for_def fill_entry_def equipment_def Let_def entry_of_def short_of_def
      set_condition_def ex_request_def request_string_def nn_string_def ex_operator_def ex_service_account_def ex_meta_def
      usable_def service_principal_state_simps del: set_condition_returns, blast+)

theorem asked_for_is_granted_witness:
  "\<exists>ps pol admitted i. token_audience_of admitted ''ops/acc'' = (''a'', True) \<and>
     sublist (profile_section i) (map_get (om_annotations (pod_meta admitted)) ConfigAnnotation) \<and>
     exchange_granted ref_extern ps pol (pi_client_id i) ''a'' (subject_for ''team-a'' ''etl'') ''a''"
proof -
  let ?w = "\<lparr>wo_record = ex_issued ex_status, wo_account = [], wo_policies = \<lambda>_ _. None\<rparr>"
  let ?pass = "reconcile_issued ref_extern ex_reconciler (object_key (id_meta (wo_record ?w)))"
  have laws: "status_conditions (set_status_condition ref_extern) (find_status_condition ref_extern)"
    using ref_conditions.status_conditions_axioms by simp
  have unsent: "service_principal_state ex_status = Unsent" by (simp add: ex_status_def service_principal_state_def)
  then have start: "within_reach ex_reconciler (wo_there ?w) (wo_record ?w) ''a''"
    by (simp add: within_reach_def wo_there_def carriers_def)
  have live: "om_deletion_timestamp (id_meta (wo_record ?w)) = None"
    "contains_finalizer (id_meta (wo_record ?w)) ServicePrincipalFinalizer" by simp_all
  have wanted: "wanted_and_served ref_extern ex_reconciler (Inr ex_service_account) ex_account (wo_record ?w)"
    by (simp add: ex_wanted_and_served)
  have known: "service_principal_state (id_status (wo_record ?w)) = Known \<Longrightarrow> \<exists>p \<in> wo_there ?w.
      pr_id p = it_service_principal_id (id_status (wo_record ?w)) \<and> pr_application_id p = it_client_id (id_status (wo_record ?w))"
    using unsent by simp
  note world = ref_world.healthy_world_axioms laws ex_token_says start live wanted
  have "runs ?pass [] \<and> traced ex_env ?w [] ?w" by (simp add: runs_def)
  from mp [OF spec [OF spec [OF conjunct1 [OF ensures_sound [OF healthy_world.ensures_reconciled [OF world]]]]] this]
  obtain es a w' where run: "returns ?pass es a" "traced ex_env ?w es w'" by auto
  from pass_leaves_granted [OF world known run] have state: "service_principal_state (id_status (wo_record w')) = Known" by simp
  from ex_entry [of "wo_record w'"] state obtain entry where
    entry: "returns (entry_for ref_extern (ir_account ex_reconciler) ex_service_account ex_request True)
      [EIssued (GetIssued (record_key ex_operator ex_service_account '''')) (Inr (wo_record w')), EPods ''team-a'' (Inr []), ENow 9, ENow 9]
      (Inr (Some entry))" and says: "pi_profile entry = ''ops/acc''" "usable entry" by auto
  let ?found = "\<lparr>da_meta = ex_meta ''team-a'' ''etl'', da_identities = [entry]\<rparr>"
  have spec: "id_spec (wo_record ?w) = id_spec (new_record (ir_account ex_reconciler) ex_service_account ex_request ex_namespace)"
    by (simp add: ex_issued_def new_record_def ex_request_def ex_namespace_def ex_service_account_def ex_meta_def)
  have "profile_name (pi_profile ex_identity)" by (rule ex_profile_name)
  then have profile: "list_all (\<lambda>i. profile_name (pi_profile i)) (da_identities ?found)" using says(1) by (simp add: ex_identity_def)
  have handled: "returns (pod_handle ref_extern (\<lambda>_. None) (Inr ex_pod) ''team-a'')
      [EIdentities (GetIdentities \<lparr>nn_namespace = ''team-a'', nn_name = ''etl''\<rparr>) (Inr ?found)] (Patched (inject ex_pod [entry]))"
    using says(2) by (simp add: pod_handle_def ex_pod_def Let_def)
  from asked_for_is_granted [OF world known spec run entry _ _ profile _ _ _ _ _ handled]
  have "token_audience_of (inject ex_pod [entry]) (request_string ex_request) = (''a'', True) \<and> (\<exists>i. pi_profile i = request_string ex_request \<and>
      pi_audience i = ''a'' \<and> sublist (profile_section i) (map_get (om_annotations (pod_meta (inject ex_pod [entry]))) ConfigAnnotation) \<and>
      exchange_granted ref_extern (wo_there w') (wo_policies w') (pi_client_id i) ''a'' (pod_subject (inject ex_pod [entry])) ''a'')"
    by (simp add: read_back_projected ex_service_account_def ex_meta_def ex_pod_def service_account_of_def)
  moreover have "request_string ex_request = ''ops/acc''" by (simp add: ex_request_def request_string_def nn_string_def ex_operator_def)
  moreover have "pod_subject (inject ex_pod [entry]) = subject_for ''team-a'' ''etl''"
    by (simp add: inject_runs_as) (simp add: pod_subject_def ex_pod_def service_account_of_def)
  ultimately show ?thesis by metis
qed

end
