(* ===== verification/Ending.thy ===== *)
theory Ending
  imports Convergence
begin

text \<open>
  How an identity nobody wants ends: its request was taken back, its ServiceAccount was made anew, or its
  namespace was taken off the account's list and is claimed for it. One pass of the record controller
  asks for the record to go and the next one leaves nothing of it. The world is \<open>healthy_world\<close> with a
  namespace to read and a delete that marks the record, the locale \<open>closing_world\<close>.
\<close>

definition ending :: "extern \<Rightarrow> issued_reconciler \<Rightarrow> error + service_account \<Rightarrow> account \<Rightarrow> namespace_object \<Rightarrow> issued \<Rightarrow> bool" where
  "ending x r owner account namespace issued \<longleftrightarrow>
     (case owner of
        Inl err \<Rightarrow> is_not_found err
      | Inr sa \<Rightarrow>
          no_longer_asked (requests_for x (om_annotations (sa_meta sa)) (ir_account r)) (ip_identity (id_spec issued)) \<or>
          om_uid (sa_meta sa) \<noteq> is_uid (ip_service_account (id_spec issued)) \<or>
          \<not> serves (ac_spec account) (is_namespace (ip_service_account (id_spec issued))) \<and>
            destruction_holder_of namespace = ir_account r)"

text \<open>One pass where the record was asked to go already, two where it was not.\<close>

definition ending_passes :: "extern \<Rightarrow> issued_reconciler \<Rightarrow> issued \<Rightarrow> reconciled prog" where
  "ending_passes x r issued =
     (let pass = reconcile_issued x r (object_key (id_meta issued))
      in if om_deletion_timestamp (id_meta issued) = None then then_do pass (\<lambda>_. pass) else pass)"

locale closing_world = healthy_world policy_of serve env record_of there policies x r cfg owner account token
  for policy_of :: "'s \<Rightarrow> int \<Rightarrow> string \<Rightarrow> policy option" and serve :: "'s \<Rightarrow> policy_request \<Rightarrow> (error + policy) \<times> 's"
    and env :: "'w \<Rightarrow> event \<Rightarrow> 'w \<Rightarrow> bool" and record_of :: "'w \<Rightarrow> issued" and there :: "'w \<Rightarrow> principal set"
    and policies :: "'w \<Rightarrow> 's" and x :: extern and r :: issued_reconciler and cfg :: config
    and owner :: "error + service_account" and account :: account and token :: string +
  fixes namespace :: namespace_object
  assumes looks: "demands env (ENamespace (is_namespace (ip_service_account (id_spec (record_of w)))))
      (\<lambda>a w'. a = Inr namespace \<and> w' = w) w"
    and marks: "om_finalizers (id_meta (record_of w)) \<noteq> [] \<Longrightarrow>
      demands env (EWrite (DeleteIssued (record_of w)))
        (\<lambda>failed w'. failed = None \<and> om_deletion_timestamp (id_meta (record_of w')) \<noteq> None \<and>
           object_key (id_meta (record_of w')) = object_key (id_meta (record_of w)) \<and>
           om_finalizers (id_meta (record_of w')) = om_finalizers (id_meta (record_of w)) \<and>
           id_spec (record_of w') = id_spec (record_of w) \<and> id_status (record_of w') = id_status (record_of w) \<and>
           there w' = there w) w"
begin

lemma ensures_marked:
  assumes live: "om_deletion_timestamp (id_meta (record_of w)) = None"
      "contains_finalizer (id_meta (record_of w)) ServicePrincipalFinalizer"
    and ending: "ending x r owner account namespace (record_of w)" and named: "nn_namespace (ir_account r) \<noteq> ''''"
  shows "ensures env (\<lambda>a w'. a = (no_result, None) \<and> om_deletion_timestamp (id_meta (record_of w')) \<noteq> None \<and>
      object_key (id_meta (record_of w')) = object_key (id_meta (record_of w)) \<and>
      om_finalizers (id_meta (record_of w')) = om_finalizers (id_meta (record_of w)) \<and>
      id_spec (record_of w') = id_spec (record_of w) \<and> id_status (record_of w') = id_status (record_of w) \<and> there w' = there w)
    (reconcile_issued x r (object_key (id_meta (record_of w)))) w"
  (is "ensures env ?Q _ w")
proof -
  let ?ns = "is_namespace (ip_service_account (id_spec (record_of w)))"
  let ?asked = "case owner of Inl _ \<Rightarrow> False | Inr sa \<Rightarrow>
      \<not> no_longer_asked (requests_for x (om_annotations (sa_meta sa)) (ir_account r)) (ip_identity (id_spec (record_of w))) \<and>
      om_uid (sa_meta sa) = is_uid (ip_service_account (id_spec (record_of w)))"
  have "om_finalizers (id_meta (record_of w)) \<noteq> []" using live(2) by (auto simp: contains_finalizer_def)
  then have deleted: "ensures env ?Q (delete_record (record_of w)) w"
    unfolding delete_record_def by simp (rule demands_mono [OF marks], simp_all add: ignore_not_found_def)
  have still: "ensures env (\<lambda>a w'. w' = w \<and> a = Inr ?asked) (still_wanted x r (record_of w)) w"
    unfolding still_wanted_def using ending by simp (rule demands_mono [OF owned], auto simp: ending_def split: sum.splits)
  have served: "ensures env (\<lambda>a w'. w' = w \<and> a = Inr (True, serves (ac_spec account) ?ns))
      (databricks_account_serves (ir_account r) ?ns) w"
    unfolding databricks_account_serves_def by simp (rule demands_mono [OF declared], auto)
  have held: "ensures env (\<lambda>a w'. w' = w \<and> a = Inr (destruction_holder_of namespace, True)) (destruction_held_by ?ns) w"
    unfolding destruction_held_by_def by simp (rule demands_mono [OF looks], simp)
  have claimed: "ensures env ?Q (destroy_because_not_served x r (record_of w)) w" if "destruction_holder_of namespace = ir_account r"
    unfolding destroy_because_not_served_def Let_def
    by (rule ensures_bind [OF held]) (use that named deleted in \<open>auto simp: nn_zero_def\<close>)
  have "ensures env ?Q (reconcile_record x r (Installed cfg) (record_of w)) w"
  proof (cases ?asked)
    case True
    then show ?thesis
      unfolding reconcile_record_def using live ending claimed
      by simp (rule ensures_bind [OF still], simp, rule ensures_bind [OF served], auto simp: ending_def split: sum.splits)
  next
    case False
    then show ?thesis
      unfolding reconcile_record_def using live deleted by simp (rule ensures_bind [OF still], auto)
  qed
  then show ?thesis
    unfolding reconcile_issued_def ensures.simps
    by (intro demands_mono [OF reads]) (auto intro!: demands_mono [OF slot])
qed

lemma ensures_passes:
  assumes held: "contains_finalizer (id_meta (record_of w)) ServicePrincipalFinalizer"
    and ending: "om_deletion_timestamp (id_meta (record_of w)) = None \<Longrightarrow> ending x r owner account namespace (record_of w)"
    and named: "nn_namespace (ir_account r) \<noteq> ''''"
    and last: "\<And>w1. om_deletion_timestamp (id_meta (record_of w1)) \<noteq> None \<Longrightarrow>
      contains_finalizer (id_meta (record_of w1)) ServicePrincipalFinalizer \<Longrightarrow>
      id_spec (record_of w1) = id_spec (record_of w) \<Longrightarrow> id_status (record_of w1) = id_status (record_of w) \<Longrightarrow> there w1 = there w \<Longrightarrow>
      ensures env Q (reconcile_issued x r (object_key (id_meta (record_of w1)))) w1"
  shows "ensures env Q (ending_passes x r (record_of w)) w"
proof (cases "om_deletion_timestamp (id_meta (record_of w)) = None")
  case True
  have "ensures env Q (reconcile_issued x r (object_key (id_meta (record_of w)))) w1"
    if "om_deletion_timestamp (id_meta (record_of w1)) \<noteq> None"
      "object_key (id_meta (record_of w1)) = object_key (id_meta (record_of w))"
      "om_finalizers (id_meta (record_of w1)) = om_finalizers (id_meta (record_of w))"
      "id_spec (record_of w1) = id_spec (record_of w)" "id_status (record_of w1) = id_status (record_of w)" "there w1 = there w" for w1
    using last [OF that(1) _ that(4-6)] held that(2,3) by (simp add: contains_finalizer_def)
  with True show ?thesis
    unfolding ending_passes_def Let_def
    by (simp, intro ensures_bind [OF ensures_marked [OF True held ending [OF True] named]]) simp
next
  case False
  from last [OF False held refl refl refl] False show ?thesis
    unfolding ending_passes_def Let_def by (simp only: if_False)
qed

lemma issuing_kept: "id_spec i = id_spec j \<Longrightarrow> issuing_for r i issuer = issuing_for r j issuer"
  by (simp add: issuing_for_def)

lemma ensures_ended:
  assumes finalizers: "finalizer_lists (add_finalizer x) (remove_finalizer x)"
    and token: "token_says x token issuer audience"
    and held: "contains_finalizer (id_meta (record_of w)) ServicePrincipalFinalizer"
    and ending: "om_deletion_timestamp (id_meta (record_of w)) = None \<Longrightarrow> ending x r owner account namespace (record_of w)"
    and named: "nn_namespace (ir_account r) \<noteq> ''''"
    and found: "service_principal_state (id_status (record_of w)) = Sent \<Longrightarrow>
      is_singleton (carriers (there w) (marker_for (issuing_for r (record_of w) issuer)))"
  shows "ensures env (\<lambda>a w'. a = (no_result, None) \<and>
      \<not> contains_finalizer (id_meta (record_of w')) ServicePrincipalFinalizer \<and>
      there w' = {p \<in> there w. pr_id p \<notin> belonging r (there w) (record_of w) issuer})
    (ending_passes x r (record_of w)) w"
proof (rule ensures_passes [OF held ending named])
  fix w1
  assume m: "om_deletion_timestamp (id_meta (record_of w1)) \<noteq> None"
    "contains_finalizer (id_meta (record_of w1)) ServicePrincipalFinalizer"
    "id_spec (record_of w1) = id_spec (record_of w)" "id_status (record_of w1) = id_status (record_of w)" "there w1 = there w"
  note same = issuing_kept [OF m(3), of issuer]
  have "belonging r (there w1) (record_of w1) issuer = belonging r (there w) (record_of w) issuer"
    by (simp only: belonging_def m(4,5) same)
  then show "ensures env (\<lambda>a w'. a = (no_result, None) \<and>
      \<not> contains_finalizer (id_meta (record_of w')) ServicePrincipalFinalizer \<and>
      there w' = {p \<in> there w. pr_id p \<notin> belonging r (there w) (record_of w) issuer})
    (reconcile_issued x r (object_key (id_meta (record_of w1)))) w1"
    using ensures_destroyed [OF finalizers token m(1,2)] found m(4,5) same by simp
qed

lemma ensures_held:
  assumes laws: "status_conditions (set_status_condition x) (find_status_condition x)"
    and token: "token_says x token issuer audience"
    and held: "contains_finalizer (id_meta (record_of w)) ServicePrincipalFinalizer"
    and ending: "om_deletion_timestamp (id_meta (record_of w)) = None \<Longrightarrow> ending x r owner account namespace (record_of w)"
    and named: "nn_namespace (ir_account r) \<noteq> ''''"
    and unfound: "service_principal_state (id_status (record_of w)) = Sent"
      "carriers (there w) (marker_for (issuing_for r (record_of w) issuer)) = {}"
  shows "ensures env (\<lambda>a w'. a = (requeue_after issuedRetryAfterAwaited, None) \<and>
      contains_finalizer (id_meta (record_of w')) ServicePrincipalFinalizer \<and> \<not> says_ready x (record_of w') \<and> there w' = there w)
    (ending_passes x r (record_of w)) w"
proof (rule ensures_passes [OF held ending named])
  fix w1
  assume m: "om_deletion_timestamp (id_meta (record_of w1)) \<noteq> None"
    "contains_finalizer (id_meta (record_of w1)) ServicePrincipalFinalizer"
    "id_spec (record_of w1) = id_spec (record_of w)" "id_status (record_of w1) = id_status (record_of w)" "there w1 = there w"
  show "ensures env (\<lambda>a w'. a = (requeue_after issuedRetryAfterAwaited, None) \<and>
      contains_finalizer (id_meta (record_of w')) ServicePrincipalFinalizer \<and> \<not> says_ready x (record_of w') \<and> there w' = there w)
    (reconcile_issued x r (object_key (id_meta (record_of w1)))) w1"
    using ensures_kept [OF laws token m(1,2)] unfound m(4,5) issuing_kept [OF m(3), of issuer] by simp
qed

end

text \<open>C4: In a world that answers as documented, an identity nobody wants ends. Where the ServiceAccount is gone or
  was made anew, does not ask any more, or lives in a namespace that was taken off the account's list and
  is claimed for it, two passes over the record, and one where it was asked to go already, come to
  their end, wherever in them they have got to. Nothing was made yet, or the record names a service
  principal, or exactly one is found that carries the marker of the create it sent: then, of the
  service principals in the account the record's is deleted and only
  it, the finalizer is taken off, and nothing is asked to be looked at again. A create was sent and nothing
  carries its marker: then nothing is deleted, the record keeps its finalizer and is looked at again,
  until somebody settles it.\<close>
theorem unwanted_comes_to_nothing:
  assumes "closing_world policy_of serve env record_of there policies x r cfg owner account token namespace"
    and "finalizer_lists (add_finalizer x) (remove_finalizer x)"
    and "status_conditions (set_status_condition x) (find_status_condition x)"
    and "token_says x token issuer audience"
    and "contains_finalizer (id_meta (record_of w)) ServicePrincipalFinalizer"
    and "om_deletion_timestamp (id_meta (record_of w)) = None \<Longrightarrow> ending x r owner account namespace (record_of w)"
    and "nn_namespace (ir_account r) \<noteq> ''''"
    and "service_principal_state (id_status (record_of w)) = Sent \<Longrightarrow>
      carriers (there w) (marker_for (issuing_for r (record_of w) issuer)) = {} \<or>
      is_singleton (carriers (there w) (marker_for (issuing_for r (record_of w) issuer)))"
  shows "let passes = ending_passes x r (record_of w);
      unfound = (service_principal_state (id_status (record_of w)) = Sent \<and>
        carriers (there w) (marker_for (issuing_for r (record_of w) issuer)) = {})
    in (\<forall>es w1. runs passes es \<and> traced env w es w1 \<longrightarrow> (\<exists>fs a w'. returns passes (es @ fs) a \<and> traced env w1 fs w')) \<and>
      (\<forall>es a w'. returns passes es a \<and> traced env w es w' \<longrightarrow>
         (if unfound
          then a = (requeue_after issuedRetryAfterAwaited, None) \<and>
            contains_finalizer (id_meta (record_of w')) ServicePrincipalFinalizer \<and> \<not> says_ready x (record_of w') \<and> there w' = there w
          else a = (no_result, None) \<and>
            \<not> contains_finalizer (id_meta (record_of w')) ServicePrincipalFinalizer \<and>
            there w' = {p \<in> there w. pr_id p \<notin> belonging r (there w) (record_of w) issuer}))"
proof (cases "service_principal_state (id_status (record_of w)) = Sent \<and>
    carriers (there w) (marker_for (issuing_for r (record_of w) issuer)) = {}")
  case True
  note sound = ensures_sound [OF closing_world.ensures_held [OF assms(1,3-7) conjunct1 [OF True] conjunct2 [OF True]]]
  show ?thesis
    unfolding Let_def if_P [OF True] using sound by blast
next
  case False
  with assms(8) have "service_principal_state (id_status (record_of w)) = Sent \<Longrightarrow>
      is_singleton (carriers (there w) (marker_for (issuing_for r (record_of w) issuer)))" by blast
  note sound = ensures_sound [OF closing_world.ensures_ended [OF assms(1,2,4-7) this]]
  show ?thesis
    unfolding Let_def if_not_P [OF False] using sound by blast
qed

section \<open>Such a world, written out\<close>

lemma ref_closes: "closing_world (\<lambda>s n pid. s n pid) ref_serve (ref_env owner account) wo_record wo_there wo_policies
    ref_extern ex_reconciler ex_config owner account ex_token ex_namespace"
  by (intro closing_world.intro ref_healthy closing_world_axioms.intro)
    (auto simp: demands_def marked_for_deletion_def object_key_def wo_there_def)

definition ex_gone_owner :: "error + service_account" where "ex_gone_owner = Inl (KubeError KubeNotFound ''not found'')"

interpretation ref_closing: closing_world "\<lambda>s n pid. s n pid" ref_serve "ref_env ex_gone_owner ex_account" wo_record wo_there wo_policies
    ref_extern ex_reconciler ex_config ex_gone_owner ex_account ex_token ex_namespace
  by (rule ref_closes)

theorem unwanted_comes_to_nothing_witness:
  "\<exists>es w'. returns (ending_passes ref_extern ex_reconciler (ex_issued ex_known)) es (no_result, None) \<and>
     \<not> contains_finalizer (id_meta (wo_record w')) ServicePrincipalFinalizer \<and>
     traced (ref_env ex_gone_owner ex_account) \<lparr>wo_record = ex_issued ex_known, wo_account = [\<lparr>pr_id = ''17'', pr_application_id = ''app'',
       pr_external_id = ''m'', pr_display_name = ''d''\<rparr>], wo_policies = \<lambda>_ _. None\<rparr> es w' \<and> wo_there w' = {}"
proof -
  obtain w where w: "w = \<lparr>wo_record = ex_issued ex_known, wo_account = [\<lparr>pr_id = ''17'', pr_application_id = ''app'',
       pr_external_id = ''m'', pr_display_name = ''d''\<rparr>], wo_policies = \<lambda>_ _. None\<rparr>" by blast
  have f: "finalizer_lists (add_finalizer ref_extern) (remove_finalizer ref_extern)"
    using ref_finalizers.finalizer_lists_axioms by simp
  have held: "contains_finalizer (id_meta (wo_record w)) ServicePrincipalFinalizer"
    by (simp add: w contains_finalizer_def ex_issued_def)
  have ending: "ending ref_extern ex_reconciler ex_gone_owner ex_account ex_namespace (wo_record w)"
    by (simp add: ending_def ex_gone_owner_def is_kube_def)
  have named: "nn_namespace (ir_account ex_reconciler) \<noteq> ''''" by (simp add: ex_operator_def)
  have known: "id_status (wo_record w) = ex_known" by (simp add: w)
  then have own: "belonging ex_reconciler (wo_there w) (wo_record w) ''a'' = {''17''}" by (simp add: belonging_def)
  have laws: "status_conditions (set_status_condition ref_extern) (find_status_condition ref_extern)"
    using ref_conditions.status_conditions_axioms by simp
  have state: "service_principal_state (id_status (wo_record w)) \<noteq> Sent" by (simp add: known)
  note ends = unwanted_comes_to_nothing [OF ref_closing.closing_world_axioms f laws ex_token_says held ending named notE [OF state],
      unfolded Let_def own]
  let ?passes = "ending_passes ref_extern ex_reconciler (wo_record w)"
  have "runs ?passes [] \<and> traced (ref_env ex_gone_owner ex_account) w [] w" by (simp add: runs_def)
  from mp [OF spec [OF spec [OF conjunct1 [OF ends]]] this] obtain es a w' where
    run: "returns ?passes es a" "traced (ref_env ex_gone_owner ex_account) w es w'" by auto
  from mp [OF spec [OF spec [OF spec [OF conjunct2 [OF ends]]]] conjI [OF run]] state have "a = (no_result, None)"
    "\<not> contains_finalizer (id_meta (wo_record w')) ServicePrincipalFinalizer" "wo_there w' = {p \<in> wo_there w. pr_id p \<notin> {''17''}}"
    by simp_all
  moreover have "{p \<in> wo_there w. pr_id p \<notin> {''17''}} = {}" by (auto simp: w wo_there_def)
  ultimately show ?thesis using run unfolding w by (intro exI [of _ es] exI [of _ w'] conjI) simp_all
qed

end
