(* ===== verification/IssuedSystem.thy ===== *)
theory IssuedSystem
  imports IssuedReports
begin

text \<open>
  Many passes over one record: started at any time, interleaved, stopped anywhere (a crash is a pass
  that is never continued), reading a cache that may be behind, beside others who change the
  record's metadata. \<open>issued_system\<close> is the step relation, over the API server as a parameter;
  \<open>record_store\<close> is what is relied on of the API server, its optimistic concurrency, with the
  documented behaviour written out as \<open>ref_store\<close>. The lemmas are the invariants behind
  creating at most one service principal for a record, over its whole life.
\<close>

section \<open>Where a status comes from\<close>

text \<open>The record a status was written over, among the answers \<open>h\<close>: the one read at the start, or the
  answer to an earlier write of the status.\<close>

definition keeps_status :: "issued_request \<Rightarrow> issued \<Rightarrow> bool" where
  "keeps_status q i \<longleftrightarrow> (\<forall>m. q = UpdateIssuedStatus m \<longrightarrow> id_status i = id_status m)"

definition written_over :: "event list \<Rightarrow> issued \<Rightarrow> issued_request \<Rightarrow> issued \<Rightarrow> bool" where
  "written_over h obj q i \<longleftrightarrow> EIssued q (Inr i) \<in> set h \<and> (\<forall>m. q \<noteq> UpdateIssued m) \<and>
     om_resource_version (id_meta obj) = om_resource_version (id_meta i) \<and>
     (keeps_status q i \<longrightarrow>
        service_principal_state (id_status i) \<le> service_principal_state (id_status obj))"

definition status_from :: "event list \<Rightarrow> event \<Rightarrow> bool" where
  "status_from h e \<longleftrightarrow> (\<forall>obj reply. e = EIssued (UpdateIssuedStatus obj) reply \<longrightarrow> (\<exists>q i. written_over h obj q i))"

lemma status_from_quiet [simp]: "\<not> is_status_update e \<Longrightarrow> status_from h e"
  by (auto simp: status_from_def)

lemma status_from_update [simp]:
  "status_from h (EIssued (UpdateIssuedStatus obj) reply) \<longleftrightarrow> (\<exists>q i. written_over h obj q i)"
  by (simp add: status_from_def)

lemmas from_bind = always_bind [where K = "\<lambda>e. \<not> is_status_update e", OF _ status_from_quiet]

abbreviation from_always :: "'a prog \<Rightarrow> event list \<Rightarrow> bool" where
  "from_always p h \<equiv> always status_from (\<lambda>_ _. True) p h"

text \<open>A record a pass may go on writing over after \<open>h\<close>.\<close>

definition in_hand :: "event list \<Rightarrow> issued \<Rightarrow> bool" where
  "in_hand h i \<longleftrightarrow> (\<exists>q. EIssued q (Inr i) \<in> set h \<and> (\<forall>m. q \<noteq> UpdateIssued m))"

lemma in_hand_append [simp]: "in_hand h i \<Longrightarrow> in_hand (h @ es) i"
  by (auto simp: in_hand_def)

lemma in_hand_answer [simp]: "in_hand (h @ [EIssued (UpdateIssuedStatus m) (Inr i)]) i"
  by (auto simp: in_hand_def)

lemma in_hand_writes:
  assumes "in_hand h i" "om_resource_version (id_meta obj) = om_resource_version (id_meta i)"
    and "service_principal_state (id_status i) \<le> service_principal_state (id_status obj)"
  shows "\<exists>q i. written_over h obj q i"
  using assms by (auto simp: in_hand_def written_over_def)

lemma state_of_reports [simp]:
  "service_principal_state (s\<lparr>it_conditions := cs\<rparr>) = service_principal_state s"
  "service_principal_state (s\<lparr>it_issuer := iss\<rparr>) = service_principal_state s"
  "service_principal_state (s\<lparr>it_audience := aud\<rparr>) = service_principal_state s"
  "service_principal_state (s\<lparr>it_account_id := acc\<rparr>) = service_principal_state s"
  "service_principal_state (s\<lparr>it_client_id := cid\<rparr>) = service_principal_state s"
  "service_principal_state (s\<lparr>it_removed_at := Some t\<rparr>) = Gone"
  by (simp_all add: service_principal_state_def)

lemma state_order [simp]: "Unsent \<le> st" "st \<le> Gone"
  by (cases st; simp add: less_eq_record_state_def)+

lemma state_of_adopted:
  "service_principal_state (id_status i) = Sent \<Longrightarrow>
     Sent \<le> service_principal_state (id_status (adopted c i sp cid iss aud))"
  by (simp add: adopted_def Let_def service_principal_state_def less_eq_record_state_def split: if_splits)

lemma from_reports:
  assumes "in_hand h i" "om_resource_version (id_meta i') = om_resource_version (id_meta i)"
    and "service_principal_state (id_status i) \<le> service_principal_state (id_status i')"
  shows "from_always (report_ready x i' st re m) h" "from_always (report_failure x i' failure) h"
proof -
  show ready: "from_always (report_ready x i' st re m) h" for st re m
    using assms by (auto simp: report_ready_def set_condition_def intro!: in_hand_writes [where i = i])
  show "from_always (report_failure x i' failure) h"
    unfolding report_failure_def always_then_do
    by (rule always_mono [OF ready]) (auto split: prod.split option.split)
qed

lemmas from_report = from_reports [OF _ refl order_refl]

lemma from_policy:
  assumes "in_hand h i"
  shows "from_always (write_policy x c i iss aud) h"
  unfolding write_policy_def Let_def using assms
  by (auto intro!: from_bind emits_calls from_reports [where i = i] split: option.split)

text \<open>A record a create was recorded for, as far as its answer carried what was written.\<close>

definition sent_in_hand :: "event list \<Rightarrow> issued \<Rightarrow> bool" where
  "sent_in_hand h i \<longleftrightarrow> (\<exists>q. EIssued q (Inr i) \<in> set h \<and> (\<forall>m. q \<noteq> UpdateIssued m) \<and>
     (keeps_status q i \<longrightarrow> service_principal_state (id_status i) = Sent))"

lemma sent_in_hand_append [simp]: "sent_in_hand h i \<Longrightarrow> sent_in_hand (h @ es) i"
  by (auto simp: sent_in_hand_def)

lemma sent_in_hand_in_hand: "sent_in_hand h i \<Longrightarrow> in_hand h i"
  by (auto simp: sent_in_hand_def in_hand_def)

lemma adopted_meta [simp]: "id_meta (adopted c i sp cid iss aud) = id_meta i"
  by (simp add: adopted_def Let_def)

lemma marked_sent_meta [simp]: "id_meta (marked_sent c i t) = id_meta i"
  by (simp add: marked_sent_def Let_def)

lemma state_of_marked:
  "service_principal_state (id_status i) = Unsent \<Longrightarrow> service_principal_state (id_status (marked_sent c i t)) = Sent"
  by (simp add: marked_sent_def Let_def service_principal_state_simps)

lemma marked_in_hand:
  "service_principal_state (id_status i) = Unsent \<Longrightarrow>
     sent_in_hand (h @ [EIssued (UpdateIssuedStatus (marked_sent c i t)) (Inr stored)]) stored"
  unfolding sent_in_hand_def
  by (rule exI [of _ "UpdateIssuedStatus (marked_sent c i t)"]) (simp add: keeps_status_def state_of_marked)

lemma from_adopt:
  assumes "sent_in_hand h i"
  shows "from_always (then_do (adopt c i sp cid iss aud) (\<lambda>stored. case stored of
      Inl err \<Rightarrow> Ret (no_result, Some err) | Inr i' \<Rightarrow> write_policy x c i' iss aud)) h"
proof -
  have "\<exists>q i'. written_over h (adopted c i sp cid iss aud) q i'"
    using assms state_of_adopted [of i c sp cid iss aud]
    by (auto simp: sent_in_hand_def written_over_def intro!: exI [of _ i])
  then show ?thesis by (auto simp: adopt_def intro!: from_policy split: sum.split)
qed

lemma from_converge:
  assumes "in_hand h issued" "service_principal_state (id_status issued) = Sent \<longrightarrow> sent_in_hand h issued"
  shows "from_always (converge x r c issued) h"
proof -
  have known: "from_always (converge_known x c issued iss aud) (h @ es)" for iss aud es
    unfolding converge_known_def Let_def using assms(1)
    by (auto intro!: from_bind [OF emits_service_principal_exists] from_report(2) from_reports(1) [where i = issued] from_policy
        split: sum.split bool.split)
  have sent: "from_always (converge_sent x r c issued iss aud) (h @ es)"
    if "service_principal_state (id_status issued) = Sent" for iss aud es
    unfolding converge_sent_def Let_def using assms that
    by (auto intro!: from_bind [OF emits_find_service_principal] from_report from_adopt split: sum.split option.split)
  have unsent: "from_always (converge_unsent x r c issued iss aud) (h @ es)"
    if u: "service_principal_state (id_status issued) = Unsent" for iss aud es
  proof -
    have create: "from_always (then_do (create_service_principal c i) (\<lambda>made. case made of
        Inl err \<Rightarrow> report_failure x issued' (outcome_for x err)
      | Inr (sp, cid) \<Rightarrow> then_do (adopt c issued' sp cid iss aud) (\<lambda>stored. case stored of
          Inl err \<Rightarrow> Ret (no_result, Some err) | Inr i' \<Rightarrow> write_policy x c i' iss aud))) h'"
      if "sent_in_hand h' issued'" for i issued' h'
      using that
      by (auto intro!: from_bind [OF emits_create_service_principal] from_report from_adopt sent_in_hand_in_hand
          split: sum.split prod.split)
    have "\<exists>q i. written_over (h @ es @ [ENow t]) (marked_sent c issued t) q i" for t
      using assms(1) u by (intro in_hand_writes [where i = issued]) simp_all
    then show ?thesis
      using marked_in_hand [OF u, of "h @ es @ [ENow t]" c t for t]
      by (auto simp: converge_unsent_def intro!: create split: sum.split)
  qed
  show ?thesis
    unfolding converge_def using assms(1)
    by (auto intro!: from_bind [OF emits_issuer_and_audience] from_report known sent unsent from_policy
        split: sum.split prod.split record_state.split)
qed

lemma reconcile_from: "from_always (reconcile_issued x r req) []"
proof -
  have ended: "from_always (then_do p (\<lambda>a. Ret (f a))) h" if "from_always p h" for p f h
    unfolding always_then_do by (rule always_mono [OF that]) simp_all
  have decided: "from_always (what_to_delete x r c issued) h" if "in_hand h issued" for c issued h
    unfolding what_to_delete_def Let_def using that
    by (auto intro!: from_bind [OF emits_token_issuer] from_bind [OF emits_find_service_principal] ended from_report
        split: record_state.split sum.split option.split)
  have released: "from_always (release_record x issued) h" for issued h
    by (simp add: release_record_def split: sum.split)
  have destroy: "from_always (destroy_record x r c issued) h" if "in_hand h issued" for c issued h
  proof -
    have kept: "always status_from (\<lambda>_ h'. in_hand h' issued) (what_to_delete x r c issued) h"
      by (rule always_mono [OF always_conj [OF decided [OF that] always_returned]]) (use that in auto)
    have "from_always (then_do (delete_service_principal c sp) (\<lambda>failed. case failed of
        Some err \<Rightarrow> report_failure x issued ((outcome_for x err)\<lparr>oc_reason := reasonDeleteFailed,
            oc_message := still_there (reason_of (quote x) (Some err))\<rparr>)
      | None \<Rightarrow> release_record x issued)) h'" if "in_hand h' issued" for sp h'
      using that by (auto intro!: from_bind [OF emits_delete_service_principal] from_report released split: option.split)
    then show ?thesis
      unfolding destroy_record_def
      by (auto simp: always_then_do [of _ _ "what_to_delete x r c issued"] Let_def released
          intro!: always_mono [OF kept] split: sum.split)
  qed
  have unserved: "from_always (destroy_because_not_served x r issued) h" if "in_hand h issued" for issued h
    unfolding destroy_because_not_served_def Let_def using that
    by (auto intro!: from_bind [OF emits_destruction_held_by] from_report simp: delete_record_def split: sum.split)
  have read: "in_hand (EIssued (GetIssued req) (Inr issued) # h) issued"
    "service_principal_state (id_status issued) = Sent \<Longrightarrow> sent_in_hand (EIssued (GetIssued req) (Inr issued) # h) issued"
    for issued h by (auto simp: in_hand_def sent_in_hand_def)
  have "from_always (reconcile_record x r (snapshot slot) issued)
      [EIssued (GetIssued req) (Inr issued), ESlot slot]" for issued slot
    unfolding reconcile_record_def
    by (auto intro!: from_bind [OF emits_still_wanted] from_bind [OF emits_account_serves] from_converge destroy unserved read
        simp: add_record_finalizer_def delete_record_def split: sum.split bool.split prod.split)
  then show ?thesis by (simp add: reconcile_issued_def split: sum.split)
qed

lemma reconcile_creates_none: "emits (\<lambda>e. \<not> is_new_record e) (reconcile_issued x r req)"
proof -
  have "emits (\<lambda>e. \<not> is_new_record e) (reconcile_record x r c issued)" for c issued
    by (intro emits_reconcile_record emits_destroy_record emits_converge emits_destroy_because_not_served emits_calls)
      simp_all
  then show ?thesis by (simp add: reconcile_issued_def split: sum.split)
qed


section \<open>Passes and the API server\<close>

text \<open>\<open>answers s q a s'\<close>: in the state \<open>s\<close> the request \<open>q\<close> may be answered \<open>a\<close>, leaving \<open>s'\<close>;
  \<open>drifts s s'\<close>: somebody else may take \<open>s\<close> to \<open>s'\<close>. The passes are given by the exchanges each
  has had, in the order they were started.\<close>

inductive issued_system ::
  "extern \<Rightarrow> issued_reconciler \<Rightarrow> namespaced_name \<Rightarrow> ('s \<Rightarrow> issued_request \<Rightarrow> error + issued \<Rightarrow> 's \<Rightarrow> bool) \<Rightarrow>
     ('s \<Rightarrow> 's \<Rightarrow> bool) \<Rightarrow> 's \<Rightarrow> 's \<Rightarrow> event list list \<Rightarrow> bool"
  for x r req answers drifts s0 where
  first: "issued_system x r req answers drifts s0 s0 []"
| starts: "issued_system x r req answers drifts s0 s ps \<Longrightarrow> issued_system x r req answers drifts s0 s (ps @ [[]])"
| record_exchange: "issued_system x r req answers drifts s0 s (ps @ p # qs) \<Longrightarrow>
     runs (reconcile_issued x r req) (p @ [EIssued q a]) \<Longrightarrow> answers s q a s' \<Longrightarrow>
     issued_system x r req answers drifts s0 s' (ps @ (p @ [EIssued q a]) # qs)"
| other_exchange: "issued_system x r req answers drifts s0 s (ps @ p # qs) \<Longrightarrow>
     runs (reconcile_issued x r req) (p @ [e]) \<Longrightarrow> (\<And>q a. e \<noteq> EIssued q a) \<Longrightarrow>
     issued_system x r req answers drifts s0 s (ps @ (p @ [e]) # qs)"
| others: "issued_system x r req answers drifts s0 s ps \<Longrightarrow> drifts s s' \<Longrightarrow> issued_system x r req answers drifts s0 s' ps"

text \<open>A version of the record, stored with this status: the current one left as it is, or a new one.\<close>

definition stores :: "issued list \<Rightarrow> issued_status \<Rightarrow> issued \<Rightarrow> issued list \<Rightarrow> bool" where
  "stores seen status stored seen' \<longleftrightarrow> id_status stored = status \<and>
     (stored = hd seen \<and> seen' = seen \<or>
      om_resource_version (id_meta stored) \<notin> (\<lambda>i. om_resource_version (id_meta i)) ` set seen \<and> seen' = stored # seen)"

text \<open>
  What is relied on of the API server, for one object: a read answers some version there was
  (the cache may be behind); a write of the status is accepted only over the current version,
  and changes nothing of the status but what it says; no other write changes the status; a
  write may have been carried out although its answer is an error. \<open>seen\<close> is the versions there
  were, the current one first.
\<close>

locale record_store =
  fixes answers :: "'s \<Rightarrow> issued_request \<Rightarrow> error + issued \<Rightarrow> 's \<Rightarrow> bool"
    and drifts :: "'s \<Rightarrow> 's \<Rightarrow> bool" and seen :: "'s \<Rightarrow> issued list"
  assumes read: "answers s (GetIssued n) a s' \<Longrightarrow> seen s' = seen s \<and> (\<forall>i. a = Inr i \<longrightarrow> i \<in> set (seen s))"
    and write_status: "answers s (UpdateIssuedStatus obj) (Inr stored) s' \<Longrightarrow>
      om_resource_version (id_meta obj) = om_resource_version (id_meta (hd (seen s))) \<and>
      stores (seen s) (id_status obj) stored (seen s')"
    and write_failed: "answers s (UpdateIssuedStatus obj) (Inl err) s' \<Longrightarrow> seen s' = seen s \<or>
      om_resource_version (id_meta obj) = om_resource_version (id_meta (hd (seen s))) \<and>
      (\<exists>stored. stores (seen s) (id_status obj) stored (seen s'))"
    and write_record: "answers s (UpdateIssued obj) a s' \<Longrightarrow>
      (\<exists>stored. stores (seen s) (id_status (hd (seen s))) stored (seen s') \<and> (\<forall>i. a = Inr i \<longrightarrow> i = stored)) \<or>
      seen s' = seen s \<and> (\<exists>err. a = Inl err)"
    and drifting: "drifts s s' \<Longrightarrow> seen s' = seen s \<or>
      (\<exists>stored. stores (seen s) (id_status (hd (seen s))) stored (seen s'))"
begin

definition versioned :: "'s \<Rightarrow> bool" where
  "versioned s \<longleftrightarrow> seen s \<noteq> [] \<and> distinct (map (\<lambda>i. om_resource_version (id_meta i)) (seen s)) \<and>
     sorted_wrt (\<lambda>new old. old \<le> new) (map (\<lambda>i. service_principal_state (id_status i)) (seen s))"

lemma current_version:
  "versioned s \<Longrightarrow> i \<in> set (seen s) \<Longrightarrow>
     om_resource_version (id_meta i) = om_resource_version (id_meta (hd (seen s))) \<Longrightarrow> i = hd (seen s)"
  by (auto simp: versioned_def distinct_map inj_on_def)

lemma versioned_stores:
  assumes "versioned s" "stores (seen s) status stored (seen s')"
    and "service_principal_state (id_status (hd (seen s))) \<le> service_principal_state status"
  shows "versioned s' \<and> stored \<in> set (seen s') \<and> set (seen s) \<subseteq> set (seen s') \<and> hd (seen s') = stored"
proof -
  from assms(1) obtain a l where s: "seen s = a # l" by (cases "seen s") (auto simp: versioned_def)
  have "service_principal_state (id_status i) \<le> service_principal_state status" if "i \<in> set (seen s)" for i
    using assms(1,3) that s by (auto simp: versioned_def intro: order_trans)
  with assms(1,2) s show ?thesis by (auto simp: versioned_def stores_def)
qed

text \<open>What every pass knows is what the server once said, with the status it was given.\<close>

definition answered :: "'s \<Rightarrow> event list \<Rightarrow> bool" where
  "answered s p \<longleftrightarrow> (\<forall>q i. EIssued q (Inr i) \<in> set p \<longrightarrow> i \<in> set (seen s) \<and> keeps_status q i)"

lemma answered_mono: "answered s p \<Longrightarrow> set (seen s) \<subseteq> set (seen s') \<Longrightarrow> answered s' p"
  by (auto simp: answered_def)

lemma status_write_grows:
  assumes "versioned s" "answered s p" "runs (reconcile_issued x r req) (p @ [EIssued (UpdateIssuedStatus obj) a])"
    and "om_resource_version (id_meta obj) = om_resource_version (id_meta (hd (seen s)))"
  shows "service_principal_state (id_status (hd (seen s))) \<le> service_principal_state (id_status obj)"
proof -
  from always_runs [OF reconcile_from assms(3), of p "EIssued (UpdateIssuedStatus obj) a" "[]"]
  obtain q i where w: "written_over p obj q i" by auto
  with assms(2) have i: "i \<in> set (seen s)" "keeps_status q i" by (auto simp: answered_def written_over_def)
  with w assms(4) current_version [OF assms(1) i(1)] show ?thesis by (simp add: written_over_def)
qed

lemma answer_keeps:
  assumes "versioned s" "answered s p" "runs (reconcile_issued x r req) (p @ [EIssued q a])" "answers s q a s'"
  shows "versioned s' \<and> set (seen s) \<subseteq> set (seen s') \<and> answered s' (p @ [EIssued q a]) \<and>
    service_principal_state (id_status (hd (seen s))) \<le> service_principal_state (id_status (hd (seen s')))"
proof (cases q)
  case (GetIssued n)
  with read assms have "seen s' = seen s" "\<forall>i. a = Inr i \<longrightarrow> i \<in> set (seen s)" by auto
  with assms(1,2) GetIssued show ?thesis by (auto simp: versioned_def answered_def keeps_status_def)
next
  case (CreateIssued i)
  from assms(3) have "False"
    using emits_runs [OF reconcile_creates_none assms(3), of "EIssued q a"] CreateIssued by simp
  then show ?thesis ..
next
  case (UpdateIssued obj)
  with write_record [of s obj a s'] assms(4) consider
      (stored) stored where "stores (seen s) (id_status (hd (seen s))) stored (seen s')" "\<forall>i. a = Inr i \<longrightarrow> i = stored"
    | (failed) err where "seen s' = seen s" "a = Inl err" by auto
  then show ?thesis
  proof cases
    case stored
    from versioned_stores [OF assms(1) stored(1)] stored assms(2) UpdateIssued show ?thesis
      by (auto simp: answered_def keeps_status_def stores_def)
  next
    case failed
    with assms(1,2) show ?thesis by (auto simp: versioned_def answered_def)
  qed
next
  case (UpdateIssuedStatus obj)
  note grows = status_write_grows [OF assms(1,2) assms(3) [unfolded UpdateIssuedStatus]]
  show ?thesis
  proof (cases a)
    case (Inr stored)
    with write_status assms(4) UpdateIssuedStatus have w:
      "om_resource_version (id_meta obj) = om_resource_version (id_meta (hd (seen s)))"
      "stores (seen s) (id_status obj) stored (seen s')" by auto
    from versioned_stores [OF assms(1) w(2) grows [OF w(1)]] grows [OF w(1)] w(2) Inr UpdateIssuedStatus assms(2)
    show ?thesis by (auto simp: answered_def keeps_status_def stores_def)
  next
    case (Inl err)
    with write_failed [of s obj err s'] assms(4) UpdateIssuedStatus consider "seen s' = seen s"
      | (stored) stored where "om_resource_version (id_meta obj) = om_resource_version (id_meta (hd (seen s)))"
        "stores (seen s) (id_status obj) stored (seen s')" by blast
    then show ?thesis
    proof cases
      case stored
      from versioned_stores [OF assms(1) stored(2) grows [OF stored(1)]] grows [OF stored(1)] stored(2) Inl assms(2)
      show ?thesis by (auto simp: answered_def stores_def)
    qed (use assms(1,2) Inl in \<open>auto simp: versioned_def answered_def\<close>)
  qed
qed

text \<open>A pass that has marked the record: read unsent, then written further along.\<close>

definition reads_unsent :: "event list \<Rightarrow> bool" where
  "reads_unsent p \<longleftrightarrow> (\<exists>n i rest. p = EIssued (GetIssued n) (Inr i) # rest \<and> service_principal_state (id_status i) = Unsent)"

definition marks :: "event list \<Rightarrow> bool" where
  "marks p \<longleftrightarrow> reads_unsent p \<and> (\<exists>obj stored. EIssued (UpdateIssuedStatus obj) (Inr stored) \<in> set p \<and>
     service_principal_state (id_status obj) \<noteq> Unsent)"

lemma marks_snoc:
  "marks (p @ [e]) \<longleftrightarrow> marks p \<or> reads_unsent p \<and> (\<exists>obj stored. e = EIssued (UpdateIssuedStatus obj) (Inr stored) \<and>
     service_principal_state (id_status obj) \<noteq> Unsent)"
  by (cases p) (auto simp: marks_def reads_unsent_def)

definition system_ok :: "'s \<Rightarrow> event list list \<Rightarrow> bool" where
  "system_ok s ps \<longleftrightarrow> versioned s \<and> (\<forall>p \<in> set ps. answered s p) \<and> length (filter marks ps) \<le> 1 \<and>
     (filter marks ps \<noteq> [] \<longrightarrow> service_principal_state (id_status (hd (seen s))) \<noteq> Unsent)"

lemma marks_now:
  assumes "versioned s" "answered s p" "runs (reconcile_issued x r req) (p @ [EIssued q a])" "answers s q a s'"
    and "\<not> marks p" "marks (p @ [EIssued q a])"
  shows "service_principal_state (id_status (hd (seen s))) = Unsent \<and>
    service_principal_state (id_status (hd (seen s'))) \<noteq> Unsent"
proof -
  from assms(5,6) obtain obj stored n i rest where q: "q = UpdateIssuedStatus obj" "a = Inr stored"
    "service_principal_state (id_status obj) \<noteq> Unsent"
    and p: "p = EIssued (GetIssued n) (Inr i) # rest" "service_principal_state (id_status i) = Unsent"
    by (auto simp: marks_snoc reads_unsent_def)
  from write_status assms(4) q have w: "om_resource_version (id_meta obj) = om_resource_version (id_meta (hd (seen s)))"
    "stores (seen s) (id_status obj) stored (seen s')" by auto
  from w(2) q(3) have after: "service_principal_state (id_status (hd (seen s'))) \<noteq> Unsent"
    by (auto simp: stores_def)
  from always_runs [OF reconcile_from assms(3), of p "EIssued (UpdateIssuedStatus obj) a" "[]"] q
  obtain q' i' where src: "written_over p obj q' i'" by auto
  with assms(2) have seen: "i' \<in> set (seen s)" "keeps_status q' i'" by (auto simp: answered_def written_over_def)
  with src w(1) current_version [OF assms(1) seen(1)] have i': "i' = hd (seen s)" by (simp add: written_over_def)
  have "service_principal_state (id_status i') = Unsent"
  proof (cases q')
    case (GetIssued m)
    with src have "EIssued (GetIssued m) (Inr i') \<in> set p" by (simp add: written_over_def)
    moreover from assms(3) p q obtain slot more where more: "rest @ [EIssued q a] = ESlot slot # more"
      "runs (reconcile_record x r (snapshot slot) i) more" by (auto simp: runs_reconcile_issued)
    ultimately have "EIssued (GetIssued m) (Inr i') \<in> set (ESlot slot # more) \<or> i' = i"
      unfolding more(1) [symmetric] using p by auto
    with p emits_runs [OF record_reads_once more(2), of "EIssued (GetIssued m) (Inr i')"]
    show ?thesis by (auto simp: is_read_def)
  next
    case (UpdateIssuedStatus m)
    with src have "EIssued (UpdateIssuedStatus m) (Inr i') \<in> set p" by (auto simp: written_over_def)
    with p assms(5) have "service_principal_state (id_status m) = Unsent"
      unfolding marks_def reads_unsent_def by blast
    with seen(2) UpdateIssuedStatus show ?thesis by (simp add: keeps_status_def)
  next
    case (CreateIssued m)
    with src emits_runs [OF reconcile_creates_none assms(3), of "EIssued q' (Inr i')"] show ?thesis
      by (simp add: written_over_def)
  qed (use src in \<open>simp add: written_over_def\<close>)
  with i' after show ?thesis by simp
qed

lemma marks_other: "(\<And>q a. e \<noteq> EIssued q a) \<Longrightarrow> marks (p @ [e]) = marks p"
  by (auto simp: marks_snoc)

lemma marks_Nil [simp]: "\<not> marks []"
  by (simp add: marks_def reads_unsent_def)

lemma system_invariant:
  assumes "issued_system x r req answers drifts s0 s ps" "versioned s0"
  shows "system_ok s ps"
  using assms
proof (induction rule: issued_system.induct)
  case (starts s ps)
  then show ?case by (auto simp: system_ok_def answered_def)
next
  case (record_exchange s ps p qs q a s')
  then have ok: "system_ok s (ps @ p # qs)" by blast
  then have "versioned s" "answered s p" by (auto simp: system_ok_def)
  note keeps = answer_keeps [OF this record_exchange.hyps(2,3)]
    and now = marks_now [OF this record_exchange.hyps(2,3)]
  from keeps ok have "\<forall>p' \<in> set (ps @ (p @ [EIssued q a]) # qs). answered s' p'"
    by (auto simp: system_ok_def intro: answered_mono)
  moreover have "length (filter marks (ps @ (p @ [EIssued q a]) # qs)) \<le> 1 \<and>
      (filter marks (ps @ (p @ [EIssued q a]) # qs) \<noteq> [] \<longrightarrow>
       service_principal_state (id_status (hd (seen s'))) \<noteq> Unsent)"
  proof (cases "marks p \<or> \<not> marks (p @ [EIssued q a])")
    case True
    then have "length (filter marks (ps @ (p @ [EIssued q a]) # qs)) = length (filter marks (ps @ p # qs))"
      by (auto simp: marks_snoc)
    with ok keeps show ?thesis
      by (cases "service_principal_state (id_status (hd (seen s)))")
        (auto simp: system_ok_def less_eq_record_state_def simp del: filter_append)
  next
    case False
    with now ok have "filter marks (ps @ p # qs) = []" "service_principal_state (id_status (hd (seen s'))) \<noteq> Unsent"
      by (auto simp: system_ok_def)
    with False show ?thesis by (simp add: filter_empty_conv)
  qed
  ultimately show ?case using keeps by (simp add: system_ok_def)
next
  case (other_exchange s ps p qs e)
  then show ?case by (auto simp: system_ok_def answered_def marks_other)
next
  case (others s ps s')
  then have ok: "system_ok s ps" by blast
  then have "versioned s" by (simp add: system_ok_def)
  from drifting [OF others.hyps(2)] show ?case
  proof
    assume "\<exists>stored. stores (seen s) (id_status (hd (seen s))) stored (seen s')"
    then obtain stored where "stores (seen s) (id_status (hd (seen s))) stored (seen s')" ..
    with versioned_stores [OF \<open>versioned s\<close> this order_refl] ok show ?case
      by (auto simp: system_ok_def stores_def intro: answered_mono)
  qed (use ok in \<open>auto simp: system_ok_def versioned_def answered_def\<close>)
qed (simp add: system_ok_def)

lemma creating_marks:
  assumes "runs (reconcile_issued x r req) p" "e \<in> set p" "is_create e"
  shows "marks p \<and> length (filter is_create p) \<le> 1"
proof -
  from assms(2,3) obtain cfg d m active reply where e: "e = EPrincipal cfg (CreatePrincipal d m active) reply"
    by (auto simp: is_create_def split: event.splits principal_request.splits)
  from assms(2) obtain pre post where p: "p = pre @ e # post" and "e \<notin> set post"
    by (blast dest: split_list_last)
  from always_runs [OF reconcile_creates assms(1) p] assms(3) obtain issued slot cfg' sent_at stored rest where
    pre: "pre = EIssued (GetIssued req) (Inr issued) # ESlot slot # rest @
       [EIssued (UpdateIssuedStatus (marked_sent (Installed cfg') issued sent_at)) (Inr stored)]"
      "service_principal_state (id_status issued) = Unsent" "\<not> list_ex is_create pre"
    by (rule create_okD)
  have "\<not> list_ex is_create post"
  proof
    assume "list_ex is_create post"
    then obtain e' mid rest' where "post = mid @ e' # rest'" "is_create e'" by (auto simp: list_ex_iff dest: split_list)
    with p have later: "p = (pre @ e # mid) @ e' # rest'" by simp
    from always_runs [OF reconcile_creates assms(1) later] \<open>is_create e'\<close> have "\<not> list_ex is_create (pre @ e # mid)"
      by (rule create_okD)
    with assms(3) show False by simp
  qed
  with pre p assms(3) state_of_marked [OF pre(2), of "Installed cfg'" sent_at] show ?thesis
    by (auto simp: marks_def reads_unsent_def list_ex_iff filter_empty_conv intro: exI)
qed

lemma system_runs:
  "issued_system x r req answers drifts s0 s ps \<Longrightarrow> p \<in> set ps \<Longrightarrow> runs (reconcile_issued x r req) p"
  by (induction arbitrary: p rule: issued_system.induct) (auto simp: runs_def)

lemma creates_at_most_once:
  assumes "issued_system x r req answers drifts s0 s ps" "versioned s0"
  shows "length (filter is_create (concat ps)) \<le> 1"
proof -
  have "length (filter is_create (concat qs)) \<le> length (filter marks qs)" if "set qs \<subseteq> set ps" for qs
    using that
  proof (induction qs)
    case (Cons p qs)
    then have "runs (reconcile_issued x r req) p" using system_runs [OF assms(1)] by simp
    then have "length (filter is_create p) \<le> (if marks p then 1 else 0)"
      using creating_marks by (cases "filter is_create p") (auto simp: filter_eq_Cons_iff dest: creating_marks)
    with Cons show ?case by (auto split: if_splits)
  qed simp
  also have "length (filter marks ps) \<le> 1" using system_invariant [OF assms] by (simp add: system_ok_def)
  finally show ?thesis by simp
qed

end

section \<open>The documented API server, written out\<close>

type_synonym versions = "issued list"

definition fresh_version :: "versions \<Rightarrow> string" where
  "fresh_version s = CHR ''1'' # concat (map (\<lambda>i. om_resource_version (id_meta i)) s)"

definition restored :: "versions \<Rightarrow> issued \<Rightarrow> issued" where
  "restored s i = i\<lparr>id_meta := id_meta i\<lparr>om_resource_version := fresh_version s\<rparr>\<rparr>"

fun ref_answers :: "versions \<Rightarrow> issued_request \<Rightarrow> error + issued \<Rightarrow> versions \<Rightarrow> bool" where
  "ref_answers s (GetIssued n) a s' \<longleftrightarrow> s' = s \<and> (case a of Inr i \<Rightarrow> i \<in> set s | Inl err \<Rightarrow> True)"
| "ref_answers s (CreateIssued i) a s' \<longleftrightarrow> s' = s \<and> a = Inl (KubeError KubeAlreadyExists ''already exists'')"
| "ref_answers s (UpdateIssued obj) a s' \<longleftrightarrow>
     (if om_resource_version (id_meta obj) = om_resource_version (id_meta (hd s))
      then (let stored = restored s (obj\<lparr>id_status := id_status (hd s)\<rparr>)
            in s' = stored # s \<and> (case a of Inr i \<Rightarrow> i = stored | Inl err \<Rightarrow> True))
      else s' = s \<and> a = Inl (KubeError KubeConflict ''the object has been modified''))"
| "ref_answers s (UpdateIssuedStatus obj) a s' \<longleftrightarrow>
     (if om_resource_version (id_meta obj) = om_resource_version (id_meta (hd s))
      then (let stored = restored s ((hd s)\<lparr>id_status := id_status obj\<rparr>)
            in s' = stored # s \<and> (case a of Inr i \<Rightarrow> i = stored | Inl err \<Rightarrow> True))
      else s' = s \<and> a = Inl (KubeError KubeConflict ''the object has been modified''))"

definition ref_drifts :: "versions \<Rightarrow> versions \<Rightarrow> bool" where
  "ref_drifts s s' \<longleftrightarrow> s' = restored s (id_meta_update (om_labels_update (\<lambda>_. [])) (hd s)) # s"

lemma fresh_version_fresh: "i \<in> set s \<Longrightarrow> om_resource_version (id_meta i) \<noteq> fresh_version s"
proof -
  assume "i \<in> set s"
  then have "length (om_resource_version (id_meta i)) \<le> length (concat (map (\<lambda>i. om_resource_version (id_meta i)) s))"
    by (induction s) auto
  then show ?thesis by (auto simp: fresh_version_def)
qed

lemma restored_simps [simp]:
  "om_resource_version (id_meta (restored s i)) = fresh_version s" "id_status (restored s i) = id_status i"
  by (simp_all add: restored_def)

lemma stores_restored: "stores s status i (i # s) \<longleftrightarrow> id_status i = status \<and>
    om_resource_version (id_meta i) \<notin> (\<lambda>i. om_resource_version (id_meta i)) ` set s"
  by (auto simp: stores_def)

lemma fresh_not_in: "fresh_version s \<notin> (\<lambda>i. om_resource_version (id_meta i)) ` set s"
  using fresh_version_fresh by fastforce

interpretation ref_store: record_store ref_answers ref_drifts "\<lambda>s. s"
proof
  fix s s' :: versions and n obj a stored err
  show "ref_answers s (GetIssued n) a s' \<Longrightarrow> s' = s \<and> (\<forall>i. a = Inr i \<longrightarrow> i \<in> set s)"
    by auto
  show "ref_answers s (UpdateIssuedStatus obj) (Inr stored) s' \<Longrightarrow>
      om_resource_version (id_meta obj) = om_resource_version (id_meta (hd s)) \<and> stores s (id_status obj) stored s'"
    by (auto simp: Let_def stores_restored fresh_not_in split: if_splits)
  show "ref_answers s (UpdateIssuedStatus obj) (Inl err) s' \<Longrightarrow> s' = s \<or>
      om_resource_version (id_meta obj) = om_resource_version (id_meta (hd s)) \<and> (\<exists>stored. stores s (id_status obj) stored s')"
    by (auto simp: Let_def split: if_splits intro!: exI [of _ "hd s'"]) (auto simp: stores_restored fresh_not_in)
  show "ref_answers s (UpdateIssued obj) a s' \<Longrightarrow>
      (\<exists>stored. stores s (id_status (hd s)) stored s' \<and> (\<forall>i. a = Inr i \<longrightarrow> i = stored)) \<or> s' = s \<and> (\<exists>err. a = Inl err)"
    by (cases a) (auto simp: Let_def stores_restored fresh_not_in split: if_splits intro!: exI [of _ "hd s'"])
  show "ref_drifts s s' \<Longrightarrow> s' = s \<or> (\<exists>stored. stores s (id_status (hd s)) stored s')"
    by (auto simp: ref_drifts_def stores_restored fresh_not_in intro!: exI [of _ "hd s'"])
qed

section \<open>One create over the life of a record\<close>

text \<open>C7: However many passes run over one record, interleaved, stopped anywhere and reading behind the
  API server, at most one of them sends a create of a service principal, and once: afterwards the
  record is never again in the state \<open>Unsent\<close>. What is relied on is the API server's refusal to
  write a status over any version but the current one.\<close>
theorem created_at_most_once:
  assumes "record_store answers drifts seen"
    and "issued_system x r req answers drifts s0 s ps" and "seen s0 = [first]"
  shows "length (filter is_create (concat ps)) \<le> 1 \<and>
    ((\<exists>e \<in> set (concat ps). is_create e) \<longrightarrow> service_principal_state (id_status (hd (seen s))) \<noteq> Unsent)"
proof -
  note store = record_store.creates_at_most_once [OF assms(1,2)] record_store.system_invariant [OF assms(1,2)]
  have v: "record_store.versioned seen s0"
    by (simp add: record_store.versioned_def [OF assms(1)] assms(3))
  have "service_principal_state (id_status (hd (seen s))) \<noteq> Unsent" if "e \<in> set (concat ps)" "is_create e" for e
  proof -
    from that(1) obtain p where p: "p \<in> set ps" "e \<in> set p" by auto
    from record_store.system_runs [OF assms(1,2) p(1)] have "record_store.marks p"
      using record_store.creating_marks [OF assms(1) _ p(2) that(2)] by blast
    with p(1) have "filter record_store.marks ps \<noteq> []" by (auto simp: filter_empty_conv)
    with store(2) [OF v] show ?thesis by (simp add: record_store.system_ok_def [OF assms(1)])
  qed
  with store(1) [OF v] show ?thesis by blast
qed

text \<open>C8: Through all of this the record's state only moves forward, from \<open>Unsent\<close> over \<open>Sent\<close> and \<open>Known\<close> to
  \<open>Gone\<close>: of any two versions of it the newer is at least as far along, and no two versions are
  taken for one another.\<close>
theorem record_state_only_forward:
  assumes "record_store answers drifts seen"
    and "issued_system x r req answers drifts s0 s ps" and "seen s0 = [first]"
  shows "sorted_wrt (\<lambda>new old. service_principal_state (id_status old) \<le> service_principal_state (id_status new)) (seen s) \<and>
    distinct (map (\<lambda>i. om_resource_version (id_meta i)) (seen s))"
proof -
  have "record_store.versioned seen s0"
    by (simp add: record_store.versioned_def [OF assms(1)] assms(3))
  from record_store.system_invariant [OF assms(1,2) this] show ?thesis
    by (simp add: record_store.system_ok_def [OF assms(1)] record_store.versioned_def [OF assms(1)] sorted_wrt_map)
qed

section \<open>Two passes over one record\<close>

fun exchanged :: "('s \<Rightarrow> issued_request \<Rightarrow> error + issued \<Rightarrow> 's \<Rightarrow> bool) \<Rightarrow> 's \<Rightarrow> event list \<Rightarrow> 's \<Rightarrow> bool" where
  "exchanged answers s [] s' \<longleftrightarrow> s' = s"
| "exchanged answers s (EIssued q a # es) s' \<longleftrightarrow> (\<exists>s1. answers s q a s1 \<and> exchanged answers s1 es s')"
| "exchanged answers s (e # es) s' \<longleftrightarrow> exchanged answers s es s'"

lemma exchanged_append:
  "exchanged answers s (es @ fs) s' \<longleftrightarrow> (\<exists>s1. exchanged answers s es s1 \<and> exchanged answers s1 fs s')"
  by (induction answers s es s' arbitrary: s' rule: exchanged.induct) auto

lemma pass_alone:
  assumes "issued_system x r req answers drifts s0 s ps"
  shows "runs (reconcile_issued x r req) es \<Longrightarrow> exchanged answers s es s' \<Longrightarrow>
     issued_system x r req answers drifts s0 s' (ps @ [es])"
proof (induction es arbitrary: s' rule: rev_induct)
  case Nil
  with starts [OF assms] show ?case by simp
next
  case (snoc e es)
  then obtain s1 where s1: "exchanged answers s es s1" "exchanged answers s1 [e] s'" by (auto simp: exchanged_append)
  from snoc.IH [OF runs_prefix [OF snoc.prems(1)] s1(1)]
  have sys: "issued_system x r req answers drifts s0 s1 (ps @ es # [])" by simp
  show ?case
  proof (cases "\<exists>q a. e = EIssued q a")
    case True
    with s1(2) snoc.prems(1) show ?thesis by (auto intro: record_exchange [OF sys])
  next
    case False
    with s1(2) have "s' = s1" by (cases e) auto
    with False snoc.prems(1) show ?thesis by (auto intro: other_exchange [OF sys])
  qed
qed

text \<open>One pass marks the record and creates; another, started over the same cached read, is refused.\<close>

definition ex_first :: issued where "ex_first = ex_issued ex_status"

definition ex_marked :: issued where
  "ex_marked = restored [ex_first] (marked_sent (Installed ex_config) ex_first 5)"

definition ex_creating :: "event list" where
  "ex_creating = (ex_questions ex_first @ [EFile ''/token'' (Inr ex_token), ENow 5,
     EIssued (UpdateIssuedStatus (marked_sent (Installed ex_config) ex_first 5)) (Inr ex_marked)]) @
     EPrincipal ex_config (CreatePrincipal (display_name_for ''team-a'' ''etl'' '''')
       (marker_for (issuing_for ex_reconciler ex_first ''a'')) True)
       (Inr \<lparr>pr_id = ''17'', pr_application_id = ''app'', pr_external_id = '''', pr_display_name = ''''\<rparr>) # []"

definition ex_refused :: "event list" where
  "ex_refused = ex_questions ex_first @ [EFile ''/token'' (Inr ex_token), ENow 6,
     EIssued (UpdateIssuedStatus (marked_sent (Installed ex_config) ex_first 6))
       (Inl (KubeError KubeConflict ''the object has been modified''))]"

lemma ex_refused_runs:
  "runs (reconcile_issued ref_extern ex_reconciler (object_key (id_meta ex_first))) ex_refused"
proof -
  have u: "service_principal_state ex_status = Unsent" by (simp add: ex_status_def service_principal_state_def)
  then have g: "service_principal_state ex_status \<noteq> Gone" by simp
  show ?thesis
    unfolding ex_refused_def ex_first_def
    by (simp add: runs_def ex_reaches_converge ex_reads_token [OF g] u converge_unsent_def)
qed

lemma ex_two_passes:
  "issued_system ref_extern ex_reconciler (object_key (id_meta ex_first)) ref_answers ref_drifts [ex_first]
     [ex_marked, ex_first] [ex_creating, ex_refused]"
proof -
  have v: "fresh_version [ex_first] \<noteq> om_resource_version (id_meta ex_first)"
    using fresh_version_fresh [of ex_first "[ex_first]"] by simp
  have one: "exchanged ref_answers [ex_first] ex_creating [ex_marked, ex_first]"
    by (simp add: ex_creating_def ex_questions_def ex_marked_def exchanged_append Let_def)
      (simp add: restored_def marked_sent_def Let_def)
  have two: "exchanged ref_answers [ex_marked, ex_first] ex_refused [ex_marked, ex_first]"
    using v by (simp add: ex_refused_def ex_questions_def ex_marked_def exchanged_append)
  have "runs (reconcile_issued ref_extern ex_reconciler (object_key (id_meta ex_first))) ex_creating"
    unfolding ex_creating_def ex_first_def by (rule ex_creates_stored)
  from pass_alone [OF pass_alone [OF issued_system.first this one] ex_refused_runs two] show ?thesis by simp
qed

theorem created_at_most_once_witness:
  "length (filter is_create (concat [ex_creating, ex_refused])) \<le> 1 \<and>
   service_principal_state (id_status ex_marked) \<noteq> Unsent"
proof -
  have "\<exists>e \<in> set (concat [ex_creating, ex_refused]). is_create e" by (simp add: ex_creating_def)
  with created_at_most_once [OF ref_store.record_store_axioms ex_two_passes refl] show ?thesis by simp
qed

theorem record_state_only_forward_witness:
  "service_principal_state (id_status ex_first) \<le> service_principal_state (id_status ex_marked)"
  using record_state_only_forward [OF ref_store.record_store_axioms ex_two_passes refl] by simp

end
