(* ===== verification/IssuedEvidence.thy ===== *)
theory IssuedEvidence
  imports IssuedSystem
begin

text \<open>
  What a pass of the record controller has evidence for when it writes: every service principal id it
  stores was answered to it in the same pass, every removal it records and every record it lets go
  of rests on an answer that the service principal is not there, and each write is made over the
  version it says. These are the facts about one pass that \<open>IssuedLife\<close> composes with the record's
  store and with Databricks.
\<close>

section \<open>Evidence\<close>

text \<open>The service principals a pass was answered about: made by its create, found carrying the marker
  of the record it read, or named by a version of the record.\<close>

definition knows :: "issued_reconciler \<Rightarrow> event list \<Rightarrow> string \<Rightarrow> bool" where
  "knows r h sp \<longleftrightarrow>
     (\<exists>cfg d m active p. EPrincipal cfg (CreatePrincipal d m active) (Inr p) \<in> set h \<and> pr_id p = sp) \<or>
     (\<exists>n i rest cfg f listed p issuer. h = EIssued (GetIssued n) (Inr i) # rest \<and> EPrincipals cfg f (Inr listed) \<in> set rest \<and>
        p \<in> set listed \<and> pr_external_id p = marker_for (issuing_for r i issuer) \<and> pr_id p = sp) \<or>
     (\<exists>q i. EIssued q (Inr i) \<in> set h \<and> it_service_principal_id (id_status i) = sp \<and> sp \<noteq> '''')"

text \<open>Two answers say that a service principal is not there.\<close>

definition absent :: "event \<Rightarrow> string \<Rightarrow> bool" where
  "absent e sp \<longleftrightarrow>
     (\<exists>cfg err. e = EPrincipal cfg (GetPrincipal sp) (Inl err) \<and> kind_of (Some err) = NotFound) \<or>
     (\<exists>cfg reply. e = ECall cfg (DeletePrincipal sp) reply \<and> (\<forall>err. reply = Some err \<longrightarrow> kind_of (Some err) = NotFound))"

definition seen_gone :: "issued_reconciler \<Rightarrow> event list \<Rightarrow> bool" where
  "seen_gone r h \<longleftrightarrow> (\<exists>pre e post sp. h = pre @ e # post \<and> knows r pre sp \<and> absent e sp)"

lemma knows_append: "knows r h sp \<Longrightarrow> knows r (h @ es) sp"
  by (fastforce simp: knows_def)

lemma seen_gone_append: "seen_gone r h \<Longrightarrow> seen_gone r (h @ es)"
  unfolding seen_gone_def by force

lemma seen_gone_snoc: "seen_gone r (h @ [e]) \<longleftrightarrow> seen_gone r h \<or> (\<exists>sp. knows r h sp \<and> absent e sp)"
proof
  assume "seen_gone r (h @ [e])"
  then obtain pre e' post sp where s: "h @ [e] = pre @ e' # post" "knows r pre sp" "absent e' sp"
    unfolding seen_gone_def by blast
  show "seen_gone r h \<or> (\<exists>sp. knows r h sp \<and> absent e sp)"
  proof (cases post rule: rev_cases)
    case Nil
    with s show ?thesis by auto
  next
    case (snoc post' e'')
    with s show ?thesis unfolding seen_gone_def by auto
  qed
next
  assume "seen_gone r h \<or> (\<exists>sp. knows r h sp \<and> absent e sp)"
  then show "seen_gone r (h @ [e])"
  proof
    assume "\<exists>sp. knows r h sp \<and> absent e sp"
    then show ?thesis unfolding seen_gone_def by blast
  qed (rule seen_gone_append)
qed

lemma knows_answered: "EIssued q (Inr i) \<in> set h \<Longrightarrow> it_service_principal_id (id_status i) \<noteq> '''' \<Longrightarrow>
    knows r h (it_service_principal_id (id_status i))"
  unfolding knows_def by blast

section \<open>Statuses\<close>

definition backed :: "issued_reconciler \<Rightarrow> event list \<Rightarrow> issued \<Rightarrow> bool" where
  "backed r h obj \<longleftrightarrow>
     (it_service_principal_id (id_status obj) \<noteq> '''' \<longrightarrow> knows r h (it_service_principal_id (id_status obj))) \<and>
     (it_removed_at (id_status obj) \<noteq> None \<longrightarrow>
        seen_gone r h \<or> (\<exists>q i. EIssued q (Inr i) \<in> set h \<and> it_removed_at (id_status i) \<noteq> None))"

definition grounded :: "issued_reconciler \<Rightarrow> event list \<Rightarrow> event \<Rightarrow> bool" where
  "grounded r h e \<longleftrightarrow> (\<forall>obj reply. e = EIssued (UpdateIssuedStatus obj) reply \<longrightarrow> backed r h obj)"

lemma grounded_quiet [simp]: "\<not> is_status_update e \<Longrightarrow> grounded r h e"
  by (auto simp: grounded_def)

lemma grounded_update [simp]: "grounded r h (EIssued (UpdateIssuedStatus obj) reply) \<longleftrightarrow> backed r h obj"
  by (simp add: grounded_def)

lemmas grounded_bind = always_bind [where K = "\<lambda>e. \<not> is_status_update e", OF _ grounded_quiet]

abbreviation ground_always :: "issued_reconciler \<Rightarrow> 'a prog \<Rightarrow> event list \<Rightarrow> bool" where
  "ground_always r p h \<equiv> always (grounded r) (\<lambda>_ _. True) p h"

lemma backed_append [simp]: "backed r h i \<Longrightarrow> backed r (h @ es) i"
  unfolding backed_def using knows_append seen_gone_append by fastforce

lemma backed_answer [simp]: "backed r (h @ [EIssued q (Inr i)]) i"
  by (auto simp: backed_def knows_def)

lemma backed_same: "backed r h i \<Longrightarrow> it_service_principal_id (id_status i') = it_service_principal_id (id_status i) \<Longrightarrow>
    it_removed_at (id_status i') = it_removed_at (id_status i) \<Longrightarrow> backed r h i'"
  by (simp add: backed_def)

lemma ground_reports:
  assumes "backed r h i"
  shows "ground_always r (report_ready x i st re m) h" "ground_always r (report_failure x i failure) h"
proof -
  show ready: "ground_always r (report_ready x i st re m) h" for st re m
    using assms by (auto simp: report_ready_def set_condition_def intro: backed_same [where i = i])
  show "ground_always r (report_failure x i failure) h"
    unfolding report_failure_def always_then_do
    by (rule always_mono [OF ready]) (auto split: prod.split option.split)
qed

lemma ground_policy:
  assumes "backed r h i"
  shows "ground_always r (write_policy x c i iss aud) h"
proof -
  have "backed r (h @ es) (i\<lparr>id_status := id_status i\<lparr>it_issuer := iss, it_audience := aud\<rparr>\<rparr>)" for es
    using backed_append [OF assms] by (rule backed_same) simp_all
  then show ?thesis
    unfolding write_policy_def Let_def by (auto intro!: grounded_bind emits_calls ground_reports split: option.split)
qed

lemma backed_adopted:
  assumes "backed r h i" "knows r h sp"
  shows "backed r h (adopted c i sp cid iss aud)"
  using assms by (simp add: backed_def adopted_def Let_def)

lemma ground_adopt:
  assumes "backed r h i" "knows r h sp"
  shows "ground_always r (then_do (adopt c i sp cid iss aud) (\<lambda>stored. case stored of
      Inl err \<Rightarrow> Ret (no_result, Some err) | Inr i' \<Rightarrow> write_policy x c i' iss aud)) h"
  using backed_adopted [OF assms] by (auto simp: adopt_def intro!: ground_policy split: sum.split)

lemma created_in: "knows r (h @ [EPrincipal cfg (CreatePrincipal d m active) (Inr p)]) (pr_id p)"
  unfolding knows_def by (rule disjI1) (simp, blast)

lemma created_knows: "returns (create_service_principal c i) es (Inr (sp, cid)) \<Longrightarrow> knows r (h @ es) sp"
  by (cases c) (auto simp: create_service_principal_def returns_branches unconfigured_err_def intro: created_in)

lemma found_knows:
  assumes "returns (find_service_principal x c (issuing_for r i issuer)) es (Inr (Some (sp, cid)))"
  shows "knows r (EIssued (GetIssued n) (Inr i) # rest @ es) sp"
proof -
  from find_adopts [OF assms] obtain cfg f listed p where l: "EPrincipals cfg f (Inr listed) \<in> set es"
    "carrying listed (marker_for (issuing_for r i issuer)) = [p]" "pr_id p = sp" by blast
  from l(2) have "p \<in> set (carrying listed (marker_for (issuing_for r i issuer)))" by simp
  then have "p \<in> set listed" "pr_external_id p = marker_for (issuing_for r i issuer)" by (auto simp: carrying_def)
  with l show ?thesis unfolding knows_def by force
qed

lemma missing_seen_gone:
  assumes "returns (service_principal_exists c sp) es (Inr False)" "knows r h sp"
  shows "seen_gone r (h @ es)"
proof -
  from assms(1) obtain cfg err where "es = [EPrincipal cfg (GetPrincipal sp) (Inl err)]" "kind_of (Some err) = NotFound"
    by (cases c) (auto simp: service_principal_exists_def returns_branches unconfigured_err_def split: if_splits)
  with assms(2) show ?thesis by (auto simp: seen_gone_snoc absent_def)
qed

lemma ground_known:
  assumes "backed r h i" "service_principal_state (id_status i) = Known"
  shows "ground_always r (converge_known x c i iss aud) h"
proof -
  have k: "knows r h (it_service_principal_id (id_status i))"
    using assms by (auto simp: backed_def service_principal_state_simps)
  have gone: "backed r ((h @ es) @ [ENow t]) (i\<lparr>id_status := id_status i\<lparr>it_removed_at := Some t\<rparr>\<rparr>)"
    if "returns (service_principal_exists c (it_service_principal_id (id_status i))) es (Inr False)" for es t
    using knows_append [OF k, of "es @ [ENow t]"] seen_gone_append [OF missing_seen_gone [OF that k], of "[ENow t]"]
    by (simp add: backed_def)
  show ?thesis
    unfolding converge_known_def Let_def
    using assms(1) gone
    by (auto intro!: grounded_bind [OF emits_service_principal_exists] ground_reports(2) ground_policy ground_reports(1)
        split: sum.split bool.split simp del: append_assoc)
qed

lemma ground_sent:
  assumes "h = EIssued (GetIssued n) (Inr i) # rest"
  shows "ground_always r (converge_sent x r c i iss aud) h"
proof -
  have b: "backed r h i" using assms by (auto simp: backed_def knows_def)
  have k: "knows r (h @ es) sp"
    if "returns (find_service_principal x c (issuing_for r i iss)) es (Inr (Some (sp, cid)))" for es sp cid
    using found_knows [OF that] assms by simp
  show ?thesis
    unfolding converge_sent_def Let_def using b k
    by (auto intro!: grounded_bind [OF emits_find_service_principal] ground_reports ground_adopt
        split: sum.split option.split)
qed

lemma ground_unsent:
  assumes "backed r h i"
  shows "ground_always r (converge_unsent x r c i iss aud) h"
proof -
  have marked: "backed r (h @ [ENow t]) (marked_sent c i t)" for t
    using backed_append [OF assms] by (rule backed_same) (simp_all add: marked_sent_def Let_def)
  have create: "ground_always r (then_do (create_service_principal c (issuing_for r i iss)) (\<lambda>made. case made of
      Inl err \<Rightarrow> report_failure x i' (outcome_for x err)
    | Inr (sp, cid) \<Rightarrow> then_do (adopt c i' sp cid iss aud) (\<lambda>stored. case stored of
        Inl err \<Rightarrow> Ret (no_result, Some err) | Inr i' \<Rightarrow> write_policy x c i' iss aud))) h'"
    if "backed r h' i'" for i' h'
    using that created_knows
    by (auto intro!: grounded_bind [OF emits_create_service_principal] ground_reports ground_adopt split: sum.split prod.split)
  show ?thesis
    unfolding converge_unsent_def using marked backed_answer [of r "h @ [ENow t]" for t]
    by (auto intro!: create split: sum.split)
qed

lemma ground_converge:
  assumes "h = EIssued (GetIssued n) (Inr i) # rest"
  shows "ground_always r (converge x r c i) h"
proof -
  have b: "backed r h i" using assms by (auto simp: backed_def knows_def)
  have sent: "ground_always r (converge_sent x r c i iss aud) (h @ es)" for iss aud es
    by (rule ground_sent) (simp add: assms)
  show ?thesis
    unfolding converge_def using b
    by (auto intro!: grounded_bind [OF emits_issuer_and_audience] ground_reports ground_known sent ground_unsent ground_policy
        split: sum.split prod.split record_state.split)
qed

lemma reconcile_grounded: "ground_always r (reconcile_issued x r req) []"
proof -
  have ended: "ground_always r (then_do p (\<lambda>a. Ret (f a))) h" if "ground_always r p h" for p f h
    unfolding always_then_do by (rule always_mono [OF that]) simp_all
  have decided: "ground_always r (what_to_delete x r c i) h" if "backed r h i" for c i h
    unfolding what_to_delete_def Let_def using that
    by (auto intro!: grounded_bind [OF emits_token_issuer] grounded_bind [OF emits_find_service_principal] ended ground_reports
        split: record_state.split sum.split option.split)
  have released: "ground_always r (release_record x i) h" for i h
    by (simp add: release_record_def split: sum.split)
  have destroy: "ground_always r (destroy_record x r c i) h" if "backed r h i" for c i h
  proof -
    have kept: "always (grounded r) (\<lambda>_ h'. backed r h' i) (what_to_delete x r c i) h"
      by (rule always_mono [OF always_conj [OF decided [OF that] always_returned]]) (use that in auto)
    have "ground_always r (then_do (delete_service_principal c sp) (\<lambda>failed. case failed of
        Some err \<Rightarrow> report_failure x i ((outcome_for x err)\<lparr>oc_reason := reasonDeleteFailed,
            oc_message := still_there (reason_of (quote x) (Some err))\<rparr>)
      | None \<Rightarrow> release_record x i)) h'" if "backed r h' i" for sp h'
      using that by (auto intro!: grounded_bind [OF emits_delete_service_principal] ground_reports released split: option.split)
    then show ?thesis
      unfolding destroy_record_def
      by (auto simp: always_then_do [of _ _ "what_to_delete x r c i"] Let_def released
          intro!: always_mono [OF kept] split: sum.split)
  qed
  have unserved: "ground_always r (destroy_because_not_served x r i) h" if "backed r h i" for i h
    unfolding destroy_because_not_served_def Let_def using that
    by (auto intro!: grounded_bind [OF emits_destruction_held_by] ground_reports simp: delete_record_def split: sum.split)
  have read: "backed r (EIssued (GetIssued req) (Inr i) # h) i" for i h
    by (auto simp: backed_def knows_def)
  have "ground_always r (reconcile_record x r (snapshot slot) i) [EIssued (GetIssued req) (Inr i), ESlot slot]" for i slot
    unfolding reconcile_record_def
    by (auto intro!: grounded_bind [OF emits_still_wanted] grounded_bind [OF emits_account_serves] ground_converge [OF refl]
        destroy unserved read simp: add_record_finalizer_def delete_record_def split: sum.split bool.split prod.split)
  then show ?thesis by (simp add: reconcile_issued_def split: sum.split)
qed


section \<open>Letting go\<close>

lemma emits_so_far:
  "emits K p \<Longrightarrow> list_all K h \<Longrightarrow> always (\<lambda>h' e. list_all K h') (\<lambda>_ h'. list_all K h') p h"
  by (induction p arbitrary: h) simp_all

definition is_deletion :: "event \<Rightarrow> bool" where
  "is_deletion e = (case e of ECall _ (DeletePrincipal _) _ \<Rightarrow> True | _ \<Rightarrow> False)"

definition is_listing :: "event \<Rightarrow> bool" where
  "is_listing e = (case e of EPrincipals _ _ _ \<Rightarrow> True | _ \<Rightarrow> False)"

lemma is_deletion_simps [simp]:
  "is_deletion (ECall cfg (DeletePrincipal sp) r0)" "\<not> is_deletion (EIssued q1 r1)" "\<not> is_deletion (EPrincipal cfg q2 r2)"
  "\<not> is_deletion (EAccount q3 r3)" "\<not> is_deletion (EServiceAccount q4 r4)" "\<not> is_deletion (ENamespace n r5)"
  "\<not> is_deletion (EWrite w r6)" "\<not> is_deletion (EPrincipals cfg f r7)" "\<not> is_deletion (EPolicy cfg q8 r8)"
  "\<not> is_deletion (EFile pa r10)" "\<not> is_deletion (ENow t)" "\<not> is_deletion (ESlot sl)"
  by (simp_all add: is_deletion_def)

lemma is_listing_simps [simp]:
  "is_listing (EPrincipals cfg f r7)" "\<not> is_listing (EIssued q1 r1)" "\<not> is_listing (EPrincipal cfg q2 r2)"
  "\<not> is_listing (EAccount q3 r3)" "\<not> is_listing (EServiceAccount q4 r4)" "\<not> is_listing (ENamespace n r5)"
  "\<not> is_listing (EWrite w r6)" "\<not> is_listing (ECall cfg q9 r9)" "\<not> is_listing (EPolicy cfg q8 r8)"
  "\<not> is_listing (EFile pa r10)" "\<not> is_listing (ENow t)" "\<not> is_listing (ESlot sl)"
  by (simp_all add: is_listing_def)

definition listed_first :: "event list \<Rightarrow> event \<Rightarrow> bool" where
  "listed_first h e \<longleftrightarrow> (is_listing e \<longrightarrow> list_all (\<lambda>e. \<not> is_deletion e) h)"

lemma listed_first_quiet [simp]: "\<not> is_listing e \<Longrightarrow> listed_first h e"
  by (simp add: listed_first_def)

lemma listed_before_deleting:
  assumes "emits (\<lambda>e. \<not> is_deletion e) p" "list_all (\<lambda>e. \<not> is_deletion e) h"
  shows "always listed_first (\<lambda>_ h'. list_all (\<lambda>e. \<not> is_deletion e) h') p h"
  by (rule always_mono [OF emits_so_far [OF assms]]) (simp_all add: listed_first_def)

lemma reconcile_lists_first: "always listed_first (\<lambda>_ _. True) (reconcile_issued x r req) []"
proof -
  have late: "always listed_first (\<lambda>_ _. True) p h" if "emits (\<lambda>e. \<not> is_listing e) p" for p :: "reconciled prog" and h
    using that by (rule always_quiet) simp
  have rest: "emits (\<lambda>e. \<not> is_listing e) (case decided of
      Inl end \<Rightarrow> Ret end
    | Inr sp \<Rightarrow> if sp \<noteq> '''' then then_do (delete_service_principal c sp) (\<lambda>failed.
        case failed of
          Some err \<Rightarrow> (let failure = outcome_for x err in report_failure x i
            (failure\<lparr>oc_reason := reasonDeleteFailed, oc_message := still_there (oc_message failure)\<rparr>))
        | None \<Rightarrow> release_record x i) else release_record x i)" for decided c i
    by (auto simp: release_record_def Let_def intro!: emits_then_do emits_delete_service_principal emits_report_failure
        split: option.split sum.split)
  have destroy: "always listed_first (\<lambda>_ _. True) (destroy_record x r c i) h" if "list_all (\<lambda>e. \<not> is_deletion e) h" for c i h
  proof -
    have "emits (\<lambda>e. \<not> is_deletion e) (what_to_delete x r c i)"
      by (intro emits_what_to_delete emits_find_service_principal) simp_all
    then have "always listed_first (\<lambda>_ _. True) (what_to_delete x r c i) h"
      by (rule always_mono [OF listed_before_deleting [OF _ that]]) simp_all
    then show ?thesis
      unfolding destroy_record_def using late [OF rest] by (auto intro!: always_then)
  qed
  have others: "emits (\<lambda>e. \<not> is_deletion e) (converge x r c i)" "emits (\<lambda>e. \<not> is_deletion e) (destroy_because_not_served x r i)"
    "emits (\<lambda>e. \<not> is_deletion e) (still_wanted x r i)" "emits (\<lambda>e. \<not> is_deletion e) (databricks_account_serves a n)"
 for c i a n
    by (intro emits_converge emits_destroy_because_not_served emits_still_wanted emits_account_serves emits_calls; simp)+
  have writes: "emits (\<lambda>e. \<not> is_deletion e) (delete_record i)" "emits (\<lambda>e. \<not> is_deletion e) (add_record_finalizer x i)" for i
    by (simp_all add: delete_record_def add_record_finalizer_def split: sum.split)
  have "always listed_first (\<lambda>_ _. True) (reconcile_record x r c i) [EIssued q a, ESlot slot]" for c i q a slot
  proof (cases "om_deletion_timestamp (id_meta i) = None")
    case True
    then have "emits (\<lambda>e. \<not> is_deletion e) (reconcile_record x r c i)"
      by (auto simp: reconcile_record_def others writes intro!: emits_then_do split: sum.split bool.split prod.split)
    then show ?thesis by (rule always_mono [OF listed_before_deleting]) simp_all
  next
    case False
    then show ?thesis by (simp add: reconcile_record_def destroy)
  qed
  then show ?thesis by (simp add: reconcile_issued_def split: sum.split)
qed

section \<open>What a write is made over\<close>

text \<open>A write of the record is made over the version read, a status only over one that is held.\<close>

definition over_read :: "event list \<Rightarrow> event \<Rightarrow> bool" where
  "over_read h e \<longleftrightarrow> (\<forall>q reply. e = EIssued q reply \<and> h \<noteq> [] \<longrightarrow> (\<exists>n i rest. h = EIssued (GetIssued n) (Inr i) # rest \<and>
     (\<forall>obj. q = UpdateIssuedStatus obj \<longrightarrow> contains_finalizer (id_meta i) ServicePrincipalFinalizer) \<and>
     (\<forall>obj. q = UpdateIssued obj \<longrightarrow> om_resource_version (id_meta obj) = om_resource_version (id_meta i))))"

lemma reconcile_over_read: "always over_read (\<lambda>_ _. True) (reconcile_issued x r req) []"
proof -
  define K where "K i e \<longleftrightarrow> (\<forall>q reply. e = EIssued q reply \<longrightarrow>
     (\<forall>obj. q = UpdateIssuedStatus obj \<longrightarrow> contains_finalizer (id_meta i) ServicePrincipalFinalizer) \<and>
     (\<forall>obj. q = UpdateIssued obj \<longrightarrow> om_resource_version (id_meta obj) = om_resource_version (id_meta i)))" for i :: issued and e
  have "emits (K i) (reconcile_record x r c i)" for i c
  proof (cases "contains_finalizer (id_meta i) ServicePrincipalFinalizer")
    case False
    then show ?thesis by (simp add: reconcile_record_def destroy_record_def add_record_finalizer_def K_def split: sum.split)
  next
    case True
    have "emits (K i) (what_to_delete x r c i)" "emits (K i) (report_failure x i out)" "emits (K i) (release_record x i)"
      "emits (K i) (delete_service_principal c sp)" for out sp
      using True by (auto intro!: emits_what_to_delete emits_report_failure emits_calls simp: K_def release_record_def)
    then have "emits (K i) (destroy_record x r c i)"
      by (auto simp: destroy_record_def Let_def intro!: emits_then_do split: sum.split option.split)
    moreover have "emits (K i) (converge x r c i)" "emits (K i) (destroy_because_not_served x r i)"
      using True by (auto intro!: emits_converge emits_destroy_because_not_served emits_calls simp: K_def)
    ultimately show ?thesis
      using True
      by (auto simp: reconcile_record_def add_record_finalizer_def delete_record_def K_def
          intro!: emits_then_do emits_still_wanted emits_account_serves split: sum.split bool.split prod.split)
  qed
  then have "always (\<lambda>h' e. K i e \<and> (\<exists>es. h' = [EIssued (GetIssued n) (Inr i), ESlot slot] @ es)) (\<lambda>_ _. True \<and> True)
      (reconcile_record x r c i) [EIssued (GetIssued n) (Inr i), ESlot slot]" for c i n slot
    by (intro always_conj emits_always always_later exI [of _ "[]"]) simp_all
  then have "always over_read (\<lambda>_ _. True) (reconcile_record x r c i) [EIssued (GetIssued n) (Inr i), ESlot slot]" for c i n slot
    by (rule always_mono) (auto simp: over_read_def K_def)
  then show ?thesis by (simp add: reconcile_issued_def over_read_def split: sum.split)
qed

text \<open>A record is let go over the version read, of a service principal that was never asked for, is recorded as
  gone, or was answered not to be there.\<close>

lemma release_settled:
  assumes "finalizer_lists (add_finalizer x) (remove_finalizer x)"
    and run: "runs (reconcile_issued x r req) (pre @ EIssued (UpdateIssued obj) reply # post)"
    and "\<not> contains_finalizer (id_meta obj) ServicePrincipalFinalizer"
    and ids: "\<And>cfg f listed p. EPrincipals cfg f (Inr listed) \<in> set pre \<Longrightarrow> p \<in> set listed \<Longrightarrow> pr_id p \<noteq> ''''"
  shows "\<exists>n i rest. pre = EIssued (GetIssued n) (Inr i) # rest \<and>
    om_resource_version (id_meta obj) = om_resource_version (id_meta i) \<and>
    (service_principal_state (id_status i) \<in> {Unsent, Gone} \<or> seen_gone r pre)"
proof -
  have "release_ok x r req pre (EIssued (UpdateIssued obj) reply)"
    using always_runs [OF reconcile_releases [OF assms(1)] run refl] .
  with assms(3) obtain i slot rest where h: "pre = EIssued (GetIssued req) (Inr i) # ESlot slot # rest"
    and left: "nothing_left r i (snapshot slot) pre" unfolding release_ok_def by auto
  have over: "over_read pre (EIssued (UpdateIssued obj) reply)"
    using always_runs [OF reconcile_over_read run refl] .
  have "service_principal_state (id_status i) \<in> {Unsent, Gone} \<or> seen_gone r pre"
  proof (rule disjCI)
    assume "\<not> seen_gone r pre"
    show "service_principal_state (id_status i) \<in> {Unsent, Gone}"
    proof (rule ccontr)
      assume "service_principal_state (id_status i) \<notin> {Unsent, Gone}"
      with left ids obtain cfg sp answer where del: "ECall cfg (DeletePrincipal sp) answer \<in> set pre"
        "\<forall>err. answer = Some err \<longrightarrow> kind_of (Some err) = NotFound"
        and which: "service_principal_state (id_status i) = Known \<and> sp = it_service_principal_id (id_status i) \<or>
          (\<exists>issuer f listed p. EPrincipals cfg f (Inr listed) \<in> set pre \<and>
             carrying listed (marker_for (issuing_for r i issuer)) = [p] \<and> pr_id p = sp)"
        unfolding nothing_left_def by blast
      from del(1) obtain us vs where split: "pre = us @ ECall cfg (DeletePrincipal sp) answer # vs"
        by (blast dest: split_list)
      with h obtain us' where us: "us = EIssued (GetIssued req) (Inr i) # us'" by (cases us) auto
      have "knows r us sp"
      proof -
        from which consider (known) "service_principal_state (id_status i) = Known" "sp = it_service_principal_id (id_status i)"
          | (found) issuer f listed p where "EPrincipals cfg f (Inr listed) \<in> set pre"
            "carrying listed (marker_for (issuing_for r i issuer)) = [p]" "pr_id p = sp" by blast
        then show ?thesis
        proof cases
          case known
          then show ?thesis using us knows_answered [of "GetIssued req" i us r] by (simp add: service_principal_state_simps)
        next
          case found
          have "EPrincipals cfg f (Inr listed) \<in> set us"
          proof (rule ccontr)
            assume "EPrincipals cfg f (Inr listed) \<notin> set us"
            with found(1) split obtain vs1 vs2 where "vs = vs1 @ EPrincipals cfg f (Inr listed) # vs2"
              by (auto dest: split_list)
            with split run have "runs (reconcile_issued x r req)
                ((us @ ECall cfg (DeletePrincipal sp) answer # vs1) @ EPrincipals cfg f (Inr listed) #
                 vs2 @ EIssued (UpdateIssued obj) reply # post)" by simp
            from always_runs [OF reconcile_lists_first this refl] show False by (simp add: listed_first_def)
          qed
          moreover have "p \<in> set (carrying listed (marker_for (issuing_for r i issuer)))" using found(2) by simp
          ultimately show ?thesis using us found(3) unfolding knows_def by (fastforce simp: carrying_def)
        qed
      qed
      moreover have "absent (ECall cfg (DeletePrincipal sp) answer) sp" using del(2) by (auto simp: absent_def)
      ultimately have "seen_gone r pre" using split unfolding seen_gone_def by blast
      with \<open>\<not> seen_gone r pre\<close> show False ..
    qed
  qed
  with h over show ?thesis by (auto simp: over_read_def)
qed

end
