(* ===== verification/PrincipalAccount.thy ===== *)
theory PrincipalAccount
  imports IssuedEvidence "HOL-Library.Multiset"
begin

text \<open>
  What the record controller relies on of a Databricks account for service principals, as the locale
  \<open>principal_account\<close>: creates that may be carried out long after they were sent, deletes and reads by
  id, listings that may miss what is there. The lemmas say what an exchange does to the service
  principals of one record; the documented behaviour is written out as \<open>ref_exchanges\<close>.
\<close>

lemma below_single: "A \<subseteq># {#m#} \<longleftrightarrow> A = {#} \<or> A = {#m#}"
  by (cases A) (auto simp: insert_subset_eq_iff)

section \<open>The account\<close>

text \<open>\<open>present d\<close> is the service principals there, as id and external id; \<open>coming d\<close> the external ids of creates
  that were sent and may yet be carried out. Nobody else creates a service principal whose external id
  is one of \<open>ours\<close>; anybody may delete one.\<close>

locale principal_account =
  fixes exchanges :: "'d \<Rightarrow> event \<Rightarrow> 'd \<Rightarrow> bool" and settles :: "'d \<Rightarrow> 'd \<Rightarrow> bool"
    and present :: "'d \<Rightarrow> (string \<times> string) set" and coming :: "'d \<Rightarrow> string multiset"
    and acc :: string and ours :: "string set"
  assumes created: "exchanges d (EPrincipal cfg (CreatePrincipal n m active) (Inr p)) d' \<Longrightarrow> cf_account_id cfg = acc \<Longrightarrow>
      present d' = insert (pr_id p, m) (present d) \<and> coming d' = coming d"
    and create_failed: "exchanges d (EPrincipal cfg (CreatePrincipal n m active) (Inl err)) d' \<Longrightarrow> cf_account_id cfg = acc \<Longrightarrow>
      present d' = present d \<and> coming d' \<subseteq># add_mset m (coming d)"
    and deleted: "exchanges d (ECall cfg (DeletePrincipal sp) failed) d' \<Longrightarrow> cf_account_id cfg = acc \<Longrightarrow>
      present d' \<subseteq> present d \<and> coming d' = coming d \<and>
      ((\<forall>err. failed = Some err \<longrightarrow> kind_of (Some err) = NotFound) \<longrightarrow> sp \<notin> fst ` present d')"
    and got: "exchanges d (EPrincipal cfg (GetPrincipal sp) reply) d' \<Longrightarrow> cf_account_id cfg = acc \<Longrightarrow>
      present d' = present d \<and> coming d' = coming d \<and>
      (\<forall>err. reply = Inl err \<and> kind_of (Some err) = NotFound \<longrightarrow> sp \<notin> fst ` present d)"
    and listed: "exchanges d (EPrincipals cfg f answer) d' \<Longrightarrow> cf_account_id cfg = acc \<Longrightarrow>
      present d' = present d \<and> coming d' = coming d \<and>
      (\<forall>ps p. answer = Inr ps \<and> p \<in> set ps \<longrightarrow> pr_id p \<noteq> '''' \<and> (pr_id p, pr_external_id p) \<in> present d)"
    and elsewhere: "exchanges d e d' \<Longrightarrow> \<not> is_deletion e \<Longrightarrow> \<not> is_listing e \<Longrightarrow>
      (\<And>cfg q reply. e \<noteq> EPrincipal cfg q reply) \<Longrightarrow> present d' = present d \<and> coming d' = coming d"
    and settling: "settles d d' \<Longrightarrow>
      {a \<in> present d'. snd a \<in> ours} \<subseteq> present d \<and> {#m \<in># coming d'. m \<in> ours#} \<subseteq># coming d \<or>
      (\<exists>sp m. m \<in># coming d \<and> {a \<in> present d'. snd a \<in> ours} \<subseteq> insert (sp, m) (present d) \<and>
         {#m \<in># coming d'. m \<in> ours#} \<subseteq># coming d - {#m#})"
begin

definition mine :: "'d \<Rightarrow> (string \<times> string) set" where
  "mine d = {a \<in> present d. snd a \<in> ours}"

definition owed :: "'d \<Rightarrow> string multiset" where
  "owed d = {#m \<in># coming d. m \<in> ours#}"

text \<open>Nothing of the record is there, or coming; no more than one is; only \<open>sp\<close> can be.\<close>

definition none :: "'d \<Rightarrow> bool" where
  "none d \<longleftrightarrow> mine d = {} \<and> owed d = {#}"

definition at_most_one :: "'d \<Rightarrow> bool" where
  "at_most_one d \<longleftrightarrow> none d \<or> mine d = {} \<and> (\<exists>m. owed d = {#m#}) \<or> (\<exists>a. mine d = {a}) \<and> owed d = {#}"

definition only :: "string \<Rightarrow> 'd \<Rightarrow> bool" where
  "only sp d \<longleftrightarrow> fst ` mine d \<subseteq> {sp} \<and> owed d = {#}"

definition shrinks :: "'d \<Rightarrow> 'd \<Rightarrow> bool" where
  "shrinks d d' \<longleftrightarrow> mine d' \<subseteq> mine d \<and> owed d' \<subseteq># owed d"

lemma none_only: "none d \<Longrightarrow> only sp d"
  by (simp add: none_def only_def)

lemma shrinks_keeps:
  assumes "shrinks d d'"
  shows "none d \<Longrightarrow> none d'" "only sp d \<Longrightarrow> only sp d'" "at_most_one d \<Longrightarrow> at_most_one d'"
proof -
  show n: "none d \<Longrightarrow> none d'" using assms by (auto simp: shrinks_def none_def)
  show "only sp d \<Longrightarrow> only sp d'" using assms by (auto simp: shrinks_def only_def)
  show "at_most_one d \<Longrightarrow> at_most_one d'"
    using assms
    by (auto simp: shrinks_def at_most_one_def none_def subset_singleton_iff below_single)
qed

lemma same_shrinks: "present d' = present d \<Longrightarrow> coming d' = coming d \<Longrightarrow> shrinks d d'"
  by (simp add: shrinks_def mine_def owed_def)

lemma settled_cases:
  assumes "settles d d'"
  shows "shrinks d d' \<or> (\<exists>sp m. m \<in># owed d \<and> mine d' \<subseteq> insert (sp, m) (mine d) \<and> owed d' \<subseteq># owed d - {#m#})"
  using settling [OF assms]
proof (elim disjE exE conjE)
  assume "{a \<in> present d'. snd a \<in> ours} \<subseteq> present d" "{#m \<in># coming d'. m \<in> ours#} \<subseteq># coming d"
  then have "mine d' \<subseteq> mine d" "owed d' \<subseteq># owed d"
    using multiset_filter_mono [of "owed d'" "coming d" "\<lambda>m. m \<in> ours"]
    by (auto simp: mine_def owed_def filter_filter_mset)
  then show ?thesis by (simp add: shrinks_def)
next
  fix sp m
  assume m: "m \<in># coming d" "{a \<in> present d'. snd a \<in> ours} \<subseteq> insert (sp, m) (present d)"
    "{#m \<in># coming d'. m \<in> ours#} \<subseteq># coming d - {#m#}"
  from multiset_filter_mono [OF m(3), of "\<lambda>m. m \<in> ours"]
  have o: "owed d' \<subseteq># {#m \<in># coming d - {#m#}. m \<in> ours#}" by (simp add: owed_def filter_filter_mset)
  show ?thesis
  proof (cases "m \<in> ours")
    case True
    with m(1,2) o show ?thesis
      by (intro disjI2 exI [of _ sp] exI [of _ m]) (auto simp: mine_def owed_def filter_diff_mset)
  next
    case False
    with o have "owed d' \<subseteq># owed d" by (simp add: owed_def filter_diff_mset)
    with False m(2) show ?thesis by (auto simp: shrinks_def mine_def)
  qed
qed

lemma settled:
  assumes "settles d d'"
  shows "none d \<Longrightarrow> none d'" "only sp d \<Longrightarrow> only sp d'" "at_most_one d \<Longrightarrow> at_most_one d'"
proof -
  show "none d \<Longrightarrow> none d'" "only sp d \<Longrightarrow> only sp d'"
    using settled_cases [OF assms] shrinks_keeps [of d d'] by (auto simp: none_def only_def)
  show "at_most_one d \<Longrightarrow> at_most_one d'"
    using settled_cases [OF assms]
  proof (elim disjE exE conjE)
    fix sp m
    assume "at_most_one d" and m: "m \<in># owed d" "mine d' \<subseteq> insert (sp, m) (mine d)" "owed d' \<subseteq># owed d - {#m#}"
    then have "mine d = {}" "owed d = {#m#}" by (auto simp: at_most_one_def none_def)
    with m show "at_most_one d'" by (auto simp: at_most_one_def none_def subset_singleton_iff)
  qed (rule shrinks_keeps(3))
qed

lemma not_create_shrinks:
  assumes "exchanges d e d'" "\<And>cfg. event_account e = Some cfg \<Longrightarrow> cf_account_id cfg = acc" "\<not> is_create e"
  shows "shrinks d d'"
proof -
  consider (get) cfg sp reply where "e = EPrincipal cfg (GetPrincipal sp) reply"
    | (del) cfg sp failed where "e = ECall cfg (DeletePrincipal sp) failed"
    | (list) cfg f answer where "e = EPrincipals cfg f answer"
    | (other) "\<not> is_deletion e" "\<not> is_listing e" "\<And>cfg q reply. e \<noteq> EPrincipal cfg q reply"
  proof (cases e)
    case (EPrincipal cfg q reply)
    with assms(3) get show thesis by (cases q) auto
  next
    case (ECall cfg c failed)
    with del other show thesis by (cases c) (auto simp: is_deletion_def)
  qed (use get del list other in \<open>auto simp: is_deletion_def is_listing_def\<close>)
  then show ?thesis
  proof cases
    case get
    with assms(1,2) got [of d cfg sp reply d'] show ?thesis by (auto intro: same_shrinks)
  next
    case del
    with assms(1,2) deleted [of d cfg sp failed d'] show ?thesis by (auto simp: shrinks_def mine_def owed_def)
  next
    case list
    with assms(1,2) listed [of d cfg f answer d'] show ?thesis by (auto intro: same_shrinks)
  next
    case other
    with assms(1) elsewhere [of d e d'] show ?thesis by (auto intro: same_shrinks)
  qed
qed

lemma create_adds:
  assumes "exchanges d (EPrincipal cfg (CreatePrincipal n m active) reply) d'" "cf_account_id cfg = acc" "none d"
  shows "at_most_one d'" "reply = Inr p \<Longrightarrow> only (pr_id p) d'"
proof -
  show "reply = Inr p \<Longrightarrow> only (pr_id p) d'"
    using assms created by (fastforce simp: only_def none_def mine_def owed_def)
  show "at_most_one d'"
  proof (cases reply)
    case (Inl err)
    with assms create_failed have e: "present d' = present d" "coming d' \<subseteq># add_mset m (coming d)" by blast+
    have "mine d' = {}" using assms(3) e(1) by (simp add: none_def mine_def)
    moreover have "owed d' \<subseteq># {#m#}"
    proof -
      have "owed d' \<subseteq># {#k \<in># add_mset m (coming d). k \<in> ours#}" unfolding owed_def by (rule multiset_filter_mono [OF e(2)])
      moreover have z: "{#k \<in># coming d. k \<in> ours#} = {#}" using assms(3) by (simp only: none_def owed_def)
      have "{#k \<in># add_mset m (coming d). k \<in> ours#} \<subseteq># {#m#}" unfolding filter_mset_add_mset z by simp
      ultimately show ?thesis by (rule subset_mset.order_trans)
    qed
    ultimately show ?thesis unfolding below_single at_most_one_def none_def by blast
  next
    case (Inr p)
    with assms created have "present d' = insert (pr_id p, m) (present d)" "coming d' = coming d" by blast+
    with assms(3) have "mine d' \<subseteq> {(pr_id p, m)}" "owed d' = {#}" by (auto simp: none_def mine_def owed_def)
    then show ?thesis unfolding subset_singleton_iff at_most_one_def none_def by blast
  qed
qed

lemma absent_none:
  assumes "exchanges d e d'" "\<And>cfg. event_account e = Some cfg \<Longrightarrow> cf_account_id cfg = acc" "absent e sp" "only sp d"
  shows "none d'"
proof -
  have "sp \<notin> fst ` present d' \<and> shrinks d d'"
    using assms(3) unfolding absent_def
  proof (elim disjE exE conjE)
    fix cfg err assume "e = EPrincipal cfg (GetPrincipal sp) (Inl err)" "kind_of (Some err) = NotFound"
    with assms(1,2) got [of d cfg sp "Inl err" d'] show ?thesis by (auto intro: same_shrinks)
  next
    fix cfg failed assume "e = ECall cfg (DeletePrincipal sp) failed" "\<forall>err. failed = Some err \<longrightarrow> kind_of (Some err) = NotFound"
    with assms(1,2) deleted [of d cfg sp failed d'] show ?thesis by (auto simp: shrinks_def mine_def owed_def)
  qed
  with shrinks_keeps(2) [of d d' sp] assms(4) have "only sp d'" "sp \<notin> fst ` present d'" by auto
  then show ?thesis by (force simp: only_def none_def mine_def)
qed

lemma listed_only:
  assumes "exchanges d (EPrincipals cfg f (Inr ps)) d'" "cf_account_id cfg = acc" "p \<in> set ps" "pr_external_id p \<in> ours"
    and "at_most_one d"
  shows "only (pr_id p) d \<and> \<not> none d"
proof -
  from listed [OF assms(1,2)] assms(3,4) have "(pr_id p, pr_external_id p) \<in> mine d" by (auto simp: mine_def)
  with assms(5) show ?thesis by (auto simp: at_most_one_def none_def only_def)
qed

end

section \<open>The documented account, written out\<close>

text \<open>The account: the service principals there, and the creates under way.\<close>

type_synonym principals = "(string \<times> string) set \<times> string multiset"

fun ref_exchanges :: "principals \<Rightarrow> event \<Rightarrow> principals \<Rightarrow> bool" where
  "ref_exchanges d (EPrincipal cfg (CreatePrincipal n m active) (Inr p)) d' \<longleftrightarrow> d' = (insert (pr_id p, m) (fst d), snd d)"
| "ref_exchanges d (EPrincipal cfg (CreatePrincipal n m active) (Inl err)) d' \<longleftrightarrow>
     fst d' = fst d \<and> (snd d' = snd d \<or> snd d' = add_mset m (snd d))"
| "ref_exchanges d (EPrincipal cfg (GetPrincipal sp) reply) d' \<longleftrightarrow> d' = d \<and>
     (case reply of Inl err \<Rightarrow> kind_of (Some err) = NotFound \<longrightarrow> sp \<notin> fst ` fst d
      | Inr p \<Rightarrow> (sp, pr_external_id p) \<in> fst d)"
| "ref_exchanges d (EPrincipals cfg f answer) d' \<longleftrightarrow> d' = d \<and>
     (\<forall>ps p. answer = Inr ps \<and> p \<in> set ps \<longrightarrow> pr_id p \<noteq> '''' \<and> (pr_id p, pr_external_id p) \<in> fst d)"
| "ref_exchanges d (ECall cfg (DeletePrincipal sp) failed) d' \<longleftrightarrow> snd d' = snd d \<and>
     (case failed of None \<Rightarrow> fst d' = {a \<in> fst d. fst a \<noteq> sp}
      | Some err \<Rightarrow> if kind_of (Some err) = NotFound then fst d' = fst d \<and> sp \<notin> fst ` fst d
          else fst d' = fst d \<or> fst d' = {a \<in> fst d. fst a \<noteq> sp})"
| "ref_exchanges d e d' \<longleftrightarrow> d' = d"

text \<open>A create under way is carried out or lost; others delete anything and create what is not \<open>ours\<close>.\<close>

definition ref_settles :: "string set \<Rightarrow> principals \<Rightarrow> principals \<Rightarrow> bool" where
  "ref_settles ours d d' \<longleftrightarrow>
     (\<exists>sp m. m \<in># snd d \<and> (d' = (insert (sp, m) (fst d), snd d - {#m#}) \<or> d' = (fst d, snd d - {#m#}))) \<or>
     (\<exists>sp. d' = ({a \<in> fst d. fst a \<noteq> sp}, snd d)) \<or>
     (\<exists>sp m. m \<notin> ours \<and> d' = (insert (sp, m) (fst d), snd d))"

interpretation ref_principals: principal_account ref_exchanges "ref_settles ours" fst snd acc ours for ours acc
proof
  fix d e d' sp cfg n m active p err f answer failed reply
  show "ref_settles ours d d' \<Longrightarrow> {a \<in> fst d'. snd a \<in> ours} \<subseteq> fst d \<and> {#m \<in># snd d'. m \<in> ours#} \<subseteq># snd d \<or>
      (\<exists>sp m. m \<in># snd d \<and> {a \<in> fst d'. snd a \<in> ours} \<subseteq> insert (sp, m) (fst d) \<and>
         {#m \<in># snd d'. m \<in> ours#} \<subseteq># snd d - {#m#})"
    unfolding ref_settles_def
  proof (elim disjE exE conjE)
    fix sp m assume m: "m \<in># snd d" "d' = (insert (sp, m) (fst d), snd d - {#m#})"
    then have "{#m \<in># snd d'. m \<in> ours#} \<subseteq># snd d - {#m#}" by (simp only: snd_conv multiset_filter_subset)
    with m show ?thesis by (intro disjI2) (rule exI [of _ sp], rule exI [of _ m], auto)
  next
    fix sp m assume m: "m \<in># snd d" "d' = (fst d, snd d - {#m#})"
    then have "{#m \<in># snd d'. m \<in> ours#} \<subseteq># snd d - {#m#}" by (simp only: snd_conv multiset_filter_subset)
    with m show ?thesis by (intro disjI2) (rule exI [of _ sp], rule exI [of _ m], auto)
  qed auto
  show "ref_exchanges d e d' \<Longrightarrow> \<not> is_deletion e \<Longrightarrow> \<not> is_listing e \<Longrightarrow>
      (\<And>cfg q reply. e \<noteq> EPrincipal cfg q reply) \<Longrightarrow> fst d' = fst d \<and> snd d' = snd d"
    by (cases "(d, e, d')" rule: ref_exchanges.cases) auto
  show "ref_exchanges d (EPrincipal cfg (GetPrincipal sp) reply) d' \<Longrightarrow>
      fst d' = fst d \<and> snd d' = snd d \<and> (\<forall>err. reply = Inl err \<and> kind_of (Some err) = NotFound \<longrightarrow> sp \<notin> fst ` fst d)"
    by (cases reply) simp_all
  show "ref_exchanges d (ECall cfg (DeletePrincipal sp) failed) d' \<Longrightarrow> fst d' \<subseteq> fst d \<and> snd d' = snd d \<and>
      ((\<forall>err. failed = Some err \<longrightarrow> kind_of (Some err) = NotFound) \<longrightarrow> sp \<notin> fst ` fst d')"
    by (cases failed) (auto split: if_splits)
qed auto

end
