(* ===== verification/IssuedLife.thy ===== *)
theory IssuedLife
  imports PrincipalAccount
begin

text \<open>
  One record from its first version to its last, beside its service principal: every pass of the record
  controller, interleaved and stopped anywhere, the API server keeping the versions of the record, and
  the Databricks account keeping the service principals. A create whose answer never arrived may
  still be carried out at any later time. \<open>record_store_kept\<close> and \<open>principal_account\<close> state what is relied
  on of the two, each with its documented behaviour written out as an instance. The result is that
  there is never more than one service principal of a record, and none is left once it is let go.
\<close>

section \<open>The API server, with the parts of a record that are not its status\<close>

text \<open>The spec is immutable (a validation rule of the resource says so); a write of the status leaves the
  finalizers alone; an update is accepted over the current version only; and nobody else takes a
  finalizer off.\<close>

locale record_store_kept = record_store answers drifts seen
  for answers :: "'s \<Rightarrow> issued_request \<Rightarrow> error + issued \<Rightarrow> 's \<Rightarrow> bool"
    and drifts :: "'s \<Rightarrow> 's \<Rightarrow> bool" and seen :: "'s \<Rightarrow> issued list" +
  assumes kept: "answers s q a s' \<Longrightarrow> seen s' \<noteq> seen s \<Longrightarrow> id_spec (hd (seen s')) = id_spec (hd (seen s)) \<and>
      (case q of
         UpdateIssued obj \<Rightarrow> om_resource_version (id_meta obj) = om_resource_version (id_meta (hd (seen s))) \<and>
           om_finalizers (id_meta (hd (seen s'))) = om_finalizers (id_meta obj)
       | _ \<Rightarrow> om_finalizers (id_meta (hd (seen s'))) = om_finalizers (id_meta (hd (seen s))))"
    and kept_by_others: "drifts s s' \<Longrightarrow> seen s' \<noteq> seen s \<Longrightarrow> id_spec (hd (seen s')) = id_spec (hd (seen s)) \<and>
      set (om_finalizers (id_meta (hd (seen s)))) \<subseteq> set (om_finalizers (id_meta (hd (seen s'))))"

section \<open>The two together\<close>

text \<open>The record and its passes as in \<open>issued_system\<close>, beside the account: every exchange of a pass that is
  not with the API server is one the account allows, every snapshot is of clients of the one account,
  and the account may change in between.\<close>

definition in_account :: "string \<Rightarrow> event \<Rightarrow> bool" where
  "in_account acc e \<longleftrightarrow> (\<forall>slot cfg. e = ESlot slot \<and> snapshot slot = Installed cfg \<longrightarrow> cf_account_id cfg = acc)"

inductive issued_life ::
  "extern \<Rightarrow> issued_reconciler \<Rightarrow> namespaced_name \<Rightarrow> ('s \<Rightarrow> issued_request \<Rightarrow> error + issued \<Rightarrow> 's \<Rightarrow> bool) \<Rightarrow>
     ('s \<Rightarrow> 's \<Rightarrow> bool) \<Rightarrow> ('d \<Rightarrow> event \<Rightarrow> 'd \<Rightarrow> bool) \<Rightarrow> ('d \<Rightarrow> 'd \<Rightarrow> bool) \<Rightarrow> string \<Rightarrow> 's \<Rightarrow> 'd \<Rightarrow>
     's \<Rightarrow> 'd \<Rightarrow> event list list \<Rightarrow> bool"
  for x r req answers drifts exchanges settles acc s0 d0 where
  born: "issued_life x r req answers drifts exchanges settles acc s0 d0 s0 d0 []"
| begins: "issued_life x r req answers drifts exchanges settles acc s0 d0 s d ps \<Longrightarrow>
     issued_life x r req answers drifts exchanges settles acc s0 d0 s d (ps @ [[]])"
| asks_server: "issued_life x r req answers drifts exchanges settles acc s0 d0 s d (ps @ p # qs) \<Longrightarrow>
     runs (reconcile_issued x r req) (p @ [EIssued q a]) \<Longrightarrow> answers s q a s' \<Longrightarrow>
     issued_life x r req answers drifts exchanges settles acc s0 d0 s' d (ps @ (p @ [EIssued q a]) # qs)"
| asks_account: "issued_life x r req answers drifts exchanges settles acc s0 d0 s d (ps @ p # qs) \<Longrightarrow>
     runs (reconcile_issued x r req) (p @ [e]) \<Longrightarrow> (\<And>q a. e \<noteq> EIssued q a) \<Longrightarrow> in_account acc e \<Longrightarrow> exchanges d e d' \<Longrightarrow>
     issued_life x r req answers drifts exchanges settles acc s0 d0 s d' (ps @ (p @ [e]) # qs)"
| server_changes: "issued_life x r req answers drifts exchanges settles acc s0 d0 s d ps \<Longrightarrow> drifts s s' \<Longrightarrow>
     issued_life x r req answers drifts exchanges settles acc s0 d0 s' d ps"
| account_changes: "issued_life x r req answers drifts exchanges settles acc s0 d0 s d ps \<Longrightarrow> settles d d' \<Longrightarrow>
     issued_life x r req answers drifts exchanges settles acc s0 d0 s d' ps"

lemma life_system:
  "issued_life x r req answers drifts exchanges settles acc s0 d0 s d ps \<Longrightarrow> issued_system x r req answers drifts s0 s ps"
  by (induction rule: issued_life.induct) (auto intro: issued_system.intros)

text \<open>The two interfaces together, for one record, whose markers are \<open>ours\<close>.\<close>

definition markers_of :: "issued_reconciler \<Rightarrow> issued \<Rightarrow> string set" where
  "markers_of r i = range (\<lambda>issuer. marker_for (issuing_for r i issuer))"

locale record_life =
  record_store_kept answers drifts seen + principal_account exchanges settles present coming acc "markers_of r original"
  for answers :: "'s \<Rightarrow> issued_request \<Rightarrow> error + issued \<Rightarrow> 's \<Rightarrow> bool" and drifts and seen :: "'s \<Rightarrow> issued list"
    and exchanges :: "'d \<Rightarrow> event \<Rightarrow> 'd \<Rightarrow> bool" and settles present coming acc and r :: issued_reconciler and original :: issued +
  fixes x :: extern
  assumes finalizers: "finalizer_lists (add_finalizer x) (remove_finalizer x)"
begin

definition creates :: "event list list \<Rightarrow> nat" where
  "creates ps = length (filter is_create (concat ps))"

definition held :: "'s \<Rightarrow> bool" where
  "held s \<longleftrightarrow> contains_finalizer (id_meta (hd (seen s))) ServicePrincipalFinalizer"

text \<open>The invariant: what is there was created; what a version says and what a pass knows is so; and what is
  not held any more has nothing left.\<close>

definition status_true :: "issued_status \<Rightarrow> 'd \<Rightarrow> nat \<Rightarrow> bool" where
  "status_true st d n \<longleftrightarrow> (it_service_principal_id st \<noteq> '''' \<longrightarrow> n = 1 \<and> only (it_service_principal_id st) d) \<and>
     (it_removed_at st \<noteq> None \<longrightarrow> n = 1 \<and> none d)"

definition pass_true :: "event list \<Rightarrow> 'd \<Rightarrow> nat \<Rightarrow> bool" where
  "pass_true p d n \<longleftrightarrow> (\<forall>sp. knows r p sp \<longrightarrow> n = 1 \<and> only sp d) \<and> (seen_gone r p \<longrightarrow> n = 1 \<and> none d) \<and>
     (\<forall>cfg f listed q. EPrincipals cfg f (Inr listed) \<in> set p \<and> q \<in> set listed \<longrightarrow> pr_id q \<noteq> '''') \<and>
     (\<forall>obj i. EIssued (UpdateIssuedStatus obj) (Inr i) \<in> set p \<longrightarrow> contains_finalizer (id_meta i) ServicePrincipalFinalizer)"

definition life_ok :: "'s \<Rightarrow> 'd \<Rightarrow> event list list \<Rightarrow> bool" where
  "life_ok s d ps \<longleftrightarrow> system_ok s ps \<and> creates ps \<le> 1 \<and> at_most_one d \<and> (creates ps = 0 \<longrightarrow> none d) \<and>
     (\<forall>i \<in> set (seen s). id_spec i = id_spec original \<and> status_true (id_status i) d (creates ps)) \<and>
     (\<forall>p \<in> set ps. pass_true p d (creates ps)) \<and>
     (held s \<or> none d \<and> (creates ps = 1 \<or> (\<forall>p \<in> set ps. \<not> marks p)))"

lemma creates_snoc: "creates (ps @ (p @ [e]) # qs) = creates (ps @ p # qs) + (if is_create e then 1 else 0)"
  by (simp add: creates_def)

text \<open>What is true stays true while less is there.\<close>

lemma shrinks_true:
  assumes "shrinks d d' \<or> settles d d'"
  shows "status_true st d n \<Longrightarrow> status_true st d' n" "pass_true p d n \<Longrightarrow> pass_true p d' n"
  using assms shrinks_keeps settled unfolding status_true_def pass_true_def by blast+

lemma life_shrinks:
  assumes "life_ok s d ps" "shrinks d d' \<or> settles d d'"
  shows "life_ok s d' ps"
proof -
  have "none d \<longrightarrow> none d'" "at_most_one d \<longrightarrow> at_most_one d'" using assms(2) shrinks_keeps settled by blast+
  with assms(1) shrinks_true [OF assms(2)] show ?thesis unfolding life_ok_def by blast
qed

lemma markers: "id_spec i = id_spec original \<Longrightarrow> marker_for (issuing_for r i issuer) \<in> markers_of r original"
  by (auto simp: markers_of_def issuing_for_def)

lemma knows_answer:
  assumes "knows r (p @ [EIssued q a]) sp"
  shows "knows r p sp \<or> (\<exists>i. a = Inr i \<and> it_service_principal_id (id_status i) = sp \<and> sp \<noteq> '''')"
  using assms unfolding knows_def by (cases p) fastforce+

lemma knows_exchange:
  assumes "knows r (p @ [e]) sp" "\<And>q a. e \<noteq> EIssued q a"
  shows "knows r p sp \<or> (\<exists>cfg n m active q. e = EPrincipal cfg (CreatePrincipal n m active) (Inr q) \<and> pr_id q = sp) \<or>
    (\<exists>n i rest cfg f listed q issuer. p = EIssued (GetIssued n) (Inr i) # rest \<and> e = EPrincipals cfg f (Inr listed) \<and>
        q \<in> set listed \<and> pr_external_id q = marker_for (issuing_for r i issuer) \<and> pr_id q = sp)"
  using assms(1) [unfolded knows_def]
proof (elim disjE)
  assume "\<exists>n i rest cfg f listed q issuer. p @ [e] = EIssued (GetIssued n) (Inr i) # rest \<and> EPrincipals cfg f (Inr listed) \<in> set rest \<and>
      q \<in> set listed \<and> pr_external_id q = marker_for (issuing_for r i issuer) \<and> pr_id q = sp"
  then obtain n i rest cfg f listed q issuer where p: "p @ [e] = EIssued (GetIssued n) (Inr i) # rest"
    and q: "EPrincipals cfg f (Inr listed) \<in> set rest" "q \<in> set listed" "pr_external_id q = marker_for (issuing_for r i issuer)"
      "pr_id q = sp" by blast
  from p assms(2) obtain rest' where "p = EIssued (GetIssued n) (Inr i) # rest'" "rest = rest' @ [e]" by (cases p) auto
  with q show ?thesis unfolding knows_def by (cases "EPrincipals cfg f (Inr listed) = e") fastforce+
qed (use assms(2) in \<open>fastforce simp: knows_def\<close>)+

lemma no_more_gone: "seen_gone r (p @ [EIssued q a]) \<longleftrightarrow> seen_gone r p"
  by (simp add: seen_gone_snoc absent_def)

lemma grown:
  assumes "runs (reconcile_issued x r req) (p @ [EIssued q a])" "answers s q a s'"
  shows "seen s' = seen s \<or> (\<exists>v. seen s' = v # seen s \<and>
    (id_status v = id_status (hd (seen s)) \<or> (\<exists>obj. q = UpdateIssuedStatus obj \<and> id_status v = id_status obj)))"
proof (cases q)
  case (CreateIssued i)
  with emits_runs [OF reconcile_creates_none assms(1), of "EIssued q a"] show ?thesis by simp
next
  case (GetIssued n)
  with assms(2) read show ?thesis by blast
next
  case (UpdateIssued obj)
  with assms(2) write_record [of s obj a s'] show ?thesis by (auto simp: stores_def)
next
  case (UpdateIssuedStatus obj)
  show ?thesis
  proof (cases a)
    case (Inl err)
    with assms(2) UpdateIssuedStatus write_failed [of s obj err s'] show ?thesis unfolding stores_def by blast
  next
    case (Inr stored)
    with assms(2) UpdateIssuedStatus write_status [of s obj stored s'] show ?thesis by (auto simp: stores_def)
  qed
qed

lemma answer_true:
  assumes ok: "life_ok s d (ps @ p # qs)" and run: "runs (reconcile_issued x r req) (p @ [EIssued q a])"
    and answer: "answers s q a s'" and i: "i \<in> set (seen s')"
  shows "id_spec i = id_spec original \<and> status_true (id_status i) d (creates (ps @ p # qs))"
proof -
  let ?n = "creates (ps @ p # qs)"
  have old: "id_spec i = id_spec original \<and> status_true (id_status i) d ?n" if "i \<in> set (seen s)" for i
    using ok that by (simp add: life_ok_def)
  have p: "pass_true p d ?n" "answered s p" "seen s \<noteq> []" using ok by (simp_all add: life_ok_def system_ok_def versioned_def)
  from grown [OF run answer] show ?thesis
  proof (elim disjE exE conjE)
    assume "seen s' = seen s"
    with i old show ?thesis by simp
  next
    fix v assume v: "seen s' = v # seen s" and "id_status v = id_status (hd (seen s))"
    with kept [OF answer] old [of "hd (seen s)"] p(3) old i show ?thesis by auto
  next
    fix v obj assume v: "seen s' = v # seen s" and obj: "q = UpdateIssuedStatus obj" "id_status v = id_status obj"
    have "backed r p obj" using always_runs [OF reconcile_grounded run refl] obj(1) by simp
    moreover have "status_true (id_status i) d ?n" if "EIssued q' (Inr i) \<in> set p" for q' i
      using p(2) that old unfolding answered_def by blast
    ultimately have "status_true (id_status obj) d ?n"
      using p(1) unfolding backed_def status_true_def pass_true_def by blast
    with v obj kept [OF answer] old [of "hd (seen s)"] p(3) old i show ?thesis by auto
  qed
qed

text \<open>A status is written over a version that is held.\<close>

lemma written_held:
  assumes ok: "life_ok s d (ps @ p # qs)" and run: "runs (reconcile_issued x r req) (p @ [EIssued (UpdateIssuedStatus obj) a])"
    and current: "om_resource_version (id_meta obj) = om_resource_version (id_meta (hd (seen s)))"
  shows "held s"
proof -
  have p: "versioned s" "answered s p" "pass_true p d (creates (ps @ p # qs))"
    using ok by (simp_all add: life_ok_def system_ok_def)
  from always_runs [OF reconcile_from run refl] obtain q i where w: "written_over p obj q i" by auto
  with p(2) current current_version [OF p(1), of i] have i: "i = hd (seen s)" "EIssued q (Inr i) \<in> set p"
    by (auto simp: written_over_def answered_def)
  have "contains_finalizer (id_meta i) ServicePrincipalFinalizer"
  proof (cases q)
    case (GetIssued n)
    with i(2) have "p \<noteq> []" by auto
    with always_runs [OF reconcile_over_read run refl] obtain m j rest where
      j: "p = EIssued (GetIssued m) (Inr j) # rest" "contains_finalizer (id_meta j) ServicePrincipalFinalizer"
      by (auto simp: over_read_def)
    from run j(1) obtain slot more where more: "rest @ [EIssued (UpdateIssuedStatus obj) a] = ESlot slot # more"
      "runs (reconcile_record x r (snapshot slot) j) more" by (auto simp: runs_reconcile_issued)
    have "EIssued q (Inr i) \<notin> set more"
      using emits_runs [OF record_reads_once more(2), of "EIssued q (Inr i)"] GetIssued by (auto simp: is_read_def)
    with more(1) i(2) j(1) have "EIssued q (Inr i) = EIssued (GetIssued m) (Inr j)"
      by (cases rest) auto
    with j(2) show ?thesis by simp
  next
    case (CreateIssued m)
    with i(2) emits_runs [OF reconcile_creates_none run, of "EIssued q (Inr i)"] show ?thesis by simp
  next
    case (UpdateIssued m)
    with w show ?thesis by (simp add: written_over_def)
  next
    case (UpdateIssuedStatus m)
    with i(2) p(3) show ?thesis unfolding pass_true_def by blast
  qed
  with i(1) show ?thesis by (simp add: held_def)
qed

lemma kept_held: "answers s q a s' \<Longrightarrow> (\<And>obj. q \<noteq> UpdateIssued obj) \<Longrightarrow> held s' = held s"
  using kept [of s q a s'] by (cases "seen s' = seen s"; cases q) (auto simp: held_def contains_finalizer_def)

lemma accepted_status:
  assumes "answers s (UpdateIssuedStatus obj) a s'"
  shows "om_resource_version (id_meta obj) = om_resource_version (id_meta (hd (seen s))) \<or>
    seen s' = seen s \<and> (\<exists>err. a = Inl err)"
  using assms write_status [of s obj _ s'] write_failed [of s obj _ s'] by (cases a) auto

lemma answer_pass_true:
  assumes ok: "life_ok s d (ps @ p # qs)" and run: "runs (reconcile_issued x r req) (p @ [EIssued q a])"
    and answer: "answers s q a s'" and sys: "system_ok s' (ps @ (p @ [EIssued q a]) # qs)"
  shows "pass_true (p @ [EIssued q a]) d (creates (ps @ p # qs))"
proof -
  let ?n = "creates (ps @ p # qs)"
  have p: "pass_true p d ?n" using ok by (simp add: life_ok_def)
  have known: "knows r (p @ [EIssued q a]) sp \<Longrightarrow> ?n = 1 \<and> only sp d" for sp
  proof (drule knows_answer, elim disjE exE conjE)
    fix i assume i: "a = Inr i" "it_service_principal_id (id_status i) = sp" "sp \<noteq> ''''"
    with sys have "i \<in> set (seen s')" by (auto simp: system_ok_def answered_def)
    with answer_true [OF ok run answer this] i show "?n = 1 \<and> only sp d" by (auto simp: status_true_def)
  qed (use p in \<open>auto simp: pass_true_def\<close>)
  have "contains_finalizer (id_meta i) ServicePrincipalFinalizer" if q: "q = UpdateIssuedStatus obj" "a = Inr i" for obj i
  proof -
    from accepted_status answer q have v: "om_resource_version (id_meta obj) = om_resource_version (id_meta (hd (seen s)))" by blast
    with written_held [OF ok run [unfolded q(1)]] kept_held [OF answer] q have "held s'" by simp
    moreover have "i = hd (seen s')"
      using write_status [of s obj i s'] answer q ok by (auto simp: stores_def)
    ultimately show ?thesis by (simp add: held_def)
  qed
  with known p show ?thesis unfolding pass_true_def no_more_gone by auto
qed

lemma marking_creates: "runs (reconcile_issued x r req) p \<Longrightarrow> \<not> marks p \<Longrightarrow> filter is_create p = []"
  using creating_marks by (auto simp: filter_empty_conv)

lemma none_marked:
  assumes "\<And>p. p \<in> set ps \<Longrightarrow> runs (reconcile_issued x r req) p" "\<forall>p \<in> set ps. \<not> marks p"
  shows "creates ps = 0"
proof -
  have "\<not> is_create e" if "p \<in> set ps" "e \<in> set p" for p e
    using marking_creates [of req p] assms that by (auto simp: filter_empty_conv)
  then show ?thesis by (auto simp: creates_def filter_empty_conv)
qed

lemma answer_held:
  assumes ok: "life_ok s d (ps @ p # qs)" and run: "runs (reconcile_issued x r req) (p @ [EIssued q a])"
    and runs: "\<And>p'. p' \<in> set (ps @ p # qs) \<Longrightarrow> runs (reconcile_issued x r req) p'"
    and answer: "answers s q a s'"
  shows "held s' \<or> none d \<and> (creates (ps @ p # qs) = 1 \<or> (\<forall>p' \<in> set (ps @ (p @ [EIssued q a]) # qs). \<not> marks p'))"
proof (cases "(\<exists>obj. q = UpdateIssued obj) \<and> seen s' \<noteq> seen s")
  case False
  have h: "held s' = held s" if "\<not> (\<exists>obj. q = UpdateIssuedStatus obj)"
  proof (cases "\<exists>obj. q = UpdateIssued obj")
    case True
    with False show ?thesis by (simp add: held_def)
  qed (use kept_held [OF answer] in blast)
  have m: "marks (p @ [EIssued q a]) = marks p" if "\<not> (\<exists>obj i. q = UpdateIssuedStatus obj \<and> a = Inr i)"
    using that by (auto simp: marks_snoc)
  show ?thesis
  proof (cases "\<exists>obj. q = UpdateIssuedStatus obj")
    case True
    then obtain obj where q: "q = UpdateIssuedStatus obj" ..
    with accepted_status answer consider "om_resource_version (id_meta obj) = om_resource_version (id_meta (hd (seen s)))"
      | err where "seen s' = seen s" "a = Inl err" by blast
    then show ?thesis
    proof cases
      case 1
      with written_held [OF ok run [unfolded q]] kept_held [OF answer] q show ?thesis by simp
    next
      case 2
      with m ok show ?thesis by (auto simp: life_ok_def held_def)
    qed
  next
    case False
    with h m ok show ?thesis by (auto simp: life_ok_def)
  qed
next
  case True
  then obtain obj where q: "q = UpdateIssued obj" by blast
  with kept [OF answer] True have v: "om_resource_version (id_meta obj) = om_resource_version (id_meta (hd (seen s)))"
    "om_finalizers (id_meta (hd (seen s'))) = om_finalizers (id_meta obj)" by auto
  show ?thesis
  proof (cases "contains_finalizer (id_meta obj) ServicePrincipalFinalizer")
    case True
    with v(2) show ?thesis by (simp add: held_def contains_finalizer_def)
  next
    case False
    have p: "versioned s" "answered s p" "pass_true p d (creates (ps @ p # qs))"
      using ok by (simp_all add: life_ok_def system_ok_def)
    have ids: "pr_id k \<noteq> ''''" if "EPrincipals cfg f (Inr listed) \<in> set p" "k \<in> set listed" for cfg f listed k
      using p(3) that unfolding pass_true_def by blast
    from release_settled [OF finalizers run [unfolded q] False] ids obtain n i rest where
      i: "p = EIssued (GetIssued n) (Inr i) # rest" "om_resource_version (id_meta obj) = om_resource_version (id_meta i)"
        "service_principal_state (id_status i) \<in> {Unsent, Gone} \<or> seen_gone r p" by blast
    from i(1) p(2) have seen: "i \<in> set (seen s)" by (simp add: answered_def)
    with i(2) v(1) current_version [OF p(1), of i] have current: "i = hd (seen s)" by simp
    from i(3) consider (unsent) "service_principal_state (id_status i) = Unsent"
      | (gone) "it_removed_at (id_status i) \<noteq> None" | (settled) "seen_gone r p"
      by (auto simp: service_principal_state_simps)
    then show ?thesis
    proof cases
      case unsent
      from ok have "filter marks (ps @ p # qs) \<noteq> [] \<longrightarrow> service_principal_state (id_status (hd (seen s))) \<noteq> Unsent"
        unfolding life_ok_def system_ok_def by blast
      with unsent current have nm: "\<forall>p' \<in> set (ps @ p # qs). \<not> marks p'" by (metis filter_empty_conv)
      with none_marked [OF runs nm] ok have "none d" by (simp add: life_ok_def)
      with nm q show ?thesis by (auto simp: marks_snoc)
    next
      case gone
      with ok seen show ?thesis by (auto simp: life_ok_def status_true_def)
    next
      case settled
      with p(3) show ?thesis by (auto simp: pass_true_def)
    qed
  qed
qed

lemma pass_account:
  assumes "runs (reconcile_issued x r req) p" "list_all (in_account acc) p" "e \<in> set p" "event_account e = Some cfg"
  shows "cf_account_id cfg = acc"
proof -
  from assms(1,3,4) obtain i slot rest where p: "p = EIssued (GetIssued req) (Inr i) # ESlot slot # rest" "e \<in> set rest"
    and run: "runs (reconcile_record x r (snapshot slot) i) rest" by (auto simp: runs_reconcile_issued)
  from emits_runs [OF record_in_snapshot run p(2)] assms(4) have "snapshot slot = Installed cfg" by (simp add: in_snapshot_def)
  with assms(2) p(1) show ?thesis by (simp add: in_account_def)
qed

lemma exchange_true:
  assumes ok: "life_ok s d (ps @ p # qs)" and run: "runs (reconcile_issued x r req) (p @ [e])" and e: "\<And>q a. e \<noteq> EIssued q a"
    and acc: "\<And>cfg. event_account e = Some cfg \<Longrightarrow> cf_account_id cfg = acc" and ex: "exchanges d e d'"
    and quiet: "\<not> is_create e"
  shows "pass_true (p @ [e]) d' (creates (ps @ p # qs))"
proof -
  let ?n = "creates (ps @ p # qs)"
  have p: "pass_true p d ?n" "answered s p" "at_most_one d" "?n = 0 \<longrightarrow> none d" "?n \<le> 1"
    using ok by (simp_all add: life_ok_def system_ok_def)
  have less: "shrinks d d'" using not_create_shrinks [OF ex acc quiet] .
  note keeps = shrinks_keeps [OF less] and p' = shrinks_true(2) [OF disjI1 [OF less] p(1)]
  have known: "?n = 1 \<and> only sp d'" if "knows r (p @ [e]) sp" for sp
    using knows_exchange [OF that e]
  proof (elim disjE exE conjE)
    fix n i rest cfg f listed q issuer
    assume q: "p = EIssued (GetIssued n) (Inr i) # rest" "e = EPrincipals cfg f (Inr listed)" "q \<in> set listed"
      "pr_external_id q = marker_for (issuing_for r i issuer)" "pr_id q = sp"
    with p(2) have "i \<in> set (seen s)" by (simp add: answered_def)
    with ok have "id_spec i = id_spec original" by (simp add: life_ok_def)
    with markers q(4) have "pr_external_id q \<in> markers_of r original" by simp
    with listed_only [OF ex [unfolded q(2)] _ q(3) _ p(3)] acc q(2) have "only (pr_id q) d \<and> \<not> none d" by simp
    with p(4,5) q(5) keeps(2) show ?thesis by (cases ?n) auto
  qed (use p' quiet in \<open>auto simp: pass_true_def\<close>)
  have gone: "?n = 1 \<and> none d'" if "seen_gone r (p @ [e])"
    using that [unfolded seen_gone_snoc]
  proof (elim disjE exE conjE)
    fix sp assume sp: "knows r p sp" "absent e sp"
    with p(1) have "?n = 1 \<and> only sp d" by (auto simp: pass_true_def)
    with absent_none [OF ex acc sp(2)] show ?thesis by blast
  qed (use p' in \<open>simp add: pass_true_def\<close>)
  have "pr_id q \<noteq> ''''" if "EPrincipals cfg f (Inr listed) = e" "q \<in> set listed" for cfg f listed q
    using listed [of d cfg f "Inr listed" d'] ex acc that by force
  with known gone p' e show ?thesis unfolding pass_true_def by auto
qed

lemma create_true:
  assumes ok: "life_ok s d (ps @ p # qs)" and e: "e = EPrincipal cfg (CreatePrincipal n m active) reply"
    and acc: "cf_account_id cfg = acc" and ex: "exchanges d e d'" and one: "creates (ps @ (p @ [e]) # qs) \<le> 1"
    and q: "knows r (p @ [e]) sp"
  shows "only sp d'"
proof -
  have n: "creates (ps @ p # qs) = 0" using one e by (simp add: creates_snoc)
  with ok have "none d" "\<And>sp. \<not> knows r p sp" by (auto simp: life_ok_def pass_true_def)
  with knows_exchange [OF q] e create_adds(2) [OF ex [unfolded e] acc] show ?thesis by auto
qed

lemma life_in_account:
  "issued_life x r req answers drifts exchanges settles acc s0 d0 s d ps \<Longrightarrow> p \<in> set ps \<Longrightarrow> list_all (in_account acc) p"
  by (induction arbitrary: p rule: issued_life.induct) (auto simp: in_account_def)

lemma server_life:
  assumes ok: "life_ok s d (ps @ p # qs)" and run: "runs (reconcile_issued x r req) (p @ [EIssued q a])"
    and runs: "\<And>p'. p' \<in> set (ps @ p # qs) \<Longrightarrow> runs (reconcile_issued x r req) p'"
    and answer: "answers s q a s'" and sys: "system_ok s' (ps @ (p @ [EIssued q a]) # qs)"
  shows "life_ok s' d (ps @ (p @ [EIssued q a]) # qs)"
proof -
  have "creates (ps @ (p @ [EIssued q a]) # qs) = creates (ps @ p # qs)" by (simp add: creates_snoc)
  with ok sys answer_true [OF ok run answer] answer_pass_true [OF ok run answer sys] answer_held [OF ok run runs answer]
  show ?thesis by (simp add: life_ok_def)
qed

lemma create_life:
  assumes ok: "life_ok s d (ps @ p # qs)" and run: "runs (reconcile_issued x r req) (p @ [e])" and made: "is_create e"
    and acc: "\<And>cfg. event_account e = Some cfg \<Longrightarrow> cf_account_id cfg = acc" and ex: "exchanges d e d'"
    and one: "creates (ps @ (p @ [e]) # qs) \<le> 1" and sys: "system_ok s (ps @ (p @ [e]) # qs)"
  shows "life_ok s d' (ps @ (p @ [e]) # qs)"
proof -
  from made obtain cfg n m active reply where e: "e = EPrincipal cfg (CreatePrincipal n m active) reply"
    by (auto simp: is_create_def split: event.splits principal_request.splits)
  have c: "cf_account_id cfg = acc" using acc e by simp
  have n: "creates (ps @ p # qs) = 0" "creates (ps @ (p @ [e]) # qs) = 1" using one e by (simp_all add: creates_snoc)
  with ok have none: "none d" by (simp add: life_ok_def)
  have "marks p" using creating_marks [OF run _ made] e by (simp add: marks_other)
  with ok n(1) have h: "held s" by (auto simp: life_ok_def)
  have st: "status_true st d' 1" if "status_true st d 0" for st using that by (simp add: status_true_def)
  have old: "pass_true p' d' 1" if "pass_true p' d 0" for p' using that by (auto simp: pass_true_def)
  have "pass_true p d 0" using ok n(1) by (simp add: life_ok_def)
  moreover from this have "\<not> seen_gone r (p @ [e])" using e by (auto simp: seen_gone_snoc absent_def pass_true_def)
  ultimately have new: "pass_true (p @ [e]) d' 1"
    using create_true [OF ok e c ex one] e unfolding pass_true_def by auto
  show ?thesis
    using ok n h sys st old new create_adds(1) [OF ex [unfolded e] c none] by (auto simp: life_ok_def)
qed

lemma account_life:
  assumes ok: "life_ok s d (ps @ p # qs)" and run: "runs (reconcile_issued x r req) (p @ [e])" and e: "\<And>q a. e \<noteq> EIssued q a"
    and acc: "\<And>cfg. event_account e = Some cfg \<Longrightarrow> cf_account_id cfg = acc" and ex: "exchanges d e d'"
    and quiet: "\<not> is_create e" and sys: "system_ok s (ps @ (p @ [e]) # qs)"
  shows "life_ok s d' (ps @ (p @ [e]) # qs)"
proof -
  have "life_ok s d' (ps @ p # qs)" using life_shrinks [OF ok] not_create_shrinks [OF ex acc quiet] by blast
  moreover have "creates (ps @ (p @ [e]) # qs) = creates (ps @ p # qs)" using quiet by (simp add: creates_snoc)
  ultimately show ?thesis
    using exchange_true [OF ok run e acc ex quiet] sys e by (auto simp: life_ok_def marks_other)
qed

lemma drifting_life:
  assumes ok: "life_ok s d ps" and drift: "drifts s s'" and sys: "system_ok s' ps"
  shows "life_ok s' d ps"
proof (cases "seen s' = seen s")
  case True
  with ok sys show ?thesis by (simp add: life_ok_def held_def)
next
  case False
  with drifting [OF drift] obtain v where v: "seen s' = v # seen s" "id_status v = id_status (hd (seen s))"
    by (auto simp: stores_def)
  have s: "seen s \<noteq> []" using ok by (simp add: life_ok_def system_ok_def versioned_def)
  then have "hd (seen s) \<in> set (seen s)" by simp
  with v kept_by_others [OF drift False] ok sys show ?thesis
    by (auto simp: life_ok_def held_def contains_finalizer_def)
qed

theorem life_invariant:
  assumes "issued_life x r req answers drifts exchanges settles acc s0 d0 s d ps"
    and start: "seen s0 = [original]" "service_principal_state (id_status original) = Unsent" "none d0"
  shows "life_ok s d ps"
  using assms(1)
proof (induction rule: issued_life.induct)
  case born
  have "versioned s0" using start(1) by (simp add: versioned_def)
  with start show ?case
    by (simp add: life_ok_def system_ok_def creates_def at_most_one_def status_true_def service_principal_state_def
        split: if_splits)
next
  case (begins s d ps)
  then show ?case
    by (auto simp: life_ok_def system_ok_def answered_def creates_def pass_true_def knows_def seen_gone_def)
next
  case (asks_server s d ps p qs q a s')
  have life: "issued_life x r req answers drifts exchanges settles acc s0 d0 s' d (ps @ (p @ [EIssued q a]) # qs)"
    by (rule issued_life.asks_server) fact+
  have "versioned s0" using start(1) by (simp add: versioned_def)
  from server_life [OF asks_server.IH asks_server.hyps(2) system_runs [OF life_system [OF asks_server.hyps(1)]]
      asks_server.hyps(3) system_invariant [OF life_system [OF life] this]]
  show ?case .
next
  case (asks_account s d ps p qs e d')
  have life: "issued_life x r req answers drifts exchanges settles acc s0 d0 s d' (ps @ (p @ [e]) # qs)"
    by (rule issued_life.asks_account) fact+
  have v: "versioned s0" using start(1) by (simp add: versioned_def)
  note sys = system_invariant [OF life_system [OF life] v]
  have acc: "event_account e = Some cfg \<Longrightarrow> cf_account_id cfg = acc" for cfg
    using pass_account [OF asks_account.hyps(2) life_in_account [OF life], of e cfg] by simp
  show ?case
  proof (cases "is_create e")
    case True
    have "creates (ps @ (p @ [e]) # qs) \<le> 1"
      using creates_at_most_once [OF life_system [OF life] v] by (simp add: creates_def)
    from create_life [OF asks_account.IH asks_account.hyps(2) True acc asks_account.hyps(5) this sys] show ?thesis .
  next
    case False
    from account_life [OF asks_account.IH asks_account.hyps(2,3) acc asks_account.hyps(5) False sys] show ?thesis .
  qed
next
  case (server_changes s d ps s')
  have life: "issued_life x r req answers drifts exchanges settles acc s0 d0 s' d ps"
    by (rule issued_life.server_changes) fact+
  have "versioned s0" using start(1) by (simp add: versioned_def)
  from drifting_life [OF server_changes.IH server_changes.hyps(2) system_invariant [OF life_system [OF life] this]]
  show ?case .
next
  case (account_changes s d ps d')
  then show ?case using life_shrinks by blast
qed

lemma life_ends:
  assumes "issued_life x r req answers drifts exchanges settles acc s0 d0 s d ps"
    and "seen s0 = [original]" "service_principal_state (id_status original) = Unsent" "none d0"
  shows "at_most_one d" "\<not> held s \<Longrightarrow> none d"
  using life_invariant [OF assms] by (simp_all add: life_ok_def)

end

section \<open>Nothing is left behind\<close>

text \<open>C1: Over the whole life of a record, with its passes interleaved, stopped anywhere, reading behind the
  API server, and creates carried out long after they were sent or answered: there is never more than one
  service principal carrying a marker of the record in Databricks, and from the moment the record no
  longer holds its finalizer there is none, and none can come. What is relied on is what the API server
  and Databricks document, and that nobody else takes the finalizer off or uses the marker.\<close>
theorem nothing_left_behind:
  assumes "record_store_kept answers drifts seen"
    and "principal_account exchanges settles present coming acc (markers_of r first)"
    and "finalizer_lists (add_finalizer x) (remove_finalizer x)"
    and "issued_life x r req answers drifts exchanges settles acc s0 d0 s d ps"
    and "seen s0 = [first]" "service_principal_state (id_status first) = Unsent"
    and "\<forall>m \<in> markers_of r first. m \<notin> snd ` present d0 \<and> m \<notin># coming d0"
  shows "(\<forall>a \<in> present d. \<forall>b \<in> present d. snd a \<in> markers_of r first \<and> snd b \<in> markers_of r first \<longrightarrow> a = b) \<and>
    (\<not> contains_finalizer (id_meta (hd (seen s))) ServicePrincipalFinalizer \<longrightarrow>
      (\<forall>a \<in> present d. snd a \<notin> markers_of r first) \<and> (\<forall>m \<in># coming d. m \<notin> markers_of r first))"
proof -
  let ?ours = "markers_of r first"
  have life: "record_life answers drifts seen exchanges settles present coming acc r first x"
    by (intro record_life.intro record_life_axioms.intro) fact+
  note mine = principal_account.mine_def [OF assms(2)]
    and none_def = principal_account.none_def [OF assms(2)] principal_account.owed_def [OF assms(2)]
  have "principal_account.mine present ?ours d0 = {}" using assms(7) by (force simp: mine)
  moreover have "principal_account.owed coming ?ours d0 = {#}"
    using assms(7) by (auto simp: none_def filter_mset_eq_mempty_iff)
  ultimately have "principal_account.none present coming ?ours d0" by (simp add: none_def(1))
  note ends = record_life.life_ends [OF life assms(4,5,6) this]
  have "\<exists>a. principal_account.mine present ?ours d \<subseteq> {a}"
    using ends(1) unfolding principal_account.at_most_one_def [OF assms(2)] none_def(1) by blast
  then have one: "a = b" if "a \<in> present d" "b \<in> present d" "snd a \<in> ?ours" "snd b \<in> ?ours" for a b
    using that unfolding mine by blast
  have "(\<forall>a \<in> present d. snd a \<notin> ?ours) \<and> (\<forall>m \<in># coming d. m \<notin> ?ours)"
    if "\<not> contains_finalizer (id_meta (hd (seen s))) ServicePrincipalFinalizer"
  proof -
    have "principal_account.none present coming ?ours d"
      using ends(2) that by (simp add: record_life.held_def [OF life])
    then show ?thesis unfolding none_def mine filter_mset_eq_mempty_iff by blast
  qed
  with one show ?thesis by blast
qed

section \<open>The documented API server, written out\<close>

definition life_answers :: "versions \<Rightarrow> issued_request \<Rightarrow> error + issued \<Rightarrow> versions \<Rightarrow> bool" where
  "life_answers s q a s' \<longleftrightarrow> (case q of
     UpdateIssued obj \<Rightarrow> if id_spec obj = id_spec (hd s) then ref_answers s q a s' else s' = s \<and> (\<exists>err. a = Inl err)
   | _ \<Rightarrow> ref_answers s q a s')"

definition asked_to_delete :: "time \<Rightarrow> versions \<Rightarrow> issued" where
  "asked_to_delete t s = restored s (id_meta_update (om_deletion_timestamp_update (\<lambda>_. Some t)) (hd s))"

definition life_drifts :: "versions \<Rightarrow> versions \<Rightarrow> bool" where
  "life_drifts s s' \<longleftrightarrow> ref_drifts s s' \<or> (\<exists>t. s' = asked_to_delete t s # s)"

lemma restored_more [simp]:
  "id_spec (restored s i) = id_spec i" "om_finalizers (id_meta (restored s i)) = om_finalizers (id_meta i)"
  by (simp_all add: restored_def)

interpretation life_store: record_store_kept life_answers life_drifts "\<lambda>s. s"
proof
  fix s s' :: versions and n obj a q stored err
  show "life_answers s (GetIssued n) a s' \<Longrightarrow> s' = s \<and> (\<forall>i. a = Inr i \<longrightarrow> i \<in> set s)"
    by (auto simp: life_answers_def)
  show "life_answers s (UpdateIssuedStatus obj) (Inr stored) s' \<Longrightarrow>
      om_resource_version (id_meta obj) = om_resource_version (id_meta (hd s)) \<and> stores s (id_status obj) stored s'"
    unfolding life_answers_def by (simp only: issued_request.case) (rule ref_store.write_status)
  show "life_answers s (UpdateIssuedStatus obj) (Inl err) s' \<Longrightarrow> s' = s \<or>
      om_resource_version (id_meta obj) = om_resource_version (id_meta (hd s)) \<and> (\<exists>stored. stores s (id_status obj) stored s')"
    unfolding life_answers_def by (simp only: issued_request.case) (rule ref_store.write_failed)
  show "life_answers s (UpdateIssued obj) a s' \<Longrightarrow>
      (\<exists>stored. stores s (id_status (hd s)) stored s' \<and> (\<forall>i. a = Inr i \<longrightarrow> i = stored)) \<or> s' = s \<and> (\<exists>err. a = Inl err)"
    unfolding life_answers_def using ref_store.write_record [of s obj a s'] by (auto split: if_splits)
  show "life_drifts s s' \<Longrightarrow> s' = s \<or> (\<exists>stored. stores s (id_status (hd s)) stored s')"
    using ref_store.drifting [of s s']
    by (auto simp: life_drifts_def asked_to_delete_def stores_def fresh_not_in)
  show "life_answers s q a s' \<Longrightarrow> s' \<noteq> s \<Longrightarrow> id_spec (hd s') = id_spec (hd s) \<and> (case q of
      UpdateIssued obj \<Rightarrow> om_resource_version (id_meta obj) = om_resource_version (id_meta (hd s)) \<and>
        om_finalizers (id_meta (hd s')) = om_finalizers (id_meta obj)
    | _ \<Rightarrow> om_finalizers (id_meta (hd s')) = om_finalizers (id_meta (hd s)))"
    by (cases q) (auto simp: life_answers_def Let_def split: if_splits)
  show "life_drifts s s' \<Longrightarrow> s' \<noteq> s \<Longrightarrow> id_spec (hd s') = id_spec (hd s) \<and>
      set (om_finalizers (id_meta (hd s))) \<subseteq> set (om_finalizers (id_meta (hd s')))"
    by (auto simp: life_drifts_def ref_drifts_def asked_to_delete_def)
qed

interpretation ref_life: record_life life_answers life_drifts "\<lambda>s. s" ref_exchanges
    "ref_settles (markers_of r original)" fst snd acc r original ref_extern for acc r original
  by unfold_locales (simp_all add: ref_finalizers.set_add ref_finalizers.set_remove)

section \<open>A create that is carried out after its record was asked to go\<close>

text \<open>Exchanges of one pass, with the API server and with the account.\<close>

primrec lived :: "('s \<Rightarrow> issued_request \<Rightarrow> error + issued \<Rightarrow> 's \<Rightarrow> bool) \<Rightarrow> ('d \<Rightarrow> event \<Rightarrow> 'd \<Rightarrow> bool) \<Rightarrow> string \<Rightarrow>
    's \<Rightarrow> 'd \<Rightarrow> event list \<Rightarrow> 's \<Rightarrow> 'd \<Rightarrow> bool" where
  "lived answers exchanges acc s d [] s' d' \<longleftrightarrow> s' = s \<and> d' = d"
| "lived answers exchanges acc s d (e # es) s' d' \<longleftrightarrow> (\<exists>s1 d1. (case e of
       EIssued q a \<Rightarrow> answers s q a s1 \<and> d1 = d
     | _ \<Rightarrow> s1 = s \<and> in_account acc e \<and> exchanges d e d1) \<and> lived answers exchanges acc s1 d1 es s' d')"

lemma lived_append: "lived answers exchanges acc s d (es @ fs) s' d' \<longleftrightarrow>
    (\<exists>s1 d1. lived answers exchanges acc s d es s1 d1 \<and> lived answers exchanges acc s1 d1 fs s' d')"
  by (induction es arbitrary: s d) (simp, simp only: append_Cons lived.simps, blast)

lemma pass_lived:
  assumes "issued_life x r req answers drifts exchanges settles acc s0 d0 s d ps"
  shows "runs (reconcile_issued x r req) es \<Longrightarrow> lived answers exchanges acc s d es s' d' \<Longrightarrow>
     issued_life x r req answers drifts exchanges settles acc s0 d0 s' d' (ps @ [es])"
proof (induction es arbitrary: s' d' rule: rev_induct)
  case Nil
  with begins [OF assms] show ?case by simp
next
  case (snoc e es)
  then obtain s1 d1 where s1: "lived answers exchanges acc s d es s1 d1" "lived answers exchanges acc s1 d1 [e] s' d'"
    by (auto simp: lived_append)
  from snoc.IH [OF runs_prefix [OF snoc.prems(1)] s1(1)]
  have life: "issued_life x r req answers drifts exchanges settles acc s0 d0 s1 d1 (ps @ es # [])" by simp
  show ?case
  proof (cases "\<exists>q a. e = EIssued q a")
    case True
    with s1(2) snoc.prems(1) show ?thesis by (auto intro: asks_server [OF life])
  next
    case False
    with s1(2) have "s' = s1" "in_account acc e" "exchanges d1 e d'" by (cases e; simp)+
    with False snoc.prems(1) show ?thesis by (auto intro: asks_account [OF life])
  qed
qed

text \<open>The first pass creates and gets no answer; the record is asked to go; the create is carried out; the
  second pass finds what it made, deletes it and lets the record go.\<close>

definition ex_marker :: string where "ex_marker = marker_for (issuing_for ex_reconciler ex_first ''a'')"

definition ex_unanswered :: "event list" where
  "ex_unanswered = ex_questions ex_first @ [EFile ''/token'' (Inr ex_token), ENow 5,
     EIssued (UpdateIssuedStatus (marked_sent (Installed ex_config) ex_first 5)) (Inr ex_marked),
     EPrincipal ex_config (CreatePrincipal (display_name_for ''team-a'' ''etl'' '''') ex_marker True)
       (Inl (ErrorText ''timeout''))]"

definition ex_going :: issued where "ex_going = asked_to_delete 9 [ex_marked, ex_first]"

definition ex_let_go :: issued where
  "ex_let_go = ex_going\<lparr>id_meta := id_meta ex_going\<lparr>om_finalizers := []\<rparr>\<rparr>"

definition ex_ended :: issued where "ex_ended = restored [ex_going, ex_marked, ex_first] ex_let_go"

definition ex_collecting :: "event list" where
  "ex_collecting = [EIssued (GetIssued (object_key (id_meta ex_first))) (Inr ex_going), ESlot ex_slot,
     EFile ''/token'' (Inr ex_token),
     EPrincipals ex_config (Some (display_name_filter (quote ref_extern) (display_name_for ''team-a'' ''etl'' '''')))
       (Inr [\<lparr>pr_id = ''17'', pr_application_id = ''app'', pr_external_id = ex_marker, pr_display_name = ''''\<rparr>]),
     ECall ex_config (DeletePrincipal ''17'') None, EIssued (UpdateIssued ex_let_go) (Inr ex_ended)]"

lemma ex_unanswered_runs: "runs (reconcile_issued ref_extern ex_reconciler (object_key (id_meta ex_first))) ex_unanswered"
proof -
  have u: "service_principal_state ex_status = Unsent" by (simp add: ex_status_def service_principal_state_def)
  then have g: "service_principal_state ex_status \<noteq> Gone" by simp
  show ?thesis
    unfolding ex_unanswered_def ex_first_def ex_marker_def
    by (simp add: runs_def ex_reaches_converge ex_reads_token [OF g] u converge_unsent_def create_service_principal_def
        ex_issuer issuing_for_def)
qed

lemma ex_going_simps [simp]:
  "service_principal_state (id_status ex_going) = Sent" "om_deletion_timestamp (id_meta ex_going) = Some 9"
  "id_spec ex_going = id_spec ex_first" "om_finalizers (id_meta ex_going) = [ServicePrincipalFinalizer]"
  "om_resource_version (id_meta ex_going) = fresh_version [ex_marked, ex_first]"
proof -
  have "service_principal_state (id_status ex_first) = Unsent"
    by (simp add: ex_first_def ex_status_def service_principal_state_def)
  then show "service_principal_state (id_status ex_going) = Sent"
    by (simp add: ex_going_def asked_to_delete_def ex_marked_def state_of_marked)
  show "om_deletion_timestamp (id_meta ex_going) = Some 9" by (simp add: ex_going_def asked_to_delete_def restored_def)
  show "id_spec ex_going = id_spec ex_first"
    by (simp add: ex_going_def asked_to_delete_def ex_marked_def marked_sent_def Let_def)
  show "om_finalizers (id_meta ex_going) = [ServicePrincipalFinalizer]"
    by (simp add: ex_going_def asked_to_delete_def ex_marked_def ex_first_def ex_issued_def)
  show "om_resource_version (id_meta ex_going) = fresh_version [ex_marked, ex_first]"
    by (simp add: ex_going_def asked_to_delete_def)
qed

lemma ex_collecting_runs: "runs (reconcile_issued ref_extern ex_reconciler (object_key (id_meta ex_first))) ex_collecting"
proof -
  have "issuing_for ex_reconciler ex_going ''a'' = issuing_for ex_reconciler ex_first ''a''" by (simp add: issuing_for_def)
  moreover have "ig_issuer (issuing_for ex_reconciler ex_first ''a'') = ''a''" by (simp add: issuing_for_def)
  moreover have "ig_namespace (issuing_for ex_reconciler ex_first ''a'') = ''team-a''"
    "ig_name (issuing_for ex_reconciler ex_first ''a'') = ''etl''" "ig_identity (issuing_for ex_reconciler ex_first ''a'') = ''''"
    by (simp_all add: issuing_for_def ex_first_def)
  ultimately show ?thesis
    by (simp add: ex_collecting_def runs_def reconcile_issued_def reconcile_record_def destroy_record_def contains_finalizer_def
        what_to_delete_def token_issuer_def read_token_claims_def ex_token_claims issuer_of_def ex_issuer find_service_principal_def
        ex_marker_def carrying_def pick_carrier_def delete_service_principal_def release_record_def ex_let_go_def
        ref_remove_finalizer_def Let_def)
qed

lemma ex_life:
  "issued_life ref_extern ex_reconciler (object_key (id_meta ex_first)) life_answers life_drifts ref_exchanges
     (ref_settles (markers_of ex_reconciler ex_first)) ''dbx-1'' [ex_first] ({}, {#})
     [ex_ended, ex_going, ex_marked, ex_first] ({}, {#}) [ex_unanswered, ex_collecting]"
proof -
  have acc: "in_account ''dbx-1'' (ESlot ex_slot)" by (simp add: in_account_def ex_config_def)
  have any: "in_account acc' (EPrincipal cfg q1 a1)" "in_account acc' (EPrincipals cfg f a2)" "in_account acc' (ECall cfg c a3)"
    "in_account acc' (EFile pa a4)" "in_account acc' (ENow t)" "in_account acc' (EServiceAccount q5 a5)"
    "in_account acc' (EAccount q6 a6)" for acc' cfg q1 a1 f a2 c a3 pa a4 t q5 a5 q6 a6
    by (simp_all add: in_account_def)
  have one: "lived life_answers ref_exchanges ''dbx-1'' [ex_first] ({}, {#}) ex_unanswered
      [ex_marked, ex_first] ({}, {#ex_marker#})"
    by (simp add: ex_unanswered_def ex_questions_def acc any life_answers_def Let_def)
      (auto simp: ex_marked_def restored_def marked_sent_def Let_def)
  have two: "lived life_answers ref_exchanges ''dbx-1'' [ex_going, ex_marked, ex_first] ({(''17'', ex_marker)}, {#}) ex_collecting
      [ex_ended, ex_going, ex_marked, ex_first] ({}, {#})"
    by (simp add: ex_collecting_def acc any life_answers_def Let_def ex_let_go_def)
      (auto simp: ex_ended_def ex_let_go_def restored_def)
  note born = issued_life.born [of ref_extern ex_reconciler "object_key (id_meta ex_first)" life_answers life_drifts
      ref_exchanges "ref_settles (markers_of ex_reconciler ex_first)" "''dbx-1''" "[ex_first]" "({}, {#})"]
  note sent = pass_lived [OF born ex_unanswered_runs one]
  have "life_drifts [ex_marked, ex_first] [ex_going, ex_marked, ex_first]" by (auto simp: life_drifts_def ex_going_def)
  note going = issued_life.server_changes [OF sent this]
  have "ref_settles (markers_of ex_reconciler ex_first) ({}, {#ex_marker#}) ({(''17'', ex_marker)}, {#})"
    by (auto simp: ref_settles_def)
  note made = issued_life.account_changes [OF going this]
  from pass_lived [OF made ex_collecting_runs two] show ?thesis by simp
qed

theorem nothing_left_behind_witness:
  "\<not> contains_finalizer (id_meta ex_ended) ServicePrincipalFinalizer \<and> ex_marker \<notin> snd ` fst ({}, {#} :: string multiset)"
proof -
  have gone: "\<not> contains_finalizer (id_meta ex_ended) ServicePrincipalFinalizer"
    by (simp add: ex_ended_def ex_let_go_def contains_finalizer_def)
  have u: "service_principal_state (id_status ex_first) = Unsent"
    by (simp add: ex_first_def ex_status_def service_principal_state_def)
  have f: "finalizer_lists (add_finalizer ref_extern) (remove_finalizer ref_extern)"
    using ref_finalizers.finalizer_lists_axioms by simp
  from nothing_left_behind [OF life_store.record_store_kept_axioms ref_principals.principal_account_axioms f ex_life refl u]
    gone show ?thesis by simp
qed

end
