(* ===== verification/SlotCalls.thy ===== *)
theory SlotCalls
  imports ServicePrincipals
begin

text \<open>
  The methods of \<open>AccountInUse\<close> that stand in for whatever is installed (\<open>account_in_use.go\<close>): each reads the
  slot once and makes its one call on what it found. Lemmas: what one call does is the call on the
  snapshot; two calls in a row can go to two accounts, which is why a pass takes a snapshot, and the
  calls on one snapshot never do.
\<close>

definition in_use_account_client :: "config option prog" where
  "in_use_account_client = AskSlot (\<lambda>a. Ret (account_client (snapshot a)))"

definition in_use_account_id :: "string prog" where
  "in_use_account_id = AskSlot (\<lambda>a. Ret (clients_account_id (snapshot a)))"

definition in_use_find_service_principal :: "extern \<Rightarrow> issuing \<Rightarrow> (error + (string \<times> string) option) prog" where
  "in_use_find_service_principal x i = AskSlot (\<lambda>a. find_service_principal x (snapshot a) i)"

definition in_use_create_service_principal :: "issuing \<Rightarrow> (error + string \<times> string) prog" where
  "in_use_create_service_principal i = AskSlot (\<lambda>a. create_service_principal (snapshot a) i)"

definition in_use_service_principal_exists :: "string \<Rightarrow> (error + bool) prog" where
  "in_use_service_principal_exists sp = AskSlot (\<lambda>a. service_principal_exists (snapshot a) sp)"

definition in_use_delete_service_principal :: "string \<Rightarrow> error option prog" where
  "in_use_delete_service_principal sp = AskSlot (\<lambda>a. delete_service_principal (snapshot a) sp)"

definition in_use_ensure_federation_policy :: "extern \<Rightarrow> string \<Rightarrow> string \<Rightarrow> string \<Rightarrow> string \<Rightarrow> error option prog" where
  "in_use_ensure_federation_policy x sp issuer subject audience =
     AskSlot (\<lambda>a. ensure_federation_policy x (snapshot a) sp issuer subject audience)"

definition in_use_remove_federation_policies :: "extern \<Rightarrow> string \<Rightarrow> string \<Rightarrow> string \<Rightarrow> error option prog" where
  "in_use_remove_federation_policies x sp issuer subject =
     AskSlot (\<lambda>a. remove_federation_policies x (snapshot a) sp issuer subject)"

lemmas in_use_defs = in_use_account_client_def in_use_account_id_def in_use_find_service_principal_def
  in_use_create_service_principal_def in_use_service_principal_exists_def in_use_delete_service_principal_def
  in_use_ensure_federation_policy_def in_use_remove_federation_policies_def

text \<open>With nothing installed every one of them ends after reading the slot, with the error that names the account
  the operator looks for and why there is none.\<close>

theorem in_use_unconfigured:
  assumes "au_clients a = None"
  defines "err \<equiv> ErrNotConfigured (au_name a) (au_namespace a) (au_reason a)"
  shows "returns in_use_account_client [ESlot a] None" "returns in_use_account_id [ESlot a] ''''"
    "returns (in_use_find_service_principal x i) (ESlot a # es) r1 \<longleftrightarrow> es = [] \<and> r1 = Inl err"
    "returns (in_use_create_service_principal i) (ESlot a # es) r2 \<longleftrightarrow> es = [] \<and> r2 = Inl err"
    "returns (in_use_service_principal_exists sp) (ESlot a # es) r3 \<longleftrightarrow> es = [] \<and> r3 = Inl err"
    "returns (in_use_delete_service_principal sp) (ESlot a # es) r4 \<longleftrightarrow> es = [] \<and> r4 = Some err"
    "returns (in_use_ensure_federation_policy x sp iss sub aud) (ESlot a # es) r5 \<longleftrightarrow> es = [] \<and> r5 = Some err"
    "returns (in_use_remove_federation_policies x sp iss sub) (ESlot a # es) r6 \<longleftrightarrow> es = [] \<and> r6 = Some err"
  using assms(1) by (simp_all add: in_use_defs snapshot_def err_def account_client_def clients_account_id_def)

text \<open>The account asked for and the account acted in, on the slot and on a snapshot.\<close>

theorem two_calls_two_accounts:
  assumes "snapshot a = Installed cfg" "snapshot b = Installed other" "cf_account_id cfg \<noteq> cf_account_id other"
  shows "\<exists>es account_id. returns (then_do in_use_account_id (\<lambda>id. then_do (in_use_delete_service_principal sp) (\<lambda>_. Ret id))) es account_id \<and>
      (\<exists>c reply. ECall c (DeletePrincipal sp) reply \<in> set es \<and> cf_account_id c \<noteq> account_id)"
    and "returns (then_do (Ret (clients_account_id (snapshot a))) (\<lambda>id. then_do (delete_service_principal (snapshot a) sp) (\<lambda>_. Ret id))) es account_id \<Longrightarrow>
      ECall c (DeletePrincipal sp) reply \<in> set es \<Longrightarrow> cf_account_id c = account_id"
proof -
  let ?es = "[ESlot a, ESlot b, ECall other (DeletePrincipal sp) None]"
  have "returns (then_do in_use_account_id (\<lambda>id. then_do (in_use_delete_service_principal sp) (\<lambda>_. Ret id))) ?es (cf_account_id cfg)"
    using assms by (simp add: returns_def in_use_defs clients_account_id_def delete_service_principal_def)
  moreover have "ECall other (DeletePrincipal sp) None \<in> set ?es" by simp
  ultimately show "\<exists>es account_id. returns (then_do in_use_account_id (\<lambda>id. then_do (in_use_delete_service_principal sp) (\<lambda>_. Ret id))) es account_id \<and>
      (\<exists>c reply. ECall c (DeletePrincipal sp) reply \<in> set es \<and> cf_account_id c \<noteq> account_id)"
    using assms(3) by metis
  show "returns (then_do (Ret (clients_account_id (snapshot a))) (\<lambda>id. then_do (delete_service_principal (snapshot a) sp) (\<lambda>_. Ret id))) es account_id \<Longrightarrow>
      ECall c (DeletePrincipal sp) reply \<in> set es \<Longrightarrow> cf_account_id c = account_id"
    using assms(1) by (auto simp: delete_service_principal_def clients_account_id_def returns_branches)
qed

end
