(* ===== verification/ServerSideApply.thy ===== *)
theory ServerSideApply
  imports Destruction
begin

text \<open>
  Server-side apply, which the operators share objects by: what an apply does to the fields of an object
  and to who owns them, as the locale \<open>server_side_apply\<close> over any kind of field, with the documented
  behaviour written out; how operators are told apart as owners; and statements about every entry of a log.
\<close>

section \<open>Fields and their owners\<close>

text \<open>An apply of \<open>sent\<close> by \<open>owner\<close> conflicts where somebody else owns a field with another value. Carried
  out, it sets what it sends, its owner joining those who applied the same value and replacing those
  who did not, and takes away what only it owned and does not send again.\<close>

definition conflicting :: "('k \<Rightarrow> 'v option) \<Rightarrow> ('k \<Rightarrow> string set) \<Rightarrow> string \<Rightarrow> ('k \<Rightarrow> 'v option) \<Rightarrow> bool" where
  "conflicting value owners owner sent \<longleftrightarrow>
     (\<exists>f v other. sent f = Some v \<and> value f \<noteq> Some v \<and> other \<in> owners f \<and> other \<noteq> owner)"

definition merged ::
  "('k \<Rightarrow> 'v option) \<Rightarrow> ('k \<Rightarrow> string set) \<Rightarrow> string \<Rightarrow> ('k \<Rightarrow> 'v option) \<Rightarrow> ('k \<Rightarrow> 'v option) \<Rightarrow> ('k \<Rightarrow> string set) \<Rightarrow> bool" where
  "merged value owners owner sent value' owners' \<longleftrightarrow> (\<forall>f.
     value' f = (case sent f of Some v \<Rightarrow> Some v | None \<Rightarrow> if owners f = {owner} then None else value f) \<and>
     owners' f = (case sent f of Some v \<Rightarrow> insert owner (if value f = Some v then owners f else {}) | None \<Rightarrow> owners f - {owner}))"

text \<open>\<open>applies s owner sent force answer s'\<close>; an answer that is an error may have come after the apply was
  carried out.\<close>

locale server_side_apply =
  fixes applies :: "'s \<Rightarrow> string \<Rightarrow> ('k \<Rightarrow> 'v option) \<Rightarrow> bool \<Rightarrow> error option \<Rightarrow> 's \<Rightarrow> bool"
    and "value" :: "'s \<Rightarrow> 'k \<Rightarrow> 'v option" and owners :: "'s \<Rightarrow> 'k \<Rightarrow> string set"
  assumes accepted: "applies s owner sent force None s' \<Longrightarrow>
      (force \<or> \<not> conflicting (value s) (owners s) owner sent) \<and> merged (value s) (owners s) owner sent (value s') (owners s')"
    and refused: "applies s owner sent force (Some err) s' \<Longrightarrow> value s' = value s \<and> owners s' = owners s \<or>
      (force \<or> \<not> conflicting (value s) (owners s) owner sent) \<and> merged (value s) (owners s) owner sent (value s') (owners s')"
begin

lemma carried_out:
  assumes "applies s owner sent force answer s'"
  shows "answer \<noteq> None \<and> value s' = value s \<and> owners s' = owners s \<or>
    (force \<or> \<not> conflicting (value s) (owners s) owner sent) \<and> merged (value s) (owners s) owner sent (value s') (owners s')"
  using accepted refused assms by (cases answer) blast+

end

text \<open>The documented behaviour, written out.\<close>

type_synonym ('k, 'v) managed = "('k \<Rightarrow> 'v option) \<times> ('k \<Rightarrow> string set)"

definition merge_fields :: "('k, 'v) managed \<Rightarrow> string \<Rightarrow> ('k \<Rightarrow> 'v option) \<Rightarrow> ('k, 'v) managed" where
  "merge_fields s owner sent =
     ((\<lambda>f. case sent f of Some v \<Rightarrow> Some v | None \<Rightarrow> if snd s f = {owner} then None else fst s f),
      (\<lambda>f. case sent f of Some v \<Rightarrow> insert owner (if fst s f = Some v then snd s f else {}) | None \<Rightarrow> snd s f - {owner}))"

definition ref_applies ::
  "('k, 'v) managed \<Rightarrow> string \<Rightarrow> ('k \<Rightarrow> 'v option) \<Rightarrow> bool \<Rightarrow> error option \<Rightarrow> ('k, 'v) managed \<Rightarrow> bool" where
  "ref_applies s owner sent force answer s' \<longleftrightarrow>
     (if force \<or> \<not> conflicting (fst s) (snd s) owner sent
      then (case answer of None \<Rightarrow> s' = merge_fields s owner sent
        | Some err \<Rightarrow> \<not> is_conflict err \<and> (s' = merge_fields s owner sent \<or> s' = s))
      else s' = s \<and> (\<exists>err. answer = Some err))"

lemma merge_fields_merged: "merged (fst s) (snd s) owner sent (fst (merge_fields s owner sent)) (snd (merge_fields s owner sent))"
  by (simp add: merge_fields_def merged_def)

interpretation ref_apply: server_side_apply ref_applies fst snd
proof
  fix s s' :: "('k, 'v) managed" and owner sent force err
  show "ref_applies s owner sent force None s' \<Longrightarrow> (force \<or> \<not> conflicting (fst s) (snd s) owner sent) \<and>
      merged (fst s) (snd s) owner sent (fst s') (snd s')"
    using merge_fields_merged [of s owner sent] by (simp add: ref_applies_def split: if_splits)
  show "ref_applies s owner sent force (Some err) s' \<Longrightarrow> fst s' = fst s \<and> snd s' = snd s \<or>
      (force \<or> \<not> conflicting (fst s) (snd s) owner sent) \<and> merged (fst s) (snd s) owner sent (fst s') (snd s')"
    using merge_fields_merged [of s owner sent] by (auto simp: ref_applies_def split: if_splits)
qed

section \<open>Operators as owners\<close>

text \<open>What operators are told apart by: a namespace that is one.\<close>

definition named :: "namespaced_name \<Rightarrow> bool" where
  "named account \<longleftrightarrow> nn_namespace account \<noteq> '''' \<and> CHR ''/'' \<notin> set (nn_namespace account)"

lemma nn_string_apart: "named a \<Longrightarrow> named b \<Longrightarrow> nn_string a = nn_string b \<longleftrightarrow> a = b"
  using nn_string_inj [of a b] by (auto simp: named_def)

lemma field_owner_inj: "named a \<Longrightarrow> named b \<Longrightarrow> field_owner_for a = field_owner_for b \<longleftrightarrow> a = b"
  using nn_string_apart by (auto simp: field_owner_for_def)

lemma told_apart: "a \<noteq> b \<Longrightarrow> nn_namespace a \<noteq> nn_namespace b \<or> nn_name a \<noteq> nn_name b" for a b :: namespaced_name
  by (auto simp: namespaced_name.equality)

section \<open>Every entry of a log\<close>

definition throughout :: "('e list \<Rightarrow> 'e \<Rightarrow> bool) \<Rightarrow> 'e list \<Rightarrow> bool" where
  "throughout P log \<longleftrightarrow> (\<forall>pre e post. log = pre @ e # post \<longrightarrow> P pre e)"

lemma throughout_Nil [simp]: "throughout P []"
  by (simp add: throughout_def)

lemma throughout_snoc [simp]: "throughout P (log @ [e]) \<longleftrightarrow> throughout P log \<and> P log e"
proof
  assume "throughout P (log @ [e])"
  then show "throughout P log \<and> P log e" unfolding throughout_def by force
next
  assume P: "throughout P log \<and> P log e"
  show "throughout P (log @ [e])"
    unfolding throughout_def
  proof (intro allI impI)
    fix pre e' post assume "log @ [e] = pre @ e' # post"
    with P show "P pre e'" by (cases post rule: rev_cases) (auto simp: throughout_def)
  qed
qed

lemma throughout_mono: "throughout P log \<Longrightarrow> (\<And>pre e. P pre e \<Longrightarrow> Q pre e) \<Longrightarrow> throughout Q log"
  by (auto simp: throughout_def)

end
