(* ===== verification/SharedEntries.thy ===== *)
theory SharedEntries
  imports ServiceAccountSafety ServerSideApply
begin

text \<open>
  Several operators writing one DatabricksServiceAccount: all passes of all of them, interleaved, stopped
  anywhere and reading behind the API server, over server-side apply on the list of identities, which
  is keyed by profile. The specification is a board for every operator, holding what it last applied;
  the object is their union, and they never touch. What is relied on of the API server is the locale
  \<open>entries_object\<close>, which extends \<open>server_side_apply\<close>.
\<close>

section \<open>The fields of the entries\<close>

datatype aspect = Key | OfOperator | OfRecord | OfServicePrincipal | OfAccount | OfClient | RemovedAt | OfSubject
  | OfAudience | OfConditions

datatype said = SaidText string | SaidTime time | SaidConditions "condition list"

definition said_of :: "applied_identity \<Rightarrow> aspect \<Rightarrow> said option" where
  "said_of a f =
     (case f of
        Key \<Rightarrow> map_option SaidText (ai_profile a)
      | OfOperator \<Rightarrow> map_option SaidText (ai_operator a)
      | OfRecord \<Rightarrow> map_option SaidText (ai_issued a)
      | OfServicePrincipal \<Rightarrow> map_option SaidText (ai_service_principal_id a)
      | OfAccount \<Rightarrow> map_option SaidText (ai_account_id a)
      | OfClient \<Rightarrow> map_option SaidText (ai_client_id a)
      | RemovedAt \<Rightarrow> map_option SaidTime (ai_removed_at a)
      | OfSubject \<Rightarrow> map_option SaidText (ai_subject a)
      | OfAudience \<Rightarrow> map_option SaidText (ai_audience a)
      | OfConditions \<Rightarrow> if ai_conditions a = [] then None else Some (SaidConditions (ai_conditions a)))"

type_synonym entry_fields = "string \<times> aspect \<Rightarrow> said option"

definition fields_of :: "applied_identity list \<Rightarrow> entry_fields" where
  "fields_of ais k =
     (case find (\<lambda>a. ai_profile a = Some (fst k)) ais of None \<Rightarrow> None | Some a \<Rightarrow> said_of a (snd k))"

definition shown_in :: "databricks_service_account \<Rightarrow> entry_fields" where
  "shown_in d = fields_of (map projected_identity_for (da_identities d))"

lemma fields_of_Nil [simp]: "fields_of [] = (\<lambda>_. None)"
  by (simp add: fields_of_def fun_eq_iff)

lemma fields_of_operator:
  assumes "\<forall>ai \<in> set ais. ai_operator ai = Some o1" "fields_of ais (p, f) \<noteq> None"
  shows "fields_of ais (p, OfOperator) = Some (SaidText o1)"
proof -
  from assms(2) obtain a where a: "find (\<lambda>a. ai_profile a = Some p) ais = Some a"
    by (auto simp: fields_of_def split: option.splits)
  then have "a \<in> set ais" by (auto simp: find_Some_iff)
  with assms(1) a show ?thesis by (simp add: fields_of_def said_of_def)
qed

section \<open>The object\<close>

text \<open>\<open>deletes\<close> is a delete of the object, which is sent without a precondition; \<open>drifts\<close> is everybody else:
  the collector and its users may delete it, and nobody else writes its status.\<close>

locale entries_object = server_side_apply applies "value" owners
  for applies :: "'s \<Rightarrow> string \<Rightarrow> entry_fields \<Rightarrow> bool \<Rightarrow> error option \<Rightarrow> 's \<Rightarrow> bool"
    and "value" :: "'s \<Rightarrow> entry_fields" and owners :: "'s \<Rightarrow> string \<times> aspect \<Rightarrow> string set" +
  fixes deletes :: "'s \<Rightarrow> error option \<Rightarrow> 's \<Rightarrow> bool" and drifts :: "'s \<Rightarrow> 's \<Rightarrow> bool"
  assumes deleted: "deletes s None s' \<Longrightarrow> value s' = (\<lambda>_. None) \<and> owners s' = (\<lambda>_. {})"
    and delete_failed: "deletes s (Some err) s' \<Longrightarrow>
      value s' = value s \<and> owners s' = owners s \<or> value s' = (\<lambda>_. None) \<and> owners s' = (\<lambda>_. {})"
    and taken_away: "drifts s s' \<Longrightarrow> value s' = (\<lambda>_. None) \<and> owners s' = (\<lambda>_. {})"

text \<open>What was done to the object, and by whom.\<close>

datatype logged = By namespaced_name event | TakenAway

definition on_object :: "namespaced_name \<Rightarrow> event \<Rightarrow> bool" where
  "on_object n e \<longleftrightarrow> (\<exists>ais owner answer. e = EWrite (ApplyIdentities n ais owner) answer) \<or>
     (\<exists>d answer. e = EWrite (DeleteIdentities d) answer \<and> object_key (da_meta d) = n) \<or>
     (\<exists>q d. e = EIdentities q (Inr d) \<and> object_key (da_meta d) = n)"

text \<open>Passes of the operators \<open>ops\<close> on the object \<open>n\<close>; a read shows some state it has had, \<open>vs\<close>.\<close>

inductive entries_system ::
  "extern \<Rightarrow> namespaced_name set \<Rightarrow> namespaced_name \<Rightarrow>
     ('s \<Rightarrow> string \<Rightarrow> entry_fields \<Rightarrow> bool \<Rightarrow> error option \<Rightarrow> 's \<Rightarrow> bool) \<Rightarrow> ('s \<Rightarrow> error option \<Rightarrow> 's \<Rightarrow> bool) \<Rightarrow> ('s \<Rightarrow> 's \<Rightarrow> bool) \<Rightarrow>
     ('s \<Rightarrow> entry_fields) \<Rightarrow> 's \<Rightarrow> 's \<Rightarrow> entry_fields list \<Rightarrow> logged list \<Rightarrow> (namespaced_name \<times> event list) list \<Rightarrow> bool"
  for x ops n applies deletes drifts "value" s0 where
  blank: "entries_system x ops n applies deletes drifts value s0 s0 [value s0] [] []"
| begins: "entries_system x ops n applies deletes drifts value s0 s vs log ps \<Longrightarrow> a \<in> ops \<Longrightarrow>
     entries_system x ops n applies deletes drifts value s0 s vs log (ps @ [(a, [])])"
| writes: "entries_system x ops n applies deletes drifts value s0 s vs log (ps @ (a, p) # qs) \<Longrightarrow>
     e = EWrite (ApplyIdentities n ais owner) answer \<Longrightarrow> runs (reconcile_identities x a n) (p @ [e]) \<Longrightarrow>
     applies s owner (fields_of ais) False answer s' \<Longrightarrow>
     entries_system x ops n applies deletes drifts value s0 s' (value s' # vs) (log @ [By a e]) (ps @ (a, p @ [e]) # qs)"
| deletes: "entries_system x ops n applies deletes drifts value s0 s vs log (ps @ (a, p) # qs) \<Longrightarrow>
     e = EWrite (DeleteIdentities d) answer \<Longrightarrow> object_key (da_meta d) = n \<Longrightarrow> runs (reconcile_identities x a n) (p @ [e]) \<Longrightarrow>
     deletes s answer s' \<Longrightarrow>
     entries_system x ops n applies deletes drifts value s0 s' (value s' # vs) (log @ [By a e]) (ps @ (a, p @ [e]) # qs)"
| reads: "entries_system x ops n applies deletes drifts value s0 s vs log (ps @ (a, p) # qs) \<Longrightarrow>
     e = EIdentities q (Inr d) \<Longrightarrow> object_key (da_meta d) = n \<Longrightarrow> runs (reconcile_identities x a n) (p @ [e]) \<Longrightarrow>
     shown_in d \<in> set vs \<Longrightarrow>
     entries_system x ops n applies deletes drifts value s0 s vs (log @ [By a e]) (ps @ (a, p @ [e]) # qs)"
| elsewhere: "entries_system x ops n applies deletes drifts value s0 s vs log (ps @ (a, p) # qs) \<Longrightarrow> \<not> on_object n e \<Longrightarrow>
     runs (reconcile_identities x a n) (p @ [e]) \<Longrightarrow>
     entries_system x ops n applies deletes drifts value s0 s vs (log @ [By a e]) (ps @ (a, p @ [e]) # qs)"
| others: "entries_system x ops n applies deletes drifts value s0 s vs log ps \<Longrightarrow> drifts s s' \<Longrightarrow>
     entries_system x ops n applies deletes drifts value s0 s' (value s' # vs) (log @ [TakenAway]) ps"

section \<open>The boards\<close>

type_synonym boards = "namespaced_name \<Rightarrow> entry_fields"

definition no_boards :: boards where "no_boards = (\<lambda>_ _. None)"

text \<open>No profile is on both.\<close>

definition apart :: "entry_fields \<Rightarrow> entry_fields \<Rightarrow> bool" where
  "apart v w \<longleftrightarrow> (\<forall>p f g. v (p, f) = None \<or> w (p, g) = None)"

lemma apart_sym: "apart v w \<Longrightarrow> apart w v"
  unfolding apart_def by metis

text \<open>An apply replaces its operator's board, and is only accepted apart from all others; a delete takes all
  boards away; one whose answer is an error may have been carried out.\<close>

definition placed :: "boards \<Rightarrow> namespaced_name \<Rightarrow> entry_fields \<Rightarrow> boards \<Rightarrow> bool" where
  "placed b a v b' \<longleftrightarrow> b' = b(a := v) \<and> (\<forall>c. c \<noteq> a \<longrightarrow> apart (b c) v)"

fun board_step :: "namespaced_name \<Rightarrow> boards \<Rightarrow> logged \<Rightarrow> boards \<Rightarrow> bool" where
  "board_step n b (By a (EWrite (ApplyIdentities m ais owner) answer)) b' \<longleftrightarrow>
     (if m = n then placed b a (fields_of ais) b' \<or> answer \<noteq> None \<and> b' = b else b' = b)"
| "board_step n b (By a (EWrite (DeleteIdentities d) answer)) b' \<longleftrightarrow>
     (if object_key (da_meta d) = n then b' = no_boards \<or> answer \<noteq> None \<and> b' = b else b' = b)"
| "board_step n b TakenAway b' \<longleftrightarrow> b' = no_boards"
| "board_step n b (By a e) b' \<longleftrightarrow> b' = b"

inductive board_run :: "namespaced_name \<Rightarrow> logged list \<Rightarrow> boards \<Rightarrow> bool" for n where
  "board_run n [] no_boards"
| "board_run n log b \<Longrightarrow> board_step n b e b' \<Longrightarrow> board_run n (log @ [e]) b'"

text \<open>The object is the union of the boards, each operator owning its own, and each entry says whose it is.\<close>

definition shows_boards :: "entry_fields \<Rightarrow> (string \<times> aspect \<Rightarrow> string set) \<Rightarrow> boards \<Rightarrow> bool" where
  "shows_boards value owners b \<longleftrightarrow>
     (\<forall>k v. value k = Some v \<longleftrightarrow> (\<exists>a. b a k = Some v)) \<and>
     (\<forall>k. owners k = field_owner_for ` {a. b a k \<noteq> None}) \<and>
     (\<forall>a c. a \<noteq> c \<longrightarrow> apart (b a) (b c)) \<and>
     (\<forall>a p f. b a (p, f) \<noteq> None \<longrightarrow> b a (p, OfOperator) = Some (SaidText (nn_string a)))"

lemma no_boards_shown: "shows_boards (\<lambda>_. None) (\<lambda>_. {}) no_boards"
  by (simp add: shows_boards_def no_boards_def apart_def)

lemma accepted_apart:
  assumes shown: "shows_boards value owners b" and ops: "\<forall>c k. b c k \<noteq> None \<longrightarrow> named c" "named a"
    and sent: "\<forall>p f. v (p, f) \<noteq> None \<longrightarrow> v (p, OfOperator) = Some (SaidText (nn_string a))"
    and ok: "\<not> conflicting value owners (field_owner_for a) v" and c: "c \<noteq> a"
  shows "apart (b c) v"
  unfolding apart_def
proof (intro allI, rule ccontr)
  fix p f g
  assume both: "\<not> (b c (p, f) = None \<or> v (p, g) = None)"
  with shown sent have o1: "b c (p, OfOperator) = Some (SaidText (nn_string c))" "v (p, OfOperator) = Some (SaidText (nn_string a))"
    unfolding shows_boards_def by blast+
  have "named c" using both ops(1) by blast
  then have apart: "nn_string c \<noteq> nn_string a" "field_owner_for c \<noteq> field_owner_for a"
    using ops(2) c nn_string_apart field_owner_inj by blast+
  have "value (p, OfOperator) = Some (SaidText (nn_string c))" "field_owner_for c \<in> owners (p, OfOperator)"
    using shown o1(1) unfolding shows_boards_def by blast+
  with ok o1(2) apart show False unfolding conflicting_def by fastforce
qed

lemma accepted_shown:
  assumes shown: "shows_boards value owners b" and ops: "\<forall>c k. b c k \<noteq> None \<longrightarrow> named c" "named a"
    and sent: "\<forall>p f. v (p, f) \<noteq> None \<longrightarrow> v (p, OfOperator) = Some (SaidText (nn_string a))"
    and ok: "\<not> conflicting value owners (field_owner_for a) v"
    and merged: "merged value owners (field_owner_for a) v value' owners'"
  shows "placed b a v (b(a := v)) \<and> shows_boards value' owners' (b(a := v))"
proof -
  note apart = accepted_apart [OF shown ops sent ok]
  have value': "value' k = (case v k of Some u \<Rightarrow> Some u | None \<Rightarrow> if owners k = {field_owner_for a} then None else value k)"
    and owners': "owners' k = (case v k of Some u \<Rightarrow> insert (field_owner_for a) (if value k = Some u then owners k else {})
       | None \<Rightarrow> owners k - {field_owner_for a})" for k
    using merged unfolding merged_def by blast+
  have union: "value k = Some u \<longleftrightarrow> (\<exists>c. b c k = Some u)" and owning_b: "owners k = field_owner_for ` {c. b c k \<noteq> None}"
    and apart_b: "c \<noteq> d \<Longrightarrow> apart (b c) (b d)"
    and says_b: "b c (p, f) \<noteq> None \<Longrightarrow> b c (p, OfOperator) = Some (SaidText (nn_string c))" for k u c d p f
    using shown unfolding shows_boards_def by blast+
  have owner: "c = a" if "b c k \<noteq> None" "owners k = {field_owner_for a}" for c k
  proof -
    have "field_owner_for c \<in> owners k" using owning_b that(1) by blast
    moreover have "named c" using ops(1) that(1) by blast
    ultimately show ?thesis using that(2) ops(2) field_owner_inj by simp
  qed
  have alone: "b c k = None" if "v k = Some u" "c \<noteq> a" for c k u
    using apart [OF that(2)] that(1) unfolding apart_def by (metis option.distinct(1) surj_pair)
  have fields: "value' k = Some u \<longleftrightarrow> (\<exists>c. (b(a := v)) c k = Some u)" for k u
  proof (cases "v k")
    case (Some u')
    with alone [OF Some] show ?thesis by (auto simp: value')
  next
    case None
    show ?thesis
    proof (cases "owners k = {field_owner_for a}")
      case True
      have "b c k = None" if "c \<noteq> a" for c using owner [OF _ True] that by blast
      with None True show ?thesis by (simp add: value')
    next
      case False
      have "b a k = None"
      proof (rule ccontr)
        assume a: "b a k \<noteq> None"
        have "c = a" if "b c k \<noteq> None" for c
          using apart_b [of c a] a that unfolding apart_def by (cases k) metis
        with a have "{c. b c k \<noteq> None} = {a}" by blast
        with owning_b [of k] False show False by simp
      qed
      then have "(\<exists>c. (b(a := v)) c k = Some u) \<longleftrightarrow> (\<exists>c. b c k = Some u)"
        using None by (metis fun_upd_apply option.distinct(1))
      with None False union [of k u] show ?thesis by (simp add: value')
    qed
  qed
  have owning: "owners' k = field_owner_for ` {c. (b(a := v)) c k \<noteq> None}" for k
  proof (cases "v k")
    case (Some u)
    have "{c. (b(a := v)) c k \<noteq> None} = {a}" using Some alone [OF Some] by auto
    moreover have "owners k \<subseteq> {field_owner_for a}"
    proof -
      have "c = a" if "b c k \<noteq> None" for c using alone [OF Some, of c] that by (cases "c = a") simp_all
      then have "{c. b c k \<noteq> None} \<subseteq> {a}" by (intro subsetI) simp
      from image_mono [OF this, of field_owner_for] show ?thesis by (simp only: owning_b image_insert image_empty)
    qed
    ultimately show ?thesis using Some by (auto simp: owners')
  next
    case None
    have "field_owner_for c \<noteq> field_owner_for a" if "b c k \<noteq> None" "c \<noteq> a" for c
      using that ops field_owner_inj by blast
    then have "field_owner_for ` {c. b c k \<noteq> None} - {field_owner_for a} = field_owner_for ` {c. b c k \<noteq> None \<and> c \<noteq> a}"
      by (auto simp del: not_None_eq)
    moreover have "{c. (b(a := v)) c k \<noteq> None} = {c. b c k \<noteq> None \<and> c \<noteq> a}" using None by auto
    ultimately show ?thesis using None owning_b [of k] by (simp add: owners')
  qed
  show ?thesis
    unfolding shows_boards_def placed_def
  proof (intro conjI allI impI)
    fix c c' :: namespaced_name assume "c \<noteq> c'"
    then show "apart ((b(a := v)) c) ((b(a := v)) c')"
      using apart apart_b [of c c'] apart_sym by (cases "c = a"; cases "c' = a") auto
  next
    fix c :: namespaced_name and p f assume "(b(a := v)) c (p, f) \<noteq> None"
    with sent says_b [of c p f] show "(b(a := v)) c (p, OfOperator) = Some (SaidText (nn_string c))"
      by (cases "c = a") auto
  qed (use apart fields owning in simp_all)
qed

section \<open>The simulation\<close>

text \<open>A delete comes after a read of a state, behind or not, with no entry of anybody else.\<close>

definition deletes_own :: "namespaced_name \<Rightarrow> entry_fields set \<Rightarrow> logged list \<Rightarrow> logged \<Rightarrow> bool" where
  "deletes_own n vs pre e \<longleftrightarrow> (\<forall>a d answer. e = By a (EWrite (DeleteIdentities d) answer) \<and> object_key (da_meta d) = n \<longrightarrow>
     (\<exists>v \<in> vs. \<forall>p f. v (p, f) \<noteq> None \<longrightarrow> v (p, OfOperator) = Some (SaidText (nn_string a))))"

lemma deletes_own_mono: "throughout (deletes_own n vs) log \<Longrightarrow> vs \<subseteq> vs' \<Longrightarrow> throughout (deletes_own n vs') log"
  by (erule throughout_mono) (unfold deletes_own_def, blast)

lemma entries_passes:
  assumes "entries_system x ops n applies deletes drifts value s0 s vs log ps" "(a, p) \<in> set ps"
  shows "a \<in> ops \<and> (\<forall>q d. EIdentities q (Inr d) \<in> set p \<and> object_key (da_meta d) = n \<longrightarrow> shown_in d \<in> set vs)"
  using assms
proof (induction arbitrary: a p rule: entries_system.induct)
  case (begins s vs log ps b)
  then show ?case by (cases "(a, p) \<in> set ps") auto
next
  case (writes s vs log ps b q qs e ais owner answer s')
  then show ?case using writes.IH [of a p] writes.IH [of b q] by (cases "(a, p) = (b, q @ [e])") auto
next
  case (deletes s vs log ps b q qs e d answer s')
  then show ?case using deletes.IH [of a p] deletes.IH [of b q] by (cases "(a, p) = (b, q @ [e])") auto
next
  case (reads s vs log ps b q qs e rq d)
  then show ?case using reads.IH [of a p] reads.IH [of b q] by (cases "(a, p) = (b, q @ [e])") auto
next
  case (elsewhere s vs log ps b q qs e)
  have "e \<noteq> EIdentities rq (Inr d)" if "object_key (da_meta d) = n" for rq d
    using elsewhere.hyps(2) that by (auto simp: on_object_def)
  then show ?case using elsewhere.IH [of a p] elsewhere.IH [of b q] elsewhere.prems by (cases "(a, p) = (b, q @ [e])") auto
next
  case (others s vs log ps s')
  then show ?case by auto
qed simp

lemma own_entries_only:
  assumes "list_all (\<lambda>i. asked_of i a) (da_identities d)" "shown_in d (p, f) \<noteq> None"
  shows "shown_in d (p, OfOperator) = Some (SaidText (nn_string a))"
proof -
  have "\<forall>ai \<in> set (map projected_identity_for (da_identities d)). ai_operator ai = Some (nn_string a)"
    using assms(1) by (auto simp: list_all_iff asked_of_def projected_identity_for_fields)
  from fields_of_operator [OF this] assms(2) show ?thesis by (simp add: shown_in_def)
qed

context entries_object begin

definition boards_ok :: "namespaced_name \<Rightarrow> namespaced_name set \<Rightarrow> 's \<Rightarrow> logged list \<Rightarrow> boards \<Rightarrow> bool" where
  "boards_ok n ops s log b \<longleftrightarrow> board_run n log b \<and> shows_boards (value s) (owners s) b \<and> (\<forall>a k. b a k \<noteq> None \<longrightarrow> a \<in> ops)"

lemma boards_cleared: "boards_ok n ops s log b \<Longrightarrow> value s' = (\<lambda>_. None) \<Longrightarrow> owners s' = (\<lambda>_. {}) \<Longrightarrow>
    board_step n b e no_boards \<Longrightarrow> boards_ok n ops s' (log @ [e]) no_boards"
  using board_run.intros(2) [of n log b e no_boards] no_boards_shown by (auto simp: boards_ok_def) (auto simp: no_boards_def)

lemma boards_kept: "boards_ok n ops s log b \<Longrightarrow> value s' = value s \<Longrightarrow> owners s' = owners s \<Longrightarrow> board_step n b e b \<Longrightarrow>
    boards_ok n ops s' (log @ [e]) b"
  using board_run.intros(2) [of n log b e b] by (auto simp: boards_ok_def)

lemma apply_on_board:
  assumes ok: "boards_ok n ops s log b" and ops: "a \<in> ops" "\<forall>a \<in> ops. named a"
    and own: "owner = field_owner_for a" "\<forall>ai \<in> set ais. ai_operator ai = Some (nn_string a)"
    and "applies": "applies s owner (fields_of ais) False answer s'"
  shows "\<exists>b'. boards_ok n ops s' (log @ [By a (EWrite (ApplyIdentities n ais owner) answer)]) b'"
proof -
  consider (same) "answer \<noteq> None" "value s' = value s" "owners s' = owners s"
    | (new) "\<not> conflicting (value s) (owners s) owner (fields_of ais)"
        "merged (value s) (owners s) owner (fields_of ais) (value s') (owners s')"
    using carried_out [OF "applies"] by blast
  then show ?thesis
  proof cases
    case same
    with boards_kept [OF ok] show ?thesis by (intro exI [of _ b]) simp
  next
    case m: new
    have shown: "shows_boards (value s) (owners s) b" and named: "\<forall>c k. b c k \<noteq> None \<longrightarrow> named c" "named a"
      using ok ops unfolding boards_ok_def by blast+
    have "\<forall>p f. fields_of ais (p, f) \<noteq> None \<longrightarrow> fields_of ais (p, OfOperator) = Some (SaidText (nn_string a))"
      using fields_of_operator [OF own(2)] by blast
    from accepted_shown [OF shown named this] m own(1)
    have new: "placed b a (fields_of ais) (b(a := fields_of ais))" "shows_boards (value s') (owners s') (b(a := fields_of ais))"
      by blast+
    then have "board_step n b (By a (EWrite (ApplyIdentities n ais owner) answer)) (b(a := fields_of ais))" by simp
    with ok have "board_run n (log @ [By a (EWrite (ApplyIdentities n ais owner) answer)]) (b(a := fields_of ais))"
      unfolding boards_ok_def by (intro board_run.intros(2)) auto
    moreover have "c \<in> ops" if "(b(a := fields_of ais)) c k \<noteq> None" for c k
    proof (cases "c = a")
      case False
      with that have "b c k \<noteq> None" by simp
      with ok show ?thesis unfolding boards_ok_def by blast
    qed (use ops(1) in simp)
    ultimately show ?thesis using new(2) unfolding boards_ok_def by blast
  qed
qed

lemma delete_on_board:
  assumes "boards_ok n ops s log b" "object_key (da_meta d) = n" "deletes s answer s'"
  shows "\<exists>b'. boards_ok n ops s' (log @ [By a (EWrite (DeleteIdentities d) answer)]) b'"
proof -
  from assms(3) deleted delete_failed consider "value s' = (\<lambda>_. None)" "owners s' = (\<lambda>_. {})"
    | "answer \<noteq> None" "value s' = value s" "owners s' = owners s" by (cases answer) blast+
  then show ?thesis
  proof cases
    case 1
    from boards_cleared [OF assms(1) this] assms(2) show ?thesis by (intro exI [of _ no_boards]) simp
  next
    case 2
    from boards_kept [OF assms(1) 2(2,3)] 2(1) assms(2) show ?thesis by (intro exI [of _ b]) simp
  qed
qed

theorem entries_simulate:
  assumes "entries_system x ops n applies deletes drifts value s0 s vs log ps" "\<forall>a \<in> ops. named a"
    and start: "value s0 = (\<lambda>_. None)" "owners s0 = (\<lambda>_. {})"
  shows "(\<exists>b. boards_ok n ops s log b) \<and> throughout (deletes_own n (set vs)) log"
  using assms(1)
proof (induction rule: entries_system.induct)
  case blank
  have "boards_ok n ops s0 [] no_boards"
    using board_run.intros(1) no_boards_shown start by (auto simp: boards_ok_def) (simp add: no_boards_def)
  then show ?case by auto
next
  case (writes s vs log ps a p qs e ais owner answer s')
  have "a \<in> ops" using entries_passes [OF writes.hyps(1), of a p] by simp
  moreover have "owner = field_owner_for a \<and> (\<forall>ai \<in> set ais. ai_operator ai = Some (nn_string a))"
    using always_runs [OF reconcile_entries writes.hyps(3) refl] writes.hyps(2) by (auto simp: list_all_iff)
  ultimately have "\<exists>b. boards_ok n ops s' (log @ [By a e]) b"
    using writes.IH apply_on_board assms(2) writes.hyps(2,4) by blast
  moreover have "throughout (deletes_own n (set (value s' # vs))) log"
    using writes.IH by (auto intro: deletes_own_mono)
  moreover have "deletes_own n (set (value s' # vs)) log (By a e)" using writes.hyps(2) by (simp add: deletes_own_def)
  ultimately show ?case by simp
next
  case (deletes s vs log ps a p qs e d answer s')
  from always_runs [OF reconcile_entries deletes.hyps(4) refl] deletes.hyps(2)
  obtain q where read: "EIdentities q (Inr d) \<in> set p" and own: "list_all (\<lambda>i. asked_of i a) (da_identities d)" by auto
  have "shown_in d \<in> set vs" using entries_passes [OF deletes.hyps(1), of a p] read deletes.hyps(3) by auto
  then have "deletes_own n (set (value s' # vs)) log (By a e)"
    using own_entries_only [OF own] deletes.hyps(2) unfolding deletes_own_def by (intro allI impI bexI [of _ "shown_in d"]) auto
  moreover have "throughout (deletes_own n (set (value s' # vs))) log"
    using deletes.IH by (auto intro: deletes_own_mono)
  moreover have "\<exists>b. boards_ok n ops s' (log @ [By a e]) b"
    using deletes.IH delete_on_board [OF _ deletes.hyps(3,5)] deletes.hyps(2) by blast
  ultimately show ?case by simp
next
  case (reads s vs log ps a p qs e q d)
  from reads.IH obtain b where "boards_ok n ops s log b" by blast
  from boards_kept [OF this refl refl, of "By a e"] reads.hyps(2) have "boards_ok n ops s (log @ [By a e]) b" by simp
  moreover have "deletes_own n (set vs) log (By a e)" using reads.hyps(2) by (simp add: deletes_own_def)
  ultimately show ?case using reads.IH by auto
next
  case (elsewhere s vs log ps a p qs e)
  from elsewhere.IH obtain b where b: "boards_ok n ops s log b" by blast
  have "board_step n b (By a e) b"
    using elsewhere.hyps(2) by (cases "(n, b, By a e, b)" rule: board_step.cases) (auto simp: on_object_def)
  note boards_kept [OF b refl refl this]
  moreover have "deletes_own n (set vs) log (By a e)" using elsewhere.hyps(2) unfolding deletes_own_def on_object_def by blast
  ultimately show ?case using elsewhere.IH by auto
next
  case (others s vs log ps s')
  from others.IH obtain b where "boards_ok n ops s log b" by blast
  from boards_cleared [OF this, of s' TakenAway] taken_away [OF others.hyps(2)]
  have "boards_ok n ops s' (log @ [TakenAway]) no_boards" by simp
  moreover have "throughout (deletes_own n (set (value s' # vs))) log"
    using others.IH by (auto intro: deletes_own_mono)
  moreover have "deletes_own n (set (value s' # vs)) log TakenAway" by (simp add: deletes_own_def)
  ultimately show ?case by auto
qed auto

end

text \<open>C29: However many passes of however many operators run over one ServiceAccount, interleaved, stopped
  anywhere and reading behind the API server, each operator has a board of its own in the object: the
  object is always the union of the boards, no profile is on two of them, every entry of a board says
  whose it is, and an operator's board is exactly what its last accepted apply sent, changed by no apply
  of anybody else, until the object is deleted; an apply of a profile that is on somebody else's board
  is never accepted. An operator deletes the object only after reading some state of it without an
  entry of anybody else. What is relied on is server-side apply as it is documented.\<close>
theorem operators_share_the_object:
  assumes "entries_object applies value owners deletes drifts"
    and "entries_system x ops n applies deletes drifts value s0 s vs log ps" and "\<forall>a \<in> ops. named a"
    and "value s0 = (\<lambda>_. None)" "owners s0 = (\<lambda>_. {})"
  shows "\<exists>b. board_run n log b \<and> (\<forall>k v. value s k = Some v \<longleftrightarrow> (\<exists>a \<in> ops. b a k = Some v)) \<and>
      (\<forall>a c. a \<noteq> c \<longrightarrow> apart (b a) (b c)) \<and>
      (\<forall>a p f. b a (p, f) \<noteq> None \<longrightarrow> b a (p, OfOperator) = Some (SaidText (nn_string a))) \<and>
      throughout (deletes_own n (set vs)) log"
proof -
  note sim = entries_object.entries_simulate [OF assms]
  from sim obtain b where "entries_object.boards_ok value owners n ops s log b" by blast
  then have b: "board_run n log b" "shows_boards (value s) (owners s) b" "\<forall>a k. b a k \<noteq> None \<longrightarrow> a \<in> ops"
    by (simp_all add: entries_object.boards_ok_def [OF assms(1)])
  have "(\<exists>a. b a k = Some v) \<longleftrightarrow> (\<exists>a \<in> ops. b a k = Some v)" for k v using b(3) by blast
  with b(1,2) sim show ?thesis unfolding shows_boards_def by (intro exI [of _ b]) simp
qed

section \<open>An object before its entries\<close>

text \<open>C30: An operator of which a ServiceAccount asks nothing, and that reads the object another operator has just
  made for it, before the other's entries are in it, deletes it: nothing in it is anybody's. The other's
  apply then finds nothing to write on, takes that for success, and its pass reports no error and is not
  repeated before its usual interval.\<close>
theorem bystander_deletes_what_another_makes:
  fixes entries :: "projected_identity list"
  assumes "requests_for x (om_annotations (sa_meta sa)) bystander = \<lparr>understood = [], refused = []\<rparr>"
    and "da_identities made = []" and "entries \<noteq> []" and "is_not_found absent" "is_not_found gone"
  shows "returns (reconcile_identities x bystander n)
      [EServiceAccount (CachedServiceAccount n) (Inr sa), EAccount (GetAccount bystander) (Inr account),
       EIdentities (GetIdentities (object_key (sa_meta sa))) (Inr made), EWrite (DeleteIdentities made) None]
      (no_result, None) \<and>
    returns (write_entries x maker sa entries)
      [EIdentities (GetIdentities (object_key (sa_meta sa))) (Inl absent),
       EIdentities (CreateIdentities (new_identities sa) sa) (Inr made),
       EWrite (ApplyIdentities (object_key (sa_meta sa))
         (map projected_identity_for (sort_key (identity_name_of maker) entries)) (field_owner_for maker)) (Some gone)]
      (requeue_after (come_back_in x (sort_key (identity_name_of maker) entries)), None)"
proof -
  have "sort_key (identity_name_of maker) entries \<noteq> []" using assms(3) by (metis length_0_conv length_sort)
  then show ?thesis using assms
    by (simp add: returns_def reconcile_identities_def databricks_account_serves_def resent_identities_def
        remove_identities_def Let_def write_entries_def apply_identities_def project_identities_def ignore_not_found_def)
qed

section \<open>The object, written out\<close>

definition ref_deletes :: "(string \<times> aspect, said) managed \<Rightarrow> error option \<Rightarrow> (string \<times> aspect, said) managed \<Rightarrow> bool" where
  "ref_deletes s answer s' \<longleftrightarrow> s' = (\<lambda>_. None, \<lambda>_. {}) \<or> answer \<noteq> None \<and> s' = s"

definition ref_taken_away :: "(string \<times> aspect, said) managed \<Rightarrow> (string \<times> aspect, said) managed \<Rightarrow> bool" where
  "ref_taken_away s s' \<longleftrightarrow> s' = (\<lambda>_. None, \<lambda>_. {})"

interpretation ref_entries: entries_object ref_applies fst snd ref_deletes ref_taken_away
  by unfold_locales (auto simp: ref_deletes_def ref_taken_away_def)

lemma entries_elsewhere:
  assumes "entries_system x ops n applies deletes drifts value s0 s vs log (ps @ (a, p) # qs)"
    and "runs (reconcile_identities x a n) (p @ es)" and "list_all (\<lambda>e. \<not> on_object n e) es"
  shows "entries_system x ops n applies deletes drifts value s0 s vs (log @ map (By a) es) (ps @ (a, p @ es) # qs)"
  using assms(2,3)
proof (induction es rule: rev_induct)
  case (snoc e es)
  from runs_prefix [of _ "p @ es" "[e]"] snoc have "runs (reconcile_identities x a n) (p @ es)" by simp
  with snoc have "entries_system x ops n applies deletes drifts value s0 s vs (log @ map (By a) es) (ps @ (a, p @ es) # qs)"
    by simp
  from entries_system.elsewhere [OF this] snoc.prems show ?case by simp
qed (use assms(1) in simp)

text \<open>One complete pass over an object that was just created.\<close>

definition ex_object :: databricks_service_account where
  "ex_object = \<lparr>da_meta = sa_meta ex_annotated, da_identities = []\<rparr>"

definition ex_ask :: "event list" where
  "ex_ask = [EServiceAccount (CachedServiceAccount ex_key) (Inr ex_annotated), EAccount (GetAccount ex_acc) (Inr ex_serving),
     ENamespace ''team-a'' (Inr ex_minting)] @ ex_read 9"

definition ex_said :: "projected_identity \<Rightarrow> event list" where
  "ex_said entry = ex_ask @ [EIdentities (GetIdentities ex_key) (Inr ex_object),
     EWrite (ApplyIdentities ex_key [projected_identity_for entry] (field_owner_for ex_acc)) None]"

lemma ex_said_entry: "\<exists>entry. returns (entry_for ref_extern ex_acc ex_annotated ex_unnamed True) (ex_read 9) (Inr (Some entry)) \<and>
    pi_profile entry = ''ops/acc'' \<and> pi_operator entry = ''ops/acc''"
  by (simp add: ex_read_def entry_for_def issued_for_def fill_entry_def equipment_def Let_def entry_of_def short_of_def
      set_condition_def ex_known_record_def ref_find_condition_def ex_ready_condition_def ex_acc_def nn_string_def
      request_string_def del: set_condition_returns)

lemma ex_said_runs:
  assumes entry: "returns (entry_for ref_extern ex_acc ex_annotated ex_unnamed True) (ex_read 9) (Inr (Some entry))"
  shows "runs (reconcile_identities ref_extern ex_acc ex_key) (ex_said entry)"
proof -
  have key: "object_key (sa_meta ex_annotated) = ex_key" by (simp add: ex_key_def ex_mistyped_def object_key_def)
  have "returns (entries_for ref_extern ex_acc ex_annotated True [ex_unnamed]) (ex_read 9 @ []) (Inr [entry])"
    unfolding entries_for.simps returns_then_do by (intro exI conjI, rule refl, rule entry) simp
  then have reads: "after (then_do (entries_for ref_extern ex_acc ex_annotated True [ex_unnamed]) f) (ex_read 9 @ es) =
      after (f (Inr [entry])) es" for f :: "error + projected_identity list \<Rightarrow> reconciled prog" and es
    unfolding returns_def append_Nil2 by (rule after_then_do)
  show ?thesis
    by (simp add: runs_def ex_said_def ex_ask_def reconcile_identities_def databricks_account_serves_def Let_def ex_requests
        resent_identities_def namespace_mints_def reads write_entries_def apply_identities_def project_identities_def key
        del: entries_for.simps)
qed

lemma ex_shares:
  assumes entry: "returns (entry_for ref_extern ex_acc ex_annotated ex_unnamed True) (ex_read 9) (Inr (Some entry))"
  shows "\<exists>s vs. entries_system ref_extern {ex_acc} ex_key ref_applies ref_deletes ref_taken_away fst
    (\<lambda>_. None, \<lambda>_. {}) s vs (map (By ex_acc) (ex_said entry)) [(ex_acc, ex_said entry)] \<and>
    fst s = fields_of [projected_identity_for entry]"
proof -
  let ?blank = "(\<lambda>_. None, \<lambda>_. {}) :: (string \<times> aspect, said) managed"
  let ?sys = "entries_system ref_extern {ex_acc} ex_key ref_applies ref_deletes ref_taken_away fst ?blank"
  note runs = ex_said_runs [OF entry]
  let ?read = "EIdentities (GetIdentities ex_key) (Inr ex_object)"
  let ?ais = "[projected_identity_for entry]"
  have "?sys ?blank [fst ?blank] [] []" by (rule entries_system.blank)
  from entries_system.begins [OF this, of ex_acc] have "?sys ?blank [fst ?blank] [] ([] @ (ex_acc, []) # [])" by simp
  moreover have "runs (reconcile_identities ref_extern ex_acc ex_key) ([] @ ex_ask)"
    using runs_prefix runs unfolding ex_said_def by fastforce
  moreover have "list_all (\<lambda>e. \<not> on_object ex_key e) ex_ask" by (simp add: ex_ask_def ex_read_def on_object_def)
  ultimately have asked: "?sys ?blank [fst ?blank] (map (By ex_acc) ex_ask) ([] @ (ex_acc, ex_ask) # [])"
    using entries_elsewhere [where ps = "[]" and p = "[]" and qs = "[]"] by fastforce
  have "runs (reconcile_identities ref_extern ex_acc ex_key) (ex_ask @ [?read])"
    using runs_prefix [of _ "ex_ask @ [?read]"] runs unfolding ex_said_def by fastforce
  moreover have "object_key (da_meta ex_object) = ex_key" "shown_in ex_object \<in> set [fst ?blank]"
    by (simp_all add: ex_object_def ex_key_def ex_mistyped_def object_key_def shown_in_def)
  ultimately have read: "?sys ?blank [fst ?blank] (map (By ex_acc) ex_ask @ [By ex_acc ?read]) ([] @ (ex_acc, ex_ask @ [?read]) # [])"
    using entries_system.reads [OF asked refl] by blast
  have "ref_applies ?blank (field_owner_for ex_acc) (fields_of ?ais) False None
      (merge_fields ?blank (field_owner_for ex_acc) (fields_of ?ais))"
    by (simp add: ref_applies_def conflicting_def)
  moreover have "runs (reconcile_identities ref_extern ex_acc ex_key)
      ((ex_ask @ [?read]) @ [EWrite (ApplyIdentities ex_key ?ais (field_owner_for ex_acc)) None])"
    using runs by (simp add: ex_said_def)
  moreover have "fst (merge_fields ?blank (field_owner_for ex_acc) (fields_of ?ais)) = fields_of ?ais"
    by (auto simp: merge_fields_def fun_eq_iff split: option.split)
  ultimately show ?thesis
    using entries_system.writes [OF read refl] by (fastforce simp: ex_said_def)
qed

definition ex_bystander :: namespaced_name where "ex_bystander = \<lparr>nn_namespace = ''ops'', nn_name = ''other''\<rparr>"

lemma ex_bystander_unasked: "requests_for ref_extern (om_annotations (sa_meta ex_annotated)) ex_bystander =
    \<lparr>understood = [], refused = []\<rparr>"
proof -
  have "requests_for ref_extern [(ServicePrincipalAnnotation, ''ops/acc'')] \<lparr>nn_namespace = ''ops'', nn_name = ''other''\<rparr> =
      \<lparr>understood = [], refused = []\<rparr>" by code_simp
  then show ?thesis by (simp add: ex_annotated_def ex_bystander_def)
qed

theorem bystander_deletes_what_another_makes_witness:
  "returns (reconcile_identities ref_extern ex_bystander ex_key)
      [EServiceAccount (CachedServiceAccount ex_key) (Inr ex_annotated), EAccount (GetAccount ex_bystander) (Inr ex_serving),
       EIdentities (GetIdentities (object_key (sa_meta ex_annotated))) (Inr ex_object), EWrite (DeleteIdentities ex_object) None]
      (no_result, None)"
  using bystander_deletes_what_another_makes [OF ex_bystander_unasked, of ex_object "[ex_identity]" ex_missing ex_missing]
  by (simp add: ex_object_def)

theorem operators_share_the_object_witness:
  "\<exists>log b. board_run ex_key log b \<and> b ex_acc (''ops/acc'', OfOperator) = Some (SaidText ''ops/acc'')"
proof -
  from ex_said_entry obtain entry
    where entry: "returns (entry_for ref_extern ex_acc ex_annotated ex_unnamed True) (ex_read 9) (Inr (Some entry))"
      and says: "pi_profile entry = ''ops/acc''" "pi_operator entry = ''ops/acc''" by blast
  have "named ex_acc" by (simp add: named_def ex_acc_def)
  then have named: "\<forall>a \<in> {ex_acc}. named a" by simp
  from ex_shares [OF entry] obtain s vs where run: "entries_system ref_extern {ex_acc} ex_key ref_applies ref_deletes
      ref_taken_away fst (\<lambda>_. None, \<lambda>_. {}) s vs (map (By ex_acc) (ex_said entry)) [(ex_acc, ex_said entry)]"
    and shown: "fst s = fields_of [projected_identity_for entry]" by blast
  from operators_share_the_object [OF ref_entries.entries_object_axioms run named]
  obtain b where "board_run ex_key (map (By ex_acc) (ex_said entry)) b"
    "\<forall>k v. fst s k = Some v \<longleftrightarrow> (\<exists>a \<in> {ex_acc}. b a k = Some v)" by auto
  moreover have "fields_of [projected_identity_for entry] (''ops/acc'', OfOperator) = Some (SaidText ''ops/acc'')"
    by (simp add: fields_of_def said_of_def projected_identity_for_fields says sent_def)
  ultimately show ?thesis using shown by auto
qed

end
