(* ===== verification/AccountController.thy ===== *)
theory AccountController
  imports ServicePrincipals Destruction
begin

text \<open>
  \<open>internal/controller/databricksaccount_controller.go\<close>: the reconcile of the one DatabricksAccount an
  operator was told to use, which installs and withdraws the clients, claims the namespaces it
  is destroying identities in, and holds the object while records name its account; the check
  made at startup; and what wakes the records. \<open>build\<close> is \<open>databricks.New\<close> and \<open>verify\<close> is
  \<open>verifyAccount\<close>, as \<open>SetupWithManager\<close> sets them; logs are not modelled. A Go map of counts is
  an association list, which is only ever read through its sorted keys.
\<close>

definition databricksAccountRetryAfterAwaited :: duration where "databricksAccountRetryAfterAwaited = minute"
definition databricksAccountRetryAfterSettled :: duration where "databricksAccountRetryAfterSettled = 10 * minute"
definition destructionClaimStale :: duration where "destructionClaimStale = 5 * minute"

record account_reconciler =
  ar_account :: namespaced_name
  ar_own_token :: config

abbreviation ar_owner :: "account_reconciler \<Rightarrow> string" where
  "ar_owner r \<equiv> field_owner_for (ar_account r)"

section \<open>Conditions\<close>

definition with_condition ::
  "extern \<Rightarrow> account \<Rightarrow> string \<Rightarrow> condition_status \<Rightarrow> string \<Rightarrow> string \<Rightarrow> account prog" where
  "with_condition x a condition_type status reason message =
     then_do (set_condition x (at_conditions (ac_status a)) (om_generation (ac_meta a)) condition_type status reason message)
       (\<lambda>conditions. Ret (a\<lparr>ac_status := ac_status a\<lparr>at_conditions := conditions\<rparr>\<rparr>))"

definition report_account_ready ::
  "extern \<Rightarrow> account \<Rightarrow> condition_status \<Rightarrow> string \<Rightarrow> string \<Rightarrow> reconciled prog" where
  "report_account_ready x a status reason message =
     then_do (with_condition x a conditionReady status reason message) (\<lambda>a.
       AskAccount (UpdateAccountStatus a) (\<lambda>reply.
         Ret (requeue_after (retry_after_for status databricksAccountRetryAfterAwaited databricksAccountRetryAfterSettled),
              ignore_not_found (failure_of reply))))"

definition report_account_failure :: "extern \<Rightarrow> account \<Rightarrow> outcome \<Rightarrow> reconciled prog" where
  "report_account_failure x a failure =
     then_do (report_account_ready x a (oc_status failure) (oc_reason failure) (oc_message failure)) (\<lambda>(result, failed).
       (case failed of
          Some err \<Rightarrow> Ret (no_result, Some err)
        | None \<Rightarrow> (case oc_err failure of Some err \<Rightarrow> Ret (no_result, Some err) | None \<Rightarrow> Ret (result, None))))"

definition unreadable_token_said :: "string \<Rightarrow> string" where
  "unreadable_token_said err =
     ''the operator'' @ [CHR 0x27] @ ''s own projected token could not be read ('' @ err @ ''), so the issuer every '' @
     ''federation policy names and the audience every pod is given are unknown. No identity can be issued or '' @
     ''converged until it can be. Existing workloads are unaffected: exchanging a token does not go through this operator.''"

definition no_issuer_said :: string where
  "no_issuer_said =
     ''the operator'' @ [CHR 0x27] @ ''s own projected token carries no iss claim, so the issuer every federation policy '' @
     ''names is unknown. No identity can be issued or converged.''"

definition no_audience_said :: string where
  "no_audience_said =
     ''the operator'' @ [CHR 0x27] @ ''s own projected token carries no aud claim, so the audience every pod is given is '' @
     ''unknown. A federation policy naming none is one no token can satisfy, so nothing is written.''"

definition report_prepared :: "extern \<Rightarrow> account \<Rightarrow> error + token_claims \<Rightarrow> account prog" where
  "report_prepared x a read =
     (case read of
        Inl err \<Rightarrow> with_condition x a conditionPrepared ConditionFalse reasonUnprepared
                      (unreadable_token_said (error_string (quote x) err))
      | Inr claims \<Rightarrow>
          if trim_space (tc_issuer claims) = '''' then
            with_condition x a conditionPrepared ConditionFalse reasonUnprepared no_issuer_said
          else if tc_audience claims = [] \<or> hd (tc_audience claims) = '''' then
            with_condition x a conditionPrepared ConditionFalse reasonUnprepared no_audience_said
          else with_condition x a conditionPrepared ConditionTrue reasonPrepared
            (''writing '' @ tc_issuer claims @ '' into every federation policy and giving '' @
             hd (tc_audience claims) @ '' to every pod''))"

section \<open>The records\<close>

definition account_records :: "account_reconciler \<Rightarrow> (error + issued list) prog" where
  "account_records r = AskIssuedList (IssuedIn (nn_namespace (ar_account r))) Ret"

definition records_naming :: "issued list \<Rightarrow> string \<Rightarrow> nat" where
  "records_naming records account_id = length (filter (\<lambda>i. it_account_id (id_status i) = account_id) records)"

definition named_elsewhere_said :: "issued \<Rightarrow> nat \<Rightarrow> namespaced_name \<Rightarrow> account \<Rightarrow> string" where
  "named_elsewhere_said first others selected a =
     (let made = it_account_id (id_status first)
      in ''record '' @ om_namespace (id_meta first) @ ''/'' @ om_name (id_meta first) @ '' names Databricks account '' @ made @
         (if others > 0 then '', and '' @ show_nat others @ '' other record(s) in '' @ nn_namespace selected @ '' do the same''
          else '''') @
         '', and this operator was told to act in '' @ as_account_id (ac_spec a) @ '' by --databricks-account naming '' @
         nn_string selected @ ''. A service principal id means nothing outside the account it was made in, so serving '' @
         ''these from here would delete something this operator never made, or read the 404 that means \"not here\" as '' @
         ''the one that means \"gone\". Point --databricks-account at the DatabricksAccount naming '' @ made @
         '', or install a second operator, in a namespace of its own, for '' @ as_account_id (ac_spec a))"

text \<open>\<open>CheckSelectedAccount\<close>; the reader it is given reads the API server.\<close>

definition check_selected_account :: "namespaced_name \<Rightarrow> error option prog" where
  "check_selected_account selected =
     AskAccount (GetAccount selected) (\<lambda>reply.
       (case reply of
          Inl err \<Rightarrow>
            if is_not_found err then Ret None
            else Ret (Some (Wrapped (''reading DatabricksAccount '' @ nn_string selected @ '': '') err ''''))
        | Inr a \<Rightarrow>
            AskIssuedList (IssuedIn (nn_namespace selected)) (\<lambda>reply.
              (case reply of
                 Inl err \<Rightarrow> Ret (Some (Wrapped (''reading the records in '' @ nn_namespace selected @ '': '') err ''''))
               | Inr records \<Rightarrow>
                   (case sort_key (\<lambda>i. om_name (id_meta i))
                           (filter (\<lambda>i. it_account_id (id_status i) \<noteq> '''' \<and>
                              it_account_id (id_status i) \<noteq> as_account_id (ac_spec a)) records) of
                      [] \<Rightarrow> Ret None
                    | first # rest \<Rightarrow> Ret (Some (ErrorText (named_elsewhere_said first (length rest) selected a))))))))"

section \<open>Deletion\<close>

definition account_deleted_said :: "account_reconciler \<Rightarrow> string" where
  "account_deleted_said r = ''DatabricksAccount '' @ nn_string (ar_account r) @ '' was deleted''"

definition without_finalizer :: "extern \<Rightarrow> account \<Rightarrow> account" where
  "without_finalizer x a = a\<lparr>ac_meta := ac_meta a\<lparr>om_finalizers := remove_finalizer x AccountFinalizer (om_finalizers (ac_meta a))\<rparr>\<rparr>"

definition with_finalizer :: "extern \<Rightarrow> account \<Rightarrow> account" where
  "with_finalizer x a = a\<lparr>ac_meta := ac_meta a\<lparr>om_finalizers := add_finalizer x AccountFinalizer (om_finalizers (ac_meta a))\<rparr>\<rparr>"

definition release_account :: "extern \<Rightarrow> account_reconciler \<Rightarrow> account \<Rightarrow> error option prog" where
  "release_account x r a =
     PutSlot (SlotClear (account_deleted_said r))
       (AskAccount (UpdateAccount (without_finalizer x a)) (\<lambda>reply. Ret (ignore_not_found (failure_of reply))))"

definition held_said :: "account_reconciler \<Rightarrow> account \<Rightarrow> nat \<Rightarrow> string" where
  "held_said r a naming =
     show_nat naming @ '' record(s) in '' @ nn_namespace (ar_account r) @ '' still name Databricks account '' @
     as_account_id (ac_spec a) @ '', so this object is held: letting it go and creating another one naming a different '' @
     ''account is the edit accountId'' @ [CHR 0x27] @ ''s immutability refuses, and an id means nothing outside the account it '' @
     ''was made in. Deleting a record destroys the service principal it names. An account that can no longer be '' @
     ''reached never drains, so whoever has looked at what is left in Databricks removes the finalizer.''"

definition report_held :: "extern \<Rightarrow> account_reconciler \<Rightarrow> account \<Rightarrow> nat \<Rightarrow> account prog" where
  "report_held x r a naming =
     with_condition x a conditionRecordsReleased ConditionFalse reasonRecordsRemain (held_said r a naming)"

section \<open>Destruction claims\<close>

definition namespaces_claimed_for_destruction :: "account_reconciler \<Rightarrow> (error + string list) prog" where
  "namespaces_claimed_for_destruction r =
     AskNamespaces (DestroyingIdentitiesLabel, nn_namespace (ar_account r)) (\<lambda>reply.
       (case reply of
          Inl err \<Rightarrow> Ret (Inl err)
        | Inr namespaces \<Rightarrow>
            Ret (Inr (map (\<lambda>n. om_name (ns_meta n)) (filter (\<lambda>n. destruction_holder_of n = ar_account r) namespaces)))))"

text \<open>\<open>time.Since\<close>, which saturates, and a duration truncated to the second, as \<open>%s\<close> shows it.\<close>

definition time_since :: "time \<Rightarrow> time \<Rightarrow> duration" where
  "time_since now since = max (- (2 ^ 63)) (min (2 ^ 63 - 1) (now - since))"

definition show_seconds :: "duration \<Rightarrow> string" where
  "show_seconds d =
     (let u = nat (\<bar>d\<bar> div second)
      in (if d < 0 \<and> u \<noteq> 0 then ''-'' else '''') @
         (if u \<ge> 3600 then show_nat (u div 3600) @ ''h'' else '''') @
         (if u \<ge> 60 then show_nat (u div 60 mod 60) @ ''m'' else '''') @
         show_nat (u mod 60) @ ''s'')"

definition held_by_unsaid :: "extern \<Rightarrow> namespaced_name \<Rightarrow> string \<Rightarrow> error" where
  "held_by_unsaid x holder said =
     ErrorText (''held by '' @ nn_string holder @ '', which has not said when: '' @ quote x said)"

definition held_by_since :: "namespaced_name \<Rightarrow> duration \<Rightarrow> error" where
  "held_by_since holder age = ErrorText (''held by '' @ nn_string holder @ '', last seen '' @ show_seconds age @ '' ago'')"

definition claim_namespace :: "account_reconciler \<Rightarrow> string \<Rightarrow> bool \<Rightarrow> (error option \<Rightarrow> 'a prog) \<Rightarrow> 'a prog" where
  "claim_namespace r name force k =
     AskNow (\<lambda>now.
       AskWrite (ApplyNamespace name (fst (destruction_claim_for (ar_account r) now)) (snd (destruction_claim_for (ar_account r) now))
         (ar_owner r) force) k)"

definition take_stale_claim :: "extern \<Rightarrow> account_reconciler \<Rightarrow> string \<Rightarrow> namespace_object \<Rightarrow> error option prog" where
  "take_stale_claim x r name namespace =
     (let holder = destruction_holder_of namespace;
          said = map_get (om_annotations (ns_meta namespace)) DestroyingIdentitiesSinceAnnotation
      in case parse_rfc3339 said of
           None \<Rightarrow> Ret (Some (held_by_unsaid x holder said))
         | Some since \<Rightarrow>
             AskNow (\<lambda>now.
               (let age = time_since now since
                in if age < destructionClaimStale then Ret (Some (held_by_since holder age))
                   else claim_namespace r name True Ret)))"

definition acquire_destruction_claim :: "extern \<Rightarrow> account_reconciler \<Rightarrow> string \<Rightarrow> error option prog" where
  "acquire_destruction_claim x r name =
     then_do (destruction_held_by name) (\<lambda>reply.
       (case reply of
          Inl err \<Rightarrow> Ret (Some err)
        | Inr (holder, there) \<Rightarrow>
            if \<not> there then Ret None
            else claim_namespace r name False (\<lambda>failed.
              (case failed of
                 None \<Rightarrow> Ret None
               | Some err \<Rightarrow>
                   if \<not> is_conflict err then Ret (Some err)
                   else AskNamespace name (\<lambda>reply.
                     (case reply of
                        Inl err \<Rightarrow> Ret (ignore_not_found (Some err))
                      | Inr namespace \<Rightarrow> take_stale_claim x r name namespace))))))"

definition release_destruction_claim :: "account_reconciler \<Rightarrow> string \<Rightarrow> error option prog" where
  "release_destruction_claim r name =
     AskNamespace name (\<lambda>reply.
       (case reply of
          Inl err \<Rightarrow> Ret (if is_not_found err then None else Some err)
        | Inr namespace \<Rightarrow>
            if destruction_holder_of namespace \<noteq> ar_account r then Ret None
            else AskWrite (ApplyNamespace name [] [] (ar_owner r) False) Ret))"

section \<open>Namespaces no longer named\<close>

type_synonym counts = "(string \<times> nat) list"

fun counted_in :: "counts \<Rightarrow> string \<Rightarrow> nat \<Rightarrow> counts" where
  "counted_in [] k n = [(k, n)]"
| "counted_in ((k1, n1) # cs) k n = (if k1 = k then (k1, n1 + n) # cs else (k1, n1) # counted_in cs k n)"

text \<open>The records still there in namespaces the account does not name, and the namespaces claimed.\<close>

primrec holding :: "account_spec \<Rightarrow> counts \<Rightarrow> issued list \<Rightarrow> counts" where
  "holding spec cs [] = cs"
| "holding spec cs (i # is) =
     (let namespace = is_namespace (ip_service_account (id_spec i))
      in holding spec (if serves spec namespace then cs else counted_in cs namespace 1) is)"

primrec add_claimed :: "counts \<Rightarrow> string list \<Rightarrow> counts" where
  "add_claimed cs [] = cs"
| "add_claimed cs (n # ns) = add_claimed (counted_in cs n 0) ns"

definition count_of :: "counts \<Rightarrow> string \<Rightarrow> nat" where
  "count_of cs k = (case map_of cs k of None \<Rightarrow> 0 | Some n \<Rightarrow> n)"

definition with_count :: "counts \<Rightarrow> string \<Rightarrow> string" where
  "with_count cs namespace = namespace @ '' ('' @ show_nat (count_of cs namespace) @ '')''"

record claims_made =
  cm_unclaimed :: "string list"
  cm_still_held :: "string list"
  cm_remaining :: "string list"

primrec make_claims ::
  "extern \<Rightarrow> account_reconciler \<Rightarrow> counts \<Rightarrow> claims_made \<Rightarrow> string list \<Rightarrow> claims_made prog" where
  "make_claims x r cs made [] = Ret made"
| "make_claims x r cs made (n # ns) =
     (if count_of cs n > 0 then
        (let made = made\<lparr>cm_remaining := cm_remaining made @ [with_count cs n]\<rparr>
         in then_do (acquire_destruction_claim x r n) (\<lambda>failed.
              make_claims x r cs
                (case failed of
                   None \<Rightarrow> made
                 | Some err \<Rightarrow> made\<lparr>cm_unclaimed := cm_unclaimed made @ [n @ '' ('' @ error_string (quote x) err @ '')'']\<rparr>)
                ns))
      else then_do (release_destruction_claim r n) (\<lambda>failed.
             make_claims x r cs
               (case failed of
                  None \<Rightarrow> made
                | Some err \<Rightarrow> made\<lparr>cm_still_held := cm_still_held made @ [n @ '' ('' @ error_string (quote x) err @ '')'']\<rparr>)
               ns))"

definition nothing_out_of_scope_said :: string where
  "nothing_out_of_scope_said = ''every namespace this operator issued an identity in is one this account names''"

definition all_destroyed_said :: "string list \<Rightarrow> string" where
  "all_destroyed_said namespaces =
     ''this account no longer serves '' @ join_with '', '' namespaces @ '': every identity it issued there is '' @
     ''destroyed, and minting is no longer suspended, so any other operator serving those namespaces goes on as '' @
     ''before. Naming a namespace here again issues new service principals, with new client ids and no grants.''"

definition still_destroying_said :: "account_reconciler \<Rightarrow> claims_made \<Rightarrow> string" where
  "still_destroying_said r made =
     (let said = (if cm_unclaimed made \<noteq> [] then
            [''this operator does not hold '' @ DestroyingIdentitiesLabel @ '' on '' @ join_with '', '' (cm_unclaimed made) @
             '', so it has destroyed nothing there: it will not destroy identities in a namespace that can still mint them'']
            else []);
          said = said @ (if cm_still_held made \<noteq> [] then
            [''there is nothing left to destroy in '' @ join_with '', '' (cm_still_held made) @
             '' and this operator could not take '' @ DestroyingIdentitiesLabel @
             '' off them again, so no operator is minting there''] else []);
          said = said @ (if cm_remaining made \<noteq> [] then
            [''identities issued in '' @ join_with '', '' (cm_remaining made) @
             '' are still in Databricks; their records say why under Ready, in namespace '' @ nn_namespace (ar_account r)]
            else [])
      in join_with ''. '' said @ ''. Every count here is an identity this account still has in a namespace it no longer '' @
         ''names, which is what this list promises there are none of.'')"

definition destroy_identities_in ::
  "extern \<Rightarrow> account_reconciler \<Rightarrow> account \<Rightarrow> issued list \<Rightarrow> (error + account \<times> bool) prog" where
  "destroy_identities_in x r a records =
     then_do (namespaces_claimed_for_destruction r) (\<lambda>reply.
       (case reply of
          Inl err \<Rightarrow> Ret (Inl err)
        | Inr taken \<Rightarrow>
            (let cs = add_claimed (holding (ac_spec a) [] records) taken
             in if cs = [] then
                  then_do (with_condition x a conditionIdentitiesDestroyed ConditionTrue reasonIdentitiesDestroyed
                    nothing_out_of_scope_said) (\<lambda>a. Ret (Inr (a, True)))
                else
                  (let namespaces = sort (map fst cs)
                   in then_do (make_claims x r cs \<lparr>cm_unclaimed = [], cm_still_held = [], cm_remaining = []\<rparr> namespaces) (\<lambda>made.
                      if cm_unclaimed made = [] \<and> cm_still_held made = [] \<and> cm_remaining made = [] then
                        then_do (with_condition x a conditionIdentitiesDestroyed ConditionTrue reasonIdentitiesDestroyed
                          (all_destroyed_said namespaces)) (\<lambda>a. Ret (Inr (a, True)))
                      else
                        then_do (with_condition x a conditionIdentitiesDestroyed ConditionFalse reasonDestroyingIdentities
                          (still_destroying_said r made)) (\<lambda>a. Ret (Inr (a, False))))))))"

section \<open>Requests that are not served\<close>

primrec asking :: "extern \<Rightarrow> account_reconciler \<Rightarrow> account_spec \<Rightarrow> counts \<Rightarrow> service_account list \<Rightarrow> counts" where
  "asking x r spec cs [] = cs"
| "asking x r spec cs (sa # sas) =
     asking x r spec
       (if serves spec (om_namespace (sa_meta sa)) then cs
        else if understood (requests_for x (om_annotations (sa_meta sa)) (ar_account r)) = [] then cs
        else counted_in cs (om_namespace (sa_meta sa)) 1) sas"

definition all_served_said :: string where
  "all_served_said =
     ''every ServiceAccount asking this operator for an identity is in a namespace spec.namespaces names. One in a '' @
     ''namespace it does not name is refused here and nowhere else: nothing is written in the namespace it came '' @
     ''from, so this is where such a request would be counted.''"

definition unserved_said :: "string list \<Rightarrow> string" where
  "unserved_said counted =
     ''ServiceAccounts in '' @ join_with '', '' counted @ '' ask this operator for an identity and are in namespaces '' @
     ''spec.namespaces does not name. Nothing is being made for them and nothing in their own namespace says so -- '' @
     ''there is no DatabricksServiceAccount to carry a condition and no event on anything -- so this line is the '' @
     ''whole of what anybody can read about it. Either name the namespace in spec.namespaces, which issues new '' @
     ''service principals with new client ids and no grants, or have whoever wrote the '' @ ServicePrincipalAnnotation @
     '' annotation take it off. None of these was ever issued, which is what tells them from the ones '' @
     conditionIdentitiesDestroyed @ '' counts: those exist and are being destroyed.''"

definition report_unserved_requests :: "extern \<Rightarrow> account_reconciler \<Rightarrow> account \<Rightarrow> (error + account) prog" where
  "report_unserved_requests x r a =
     AskServiceAccounts None (\<lambda>reply.
       (case reply of
          Inl err \<Rightarrow> Ret (Inl err)
        | Inr service_accounts \<Rightarrow>
            (let cs = asking x r (ac_spec a) [] service_accounts
             in if cs = [] then
                  then_do (with_condition x a conditionRequestsServed ConditionTrue reasonRequestsServed all_served_said)
                    (\<lambda>a. Ret (Inr a))
                else
                  then_do (with_condition x a conditionRequestsServed ConditionFalse reasonRequestsNotServed
                    (unserved_said (map (with_count cs) (sort (map fst cs))))) (\<lambda>a. Ret (Inr a)))))"

section \<open>Reconcile\<close>

definition set_not_selected :: "extern \<Rightarrow> account_reconciler \<Rightarrow> namespaced_name \<Rightarrow> error option prog" where
  "set_not_selected x r req =
     AskAccount (GetAccount req) (\<lambda>reply.
       (case reply of
          Inl err \<Rightarrow> Ret (ignore_not_found (Some err))
        | Inr a \<Rightarrow>
            (let report = (\<lambda>a. then_do (with_condition x a conditionReady ConditionFalse reasonNotSelected
                   (''this operator uses '' @ nn_string (ar_account r) @
                    ''; change --databricks-account to select this one instead'')) (\<lambda>a.
                   AskAccount (UpdateAccountStatus a) (\<lambda>reply. Ret (ignore_not_found (failure_of reply)))))
             in if contains_finalizer (ac_meta a) AccountFinalizer then
                  AskAccount (UpdateAccount (without_finalizer x a)) (\<lambda>reply.
                    (case reply of
                       Inl err \<Rightarrow> if is_not_found err then report (without_finalizer x a) else Ret (Some err)
                     | Inr a \<Rightarrow> report a))
                else report a)))"

definition verify_account :: "clients \<Rightarrow> error option prog" where
  "verify_account clients =
     (case account_client clients of
        None \<Rightarrow> Ret (Some (ErrorText ''no account client was built''))
      | Some cfg \<Rightarrow> AskCall cfg ListWorkspaces (\<lambda>failed.
          Ret (map_option (\<lambda>err. Wrapped (''listing the account'' @ [CHR 0x27] @ ''s workspaces: '') err '''') failed)))"

definition with_claims :: "account \<Rightarrow> error + token_claims \<Rightarrow> account" where
  "with_claims a read =
     (case read of
        Inl _ \<Rightarrow> a
      | Inr claims \<Rightarrow>
          a\<lparr>ac_status := (ac_status a)
            \<lparr>at_subject := tc_subject claims,
             at_audience := (if tc_audience claims \<noteq> [] then hd (tc_audience claims) else at_audience (ac_status a)),
             at_issuer := tc_issuer claims,
             at_cluster_marker := cluster_marker (tc_issuer claims)\<rparr>\<rparr>)"

definition declared_config :: "account_reconciler \<Rightarrow> account \<Rightarrow> config" where
  "declared_config r a =
     for_account (ar_own_token r) (as_host (ac_spec a)) (as_account_id (ac_spec a)) (as_client_id (ac_spec a))"

definition changed_said :: "account_reconciler \<Rightarrow> account \<Rightarrow> string" where
  "changed_said r a =
     ''DatabricksAccount '' @ nn_string (ar_account r) @ '' was changed to name Databricks account '' @
     as_account_id (ac_spec a) @ '', and that has not been verified yet; read its status''"

text \<open>From the clients being built on.\<close>

definition install :: "extern \<Rightarrow> account_reconciler \<Rightarrow> account \<Rightarrow> error + token_claims \<Rightarrow> bool \<Rightarrow> reconciled prog" where
  "install x r a read destroyed =
     then_do (new_clients (declared_config r a)) (\<lambda>built.
       (case built of
          Inl err \<Rightarrow> report_account_ready x a ConditionFalse reasonInvalidSpec (error_string (quote x) err)
        | Inr clients \<Rightarrow>
            then_do (verify_account clients) (\<lambda>failed.
              (case failed of
                 Some err \<Rightarrow>
                   (let message = reason_of (quote x) (Some err);
                        message = (case read of
                            Inl unread \<Rightarrow> message @ '' (and the operator'' @ [CHR 0x27] @ ''s own token could not be read: '' @
                              error_string (quote x) unread @ '')''
                          | Inr _ \<Rightarrow> message)
                    in report_account_failure x a ((outcome_for x err)\<lparr>oc_message := message\<rparr>))
               | None \<Rightarrow>
                   PutSlot (SlotSet (declared_config r a) clients)
                     (then_do (report_account_ready x a ConditionTrue reasonAccountReady
                        (''acting in account '' @ as_account_id (ac_spec a) @ '' as '' @ at_subject (ac_status a)))
                        (\<lambda>(result, failed).
                          Ret (if destroyed then result
                               else result\<lparr>rs_requeue_after := databricksAccountRetryAfterAwaited\<rparr>, failed)))))))"

text \<open>The clients in the slot are withdrawn before that if they were built from another declaration.\<close>

definition withdraw_and_install ::
  "extern \<Rightarrow> account_reconciler \<Rightarrow> account \<Rightarrow> error + token_claims \<Rightarrow> bool \<Rightarrow> reconciled prog" where
  "withdraw_and_install x r a read destroyed =
     AskSlot (\<lambda>slot.
       (let (installed, holding) = built_from slot
        in if holding \<and> installed \<noteq> declared_config r a then
             PutSlot (SlotClear (changed_said r a)) (install x r a read destroyed)
           else install x r a read destroyed))"

text \<open>From the destruction on, of an object that is not released.\<close>

definition serve_account ::
  "extern \<Rightarrow> account_reconciler \<Rightarrow> account \<Rightarrow> error + token_claims \<Rightarrow> issued list \<Rightarrow> reconciled prog" where
  "serve_account x r a read records =
     then_do (destroy_identities_in x r a records) (\<lambda>reply.
       (case reply of
          Inl err \<Rightarrow> Ret (no_result, Some err)
        | Inr (a, destroyed) \<Rightarrow>
            then_do (report_unserved_requests x r a) (\<lambda>reply.
              (case reply of
                 Inl err \<Rightarrow> Ret (no_result, Some err)
               | Inr a \<Rightarrow> withdraw_and_install x r a read destroyed))))"

definition reconcile_present :: "extern \<Rightarrow> account_reconciler \<Rightarrow> account \<Rightarrow> reconciled prog" where
  "reconcile_present x r a =
     then_do (read_token_claims x (cf_oidc_token_filepath (ar_own_token r))) (\<lambda>read.
     then_do (report_prepared x (with_claims a read) read) (\<lambda>a.
     then_do (account_records r) (\<lambda>reply.
       (case reply of
          Inl err \<Rightarrow> Ret (no_result, Some err)
        | Inr records \<Rightarrow>
            (let deleting = (om_deletion_timestamp (ac_meta a) \<noteq> None);
                 naming = records_naming records (as_account_id (ac_spec a))
             in if deleting \<and> naming = 0 then
                  then_do (release_account x r a) (\<lambda>failed. Ret (no_result, failed))
                else
                  then_do (if deleting then report_held x r a naming else Ret a) (\<lambda>a.
                    serve_account x r a read records))))))"

definition reconcile_account :: "extern \<Rightarrow> account_reconciler \<Rightarrow> namespaced_name \<Rightarrow> reconciled prog" where
  "reconcile_account x r req =
     (if req \<noteq> ar_account r then then_do (set_not_selected x r req) (\<lambda>failed. Ret (no_result, failed))
      else AskAccount (GetAccount req) (\<lambda>reply.
        (case reply of
           Inl err \<Rightarrow>
             if is_not_found err then PutSlot (SlotClear (account_deleted_said r)) (Ret (no_result, None))
             else Ret (no_result, Some err)
         | Inr a \<Rightarrow>
             if om_deletion_timestamp (ac_meta a) = None \<and> \<not> contains_finalizer (ac_meta a) AccountFinalizer then
               AskAccount (UpdateAccount (with_finalizer x a)) (\<lambda>reply.
                 (case reply of
                    Inl err \<Rightarrow> Ret (no_result, Some err)
                  | Inr a \<Rightarrow> reconcile_present x r a))
             else reconcile_present x r a)))"

section \<open>What wakes the records\<close>

fun first_ready :: "condition list \<Rightarrow> bool" where
  "first_ready [] = False"
| "first_ready (c # cs) = (if cn_type c = conditionReady then cn_status c = ConditionTrue else first_ready cs)"

text \<open>The two questions \<open>databricksAccountChanged\<close> asks of an object, \<open>None\<close> being one of another kind.\<close>

definition account_ready :: "namespaced_name \<Rightarrow> account option \<Rightarrow> bool" where
  "account_ready selected object =
     (case object of
        None \<Rightarrow> False
      | Some a \<Rightarrow> if object_key (ac_meta a) \<noteq> selected then False else first_ready (at_conditions (ac_status a)))"

definition account_served :: "namespaced_name \<Rightarrow> account option \<Rightarrow> string list" where
  "account_served selected object =
     (case object of
        None \<Rightarrow> []
      | Some a \<Rightarrow> if object_key (ac_meta a) \<noteq> selected then [] else sort (as_namespaces (ac_spec a)))"

datatype account_event = Created "account option" | Deleted object_meta | Updated "account option" "account option" | Generic

fun databricks_account_changed :: "namespaced_name \<Rightarrow> account_event \<Rightarrow> bool" where
  "databricks_account_changed selected (Created object) = account_ready selected object"
| "databricks_account_changed selected (Deleted m) = (object_key m = selected)"
| "databricks_account_changed selected (Updated old new) =
     (account_ready selected old \<noteq> account_ready selected new \<or> account_served selected old \<noteq> account_served selected new)"
| "databricks_account_changed selected Generic = False"

definition issued_requests :: "issued list \<Rightarrow> namespaced_name list" where
  "issued_requests items = map (\<lambda>i. object_key (id_meta i)) items"

definition wake_every_record :: "namespaced_name list prog" where
  "wake_every_record =
     AskIssuedList IssuedAnywhere (\<lambda>reply. (case reply of Inl _ \<Rightarrow> Ret [] | Inr items \<Rightarrow> Ret (issued_requests items)))"

end
