(* ===== verification/AccountSafety.thy ===== *)
theory AccountSafety
  imports AccountController
begin

text \<open>
  What the reconcile of \<open>AccountController\<close> guarantees, whatever it is answered and wherever it stops:
  when clients are installed and withdrawn and the object let go, that what is installed was built
  from the declaration in hand, that a namespace is claimed and given back only where that is this
  operator's to do, and that destruction is reported finished only where nothing is left.
\<close>

section \<open>What the steps exchange and return\<close>

lemma with_condition_returns [simp]:
  "returns (with_condition x a ty st re m) es a' \<longleftrightarrow> (\<exists>t. es = [ENow t] \<and> a' = a\<lparr>ac_status := ac_status a\<lparr>at_conditions :=
     set_status_condition x t (at_conditions (ac_status a)) \<lparr>cn_type = ty, cn_status = st,
       cn_observed_generation = om_generation (ac_meta a), cn_last_transition = 0, cn_reason = re, cn_message = m\<rparr>\<rparr>\<rparr>)"
  by (auto simp: with_condition_def set_condition_def)

text \<open>The object in hand changes in its status only.\<close>

definition same_but_status :: "account \<Rightarrow> account \<Rightarrow> bool" where
  "same_but_status a b \<longleftrightarrow> ac_meta b = ac_meta a \<and> ac_spec b = ac_spec a"

lemma same_but_status_refl [simp]: "same_but_status a a"
  by (simp add: same_but_status_def)

lemma with_claims_same [simp]: "ac_meta (with_claims a read) = ac_meta a" "ac_spec (with_claims a read) = ac_spec a"
  by (simp_all add: with_claims_def split: sum.split)

lemma report_prepared_same: "returns (report_prepared x a read) es a' \<Longrightarrow> same_but_status a a'"
  by (auto simp: report_prepared_def same_but_status_def split: sum.splits if_splits)

lemma report_held_same: "returns (report_held x r a n) es a' \<Longrightarrow> same_but_status a a'"
  by (auto simp: report_held_def same_but_status_def)

lemma destroy_same: "returns (destroy_identities_in x r a records) es (Inr (a', d)) \<Longrightarrow> same_but_status a a'"
  by (auto simp: destroy_identities_in_def Let_def returns_branches same_but_status_def)

lemma unserved_same: "returns (report_unserved_requests x r a) es (Inr a') \<Longrightarrow> same_but_status a a'"
  by (auto simp: report_unserved_requests_def Let_def returns_branches same_but_status_def)

lemma emits_with_condition: "(\<And>t. K (ENow t)) \<Longrightarrow> emits K (with_condition x a ty st re m)"
  by (simp add: with_condition_def set_condition_def)

lemma emits_account_ready:
  "(\<And>t. K (ENow t)) \<Longrightarrow> (\<And>a r. K (EAccount (UpdateAccountStatus a) r)) \<Longrightarrow> emits K (report_account_ready x a st re m)"
  by (auto simp: report_account_ready_def intro!: emits_then_do emits_with_condition)

lemma emits_account_failure:
  "(\<And>t. K (ENow t)) \<Longrightarrow> (\<And>a r. K (EAccount (UpdateAccountStatus a) r)) \<Longrightarrow> emits K (report_account_failure x a oc)"
  by (auto simp: report_account_failure_def intro!: emits_then_do emits_account_ready split: option.split)

lemma emits_report_prepared: "(\<And>t. K (ENow t)) \<Longrightarrow> emits K (report_prepared x a read)"
  by (auto simp: report_prepared_def intro!: emits_with_condition split: sum.split)

lemma emits_report_held: "(\<And>t. K (ENow t)) \<Longrightarrow> emits K (report_held x r a n)"
  by (simp add: report_held_def emits_with_condition)

lemma emits_read_token: "(\<And>p r. K (EFile p r)) \<Longrightarrow> emits K (read_token_claims x path)"
  by (simp add: read_token_claims_def split: sum.split)

lemma emits_new_clients: "(\<And>c r. K (EClient c r)) \<Longrightarrow> emits K (new_clients cfg)"
  by (simp add: new_clients_def split: option.split)

lemma emits_verify: "(\<And>c r. K (ECall c ListWorkspaces r)) \<Longrightarrow> emits K (verify_account clients)"
  by (simp add: verify_account_def split: option.split)

lemma emits_account_records: "(\<And>r. K (EIssuedList (IssuedIn (nn_namespace (ar_account r0))) r)) \<Longrightarrow> emits K (account_records r0)"
  by (simp add: account_records_def)

lemma emits_unserved:
  "(\<And>t. K (ENow t)) \<Longrightarrow> (\<And>n r. K (EServiceAccounts n r)) \<Longrightarrow> emits K (report_unserved_requests x r a)"
  by (auto simp: report_unserved_requests_def Let_def intro!: emits_then_do emits_with_condition split: sum.split)

lemma emits_claim_namespace:
  "(\<And>t. K (ENow t)) \<Longrightarrow> (\<And>l an r. K (EWrite (ApplyNamespace name l an (ar_owner r0) force) r)) \<Longrightarrow>
   (\<And>failed. emits K (k failed)) \<Longrightarrow> emits K (claim_namespace r0 name force k)"
  by (simp add: claim_namespace_def)

lemma emits_take_stale_claim:
  "(\<And>t. K (ENow t)) \<Longrightarrow> (\<And>l an f r. K (EWrite (ApplyNamespace name l an (ar_owner r0) f) r)) \<Longrightarrow>
   emits K (take_stale_claim x r0 name n)"
  by (auto simp: take_stale_claim_def Let_def intro!: emits_claim_namespace split: option.split)

lemma emits_acquire:
  "(\<And>t. K (ENow t)) \<Longrightarrow> (\<And>n r. K (ENamespace n r)) \<Longrightarrow> (\<And>l an f r. K (EWrite (ApplyNamespace name l an (ar_owner r0) f) r)) \<Longrightarrow>
   emits K (acquire_destruction_claim x r0 name)"
  by (auto simp: acquire_destruction_claim_def
      intro!: emits_then_do emits_destruction_held_by emits_claim_namespace emits_take_stale_claim
      split: sum.split prod.split option.split)

lemma emits_release:
  "(\<And>n r. K (ENamespace n r)) \<Longrightarrow> (\<And>l an f r. K (EWrite (ApplyNamespace name l an (ar_owner r0) f) r)) \<Longrightarrow>
   emits K (release_destruction_claim r0 name)"
  by (auto simp: release_destruction_claim_def split: sum.split)

lemma emits_make_claims:
  assumes "\<And>t. K (ENow t)" "\<And>n r. K (ENamespace n r)" "\<And>n l an f r. K (EWrite (ApplyNamespace n l an (ar_owner r0) f) r)"
  shows "emits K (make_claims x r0 cs made ns)"
  using assms
  by (induction ns arbitrary: made)
    (auto simp: Let_def intro!: emits_then_do emits_acquire emits_release)

lemma emits_destroy:
  assumes "\<And>t. K (ENow t)" "\<And>n r. K (ENamespace n r)" "\<And>n l an f r. K (EWrite (ApplyNamespace n l an (ar_owner r0) f) r)"
    and "\<And>kv r. K (ENamespaces kv r)"
  shows "emits K (destroy_identities_in x r0 a records)"
  using assms
  by (auto simp: destroy_identities_in_def namespaces_claimed_for_destruction_def Let_def
      intro!: emits_then_do emits_make_claims emits_with_condition split: sum.split)

section \<open>Installing, withdrawing and letting go\<close>

definition deleting_account :: "account \<Rightarrow> bool" where
  "deleting_account a \<longleftrightarrow> om_deletion_timestamp (ac_meta a) \<noteq> None"

text \<open>The selected object as the pass holds it: as read, or as the API server returned it with its finalizer added.\<close>

definition account_in_hand :: "extern \<Rightarrow> account_reconciler \<Rightarrow> event list \<Rightarrow> account \<Rightarrow> bool" where
  "account_in_hand x r h a \<longleftrightarrow>
     EAccount (GetAccount (ar_account r)) (Inr a) \<in> set h \<and>
       (deleting_account a \<or> contains_finalizer (ac_meta a) AccountFinalizer) \<or>
     (\<exists>a0. EAccount (GetAccount (ar_account r)) (Inr a0) \<in> set h \<and> \<not> deleting_account a0 \<and>
        EAccount (UpdateAccount (with_finalizer x a0)) (Inr a) \<in> set h)"

lemma account_in_hand_append: "account_in_hand x r h a \<Longrightarrow> account_in_hand x r (h @ es) a"
  unfolding account_in_hand_def set_append by blast

definition listed_naming :: "account_reconciler \<Rightarrow> event list \<Rightarrow> account \<Rightarrow> nat \<Rightarrow> bool" where
  "listed_naming r h a n \<longleftrightarrow>
     (\<exists>records. EIssuedList (IssuedIn (nn_namespace (ar_account r))) (Inr records) \<in> set h \<and>
        records_naming records (as_account_id (ac_spec a)) = n)"

lemma listed_naming_append: "listed_naming r h a n \<Longrightarrow> listed_naming r (h @ es) a n"
  unfolding listed_naming_def set_append by blast

definition set_ok :: "extern \<Rightarrow> account_reconciler \<Rightarrow> event list \<Rightarrow> config \<Rightarrow> clients \<Rightarrow> bool" where
  "set_ok x r h cfg c \<longleftrightarrow>
     (\<exists>a. account_in_hand x r h a \<and> cfg = declared_config r a \<and> c = Installed cfg \<and>
        ECall cfg ListWorkspaces None \<in> set h \<and> (deleting_account a \<longrightarrow> (\<exists>n. listed_naming r h a (Suc n))))"

definition clear_ok :: "extern \<Rightarrow> account_reconciler \<Rightarrow> event list \<Rightarrow> bool" where
  "clear_ok x r h \<longleftrightarrow>
     (\<exists>err. EAccount (GetAccount (ar_account r)) (Inl err) \<in> set h \<and> is_not_found err) \<or>
     (\<exists>a. account_in_hand x r h a \<and> deleting_account a \<and> listed_naming r h a 0) \<or>
     (\<exists>a s. account_in_hand x r h a \<and> ESlot s \<in> set h \<and> configured s \<and> fst (built_from s) \<noteq> declared_config r a)"

definition update_ok :: "extern \<Rightarrow> account_reconciler \<Rightarrow> event list \<Rightarrow> account \<Rightarrow> bool" where
  "update_ok x r h u \<longleftrightarrow>
     (\<exists>a. EAccount (GetAccount (ar_account r)) (Inr a) \<in> set h \<and> \<not> deleting_account a \<and> u = with_finalizer x a) \<or>
     (\<exists>a. account_in_hand x r h a \<and> deleting_account a \<and> listed_naming r h a 0 \<and> (\<exists>why. EPut (SlotClear why) \<in> set h) \<and>
        ac_meta u = ac_meta (without_finalizer x a) \<and> ac_spec u = ac_spec a)"

definition account_ok :: "extern \<Rightarrow> account_reconciler \<Rightarrow> event list \<Rightarrow> event \<Rightarrow> bool" where
  "account_ok x r h e \<longleftrightarrow>
     (\<forall>cfg c. e = EPut (SlotSet cfg c) \<longrightarrow> set_ok x r h cfg c) \<and>
     (\<forall>why. e = EPut (SlotClear why) \<longrightarrow> clear_ok x r h) \<and>
     (\<forall>u reply. e = EAccount (UpdateAccount u) reply \<longrightarrow> update_ok x r h u)"

definition slot_quiet :: "event \<Rightarrow> bool" where
  "slot_quiet e = (case e of EPut _ \<Rightarrow> False | EAccount (UpdateAccount _) _ \<Rightarrow> False | _ \<Rightarrow> True)"

lemma slot_quiet_simps [simp]:
  "slot_quiet (ENow t)" "slot_quiet (EAccount (UpdateAccountStatus a) r1)" "slot_quiet (EAccount (GetAccount n) r2)"
  "slot_quiet (EFile p r3)" "slot_quiet (EClient c r4)" "slot_quiet (ECall cfg q r5)" "slot_quiet (EIssuedList sc r6)"
  "slot_quiet (EServiceAccounts ns r7)" "slot_quiet (ENamespace m r8)" "slot_quiet (EWrite w r9)" "slot_quiet (ENamespaces kv r10)"
  "slot_quiet (ESlot s)"
  by (simp_all add: slot_quiet_def)

lemma account_ok_quiet [simp]: "slot_quiet e \<Longrightarrow> account_ok x r h e"
  by (auto simp: account_ok_def slot_quiet_def)

lemma account_ok_writes [simp]:
  "account_ok x r h (EPut (SlotSet cfg c)) \<longleftrightarrow> set_ok x r h cfg c"
  "account_ok x r h (EPut (SlotClear why)) \<longleftrightarrow> clear_ok x r h"
  "account_ok x r h (EAccount (UpdateAccount u) reply) \<longleftrightarrow> update_ok x r h u"
  by (auto simp: account_ok_def)

lemmas slot_silent = always_quiet [where K = slot_quiet, OF _ account_ok_quiet]
lemmas slot_bind = always_bind [where K = slot_quiet, OF _ account_ok_quiet]

abbreviation account_always :: "extern \<Rightarrow> account_reconciler \<Rightarrow> 'a prog \<Rightarrow> event list \<Rightarrow> bool" where
  "account_always x r p h \<equiv> always (account_ok x r) (\<lambda>_ _. True) p h"


lemma new_clients_returns: "returns (new_clients cfg) es (Inr c) \<Longrightarrow> c = Installed cfg"
  by (auto simp: new_clients_def returns_branches)

lemma verify_returns: "returns (verify_account (Installed cfg)) es None \<longleftrightarrow> es = [ECall cfg ListWorkspaces None]"
  by (auto simp: verify_account_def account_client_def)

lemma declared_same: "same_but_status b a \<Longrightarrow> declared_config r a = declared_config r b"
  by (simp add: declared_config_def same_but_status_def)

lemma listed_naming_same: "same_but_status b a \<Longrightarrow> listed_naming r h a n \<longleftrightarrow> listed_naming r h b n"
  by (simp add: listed_naming_def same_but_status_def)

lemma deleting_same: "same_but_status b a \<Longrightarrow> deleting_account a \<longleftrightarrow> deleting_account b"
  by (simp add: deleting_account_def same_but_status_def)

lemma same_but_status_trans: "same_but_status a b \<Longrightarrow> same_but_status b c \<Longrightarrow> same_but_status a c"
  by (simp add: same_but_status_def)

lemma install_ok:
  assumes "account_in_hand x r h b" "same_but_status b a" "deleting_account b \<longrightarrow> (\<exists>n. listed_naming r h b (Suc n))"
  shows "account_always x r (install x r a read destroyed) h"
proof -
  have set: "set_ok x r (h @ es @ vs) (declared_config r a) c"
    if "returns (new_clients (declared_config r a)) es (Inr c)" "returns (verify_account c) vs None" for es vs c
  proof -
    have "c = Installed (declared_config r a)" "vs = [ECall (declared_config r a) ListWorkspaces None]"
      using that new_clients_returns verify_returns by blast+
    then show ?thesis
      using assms account_in_hand_append [OF assms(1)] listed_naming_append [of r h b] declared_same [OF assms(2), of r]
      unfolding set_ok_def by (intro exI [of _ b]) auto
  qed
  have quiet: "emits slot_quiet (report_account_ready x a st re m)" "emits slot_quiet (report_account_failure x a oc)" for st re m oc
    by (simp_all add: emits_account_ready emits_account_failure)
  have fail: "account_always x r (report_account_failure x a oc) h'" "account_always x r (report_account_ready x a st re m) h'"
    for oc st re m h' by (rule slot_silent; simp add: quiet)+
  show ?thesis
    unfolding install_def Let_def
    by (auto intro!: slot_bind emits_new_clients emits_verify fail set quiet split: sum.split option.split prod.split)
qed

lemma withdraw_ok:
  assumes "account_in_hand x r h b" "same_but_status b a" "deleting_account b \<longrightarrow> (\<exists>n. listed_naming r h b (Suc n))"
  shows "account_always x r (withdraw_and_install x r a read destroyed) h"
proof -
  have later: "account_always x r (install x r a read destroyed) (h @ es)" for es
    by (rule install_ok [OF account_in_hand_append [OF assms(1)] assms(2)]) (use assms(3) listed_naming_append in blast)
  have clear: "clear_ok x r (h @ [ESlot s])" if "configured s" "fst (built_from s) \<noteq> declared_config r a" for s
    using that account_in_hand_append [OF assms(1), of "[ESlot s]"] declared_same [OF assms(2), of r]
    unfolding clear_ok_def by (metis in_set_conv_decomp)
  show ?thesis
    unfolding withdraw_and_install_def
    using clear later [of "[ESlot _]"] later [of "[ESlot _, EPut _]"]
    by (auto simp: built_from_def configured_def)
qed

lemma serve_ok:
  assumes "account_in_hand x r h b" "same_but_status b a" "deleting_account b \<longrightarrow> (\<exists>n. listed_naming r h b (Suc n))"
  shows "account_always x r (serve_account x r a read records) h"
proof -
  have "account_always x r (withdraw_and_install x r a2 read destroyed) (h @ es1 @ es2)"
    if "returns (destroy_identities_in x r a records) es1 (Inr (a1, destroyed))" "returns (report_unserved_requests x r a1) es2 (Inr a2)"
    for es1 es2 a1 a2 destroyed
  proof (rule withdraw_ok [OF account_in_hand_append [OF assms(1)]])
    show "same_but_status b a2"
      using assms(2) destroy_same [OF that(1)] unserved_same [OF that(2)] by (simp add: same_but_status_def)
    show "deleting_account b \<longrightarrow> (\<exists>n. listed_naming r (h @ es1 @ es2) b (Suc n))"
      using assms(3) listed_naming_append by blast
  qed
  then show ?thesis
    unfolding serve_account_def
    by (auto intro!: slot_bind emits_destroy emits_unserved split: sum.split)
qed

lemma reconcile_present_ok:
  assumes "account_in_hand x r h b"
  shows "account_always x r (reconcile_present x r b) h"
proof -
  have release: "account_always x r (then_do (release_account x r a) (\<lambda>failed. Ret (f failed))) (h @ es @ [EIssuedList (IssuedIn (nn_namespace (ar_account r))) (Inr records)])"
    if "same_but_status b a" "deleting_account a" "records_naming records (as_account_id (ac_spec a)) = 0" for a es records f
  proof -
    let ?h = "h @ es @ [EIssuedList (IssuedIn (nn_namespace (ar_account r))) (Inr records)]"
    have "account_in_hand x r ?h b" "deleting_account b" "listed_naming r ?h b 0"
      using assms that deleting_same [OF that(1)] unfolding listed_naming_def
      by (auto simp: account_in_hand_append same_but_status_def intro!: exI [of _ records])
    moreover from this have "update_ok x r (?h @ [EPut (SlotClear why)]) (without_finalizer x a)" for why
      using that(1) account_in_hand_append [of x r ?h b] listed_naming_append [of r ?h b 0] unfolding update_ok_def
      by (intro disjI2 exI [of _ b]) (auto simp: without_finalizer_def same_but_status_def)
    ultimately show ?thesis
      unfolding release_account_def clear_ok_def by (simp add: clear_ok_def) blast
  qed
  have go: "account_always x r (then_do (if deleting_account b then report_held x r a n else Ret a) (\<lambda>a. serve_account x r a read records)) h'"
    if "account_in_hand x r h' b" "same_but_status b a" "deleting_account b \<longrightarrow> (\<exists>n. listed_naming r h' b (Suc n))"
    for a n read records h'
  proof (rule slot_bind)
    fix a' es assume "returns (if deleting_account b then report_held x r a n else Ret a) es a'"
    then have "same_but_status a a'" by (auto dest: report_held_same split: if_splits)
    with that(2) have "same_but_status b a'" by (rule same_but_status_trans)
    then show "account_always x r (serve_account x r a' read records) (h' @ es)"
      using that(3) listed_naming_append [of r h' b] by (intro serve_ok [OF account_in_hand_append [OF that(1)]]) auto
  qed (simp add: emits_report_held)
  show ?thesis
    unfolding reconcile_present_def Let_def account_records_def
  proof (intro slot_bind [OF emits_read_token] slot_bind [OF emits_report_prepared])
    fix read es a es'
    assume "returns (report_prepared x (with_claims b read) read) es' a"
    then have same: "same_but_status b a" using report_prepared_same by (fastforce simp: same_but_status_def)
    let ?listed = "\<lambda>records. [EIssuedList (IssuedIn (nn_namespace (ar_account r))) (Inr records)]"
    have listed: "listed_naming r (((h @ es) @ es') @ ?listed records) b (records_naming records (as_account_id (ac_spec a)))" for records
      using same by (auto simp: listed_naming_def same_but_status_def)
    have let_go: "account_always x r (then_do (release_account x r a) (\<lambda>failed. Ret (no_result, failed))) (h @ (es @ es') @ ?listed records)"
      if "deleting_account a" "records_naming records (as_account_id (ac_spec a)) = 0" for records
      by (rule release [OF same that])
    have hand: "account_in_hand x r (((h @ es) @ es') @ ?listed records) b" for records
      using account_in_hand_append [OF assms, of "es @ es' @ ?listed records"] by simp
    have "account_always x r (if om_deletion_timestamp (ac_meta a) \<noteq> None \<and> records_naming records (as_account_id (ac_spec a)) = 0
          then then_do (release_account x r a) (\<lambda>failed. Ret (no_result, failed))
          else then_do (if om_deletion_timestamp (ac_meta a) \<noteq> None
                   then report_held x r a (records_naming records (as_account_id (ac_spec a))) else Ret a)
                 (\<lambda>a. serve_account x r a read records)) (((h @ es) @ es') @ ?listed records)" for records
    proof (cases "records_naming records (as_account_id (ac_spec a))")
      case 0
      then show ?thesis
        using let_go [of records] go [OF hand same, of records 0 read records] deleting_same [OF same]
        by (cases "deleting_account b") (simp_all add: deleting_account_def)
    next
      case (Suc n)
      with listed [of records] have "listed_naming r (((h @ es) @ es') @ ?listed records) b (Suc n)" by simp
      then have "deleting_account b \<longrightarrow> (\<exists>n. listed_naming r (((h @ es) @ es') @ ?listed records) b (Suc n))" by blast
      with Suc go [OF hand same, of records "Suc n" read records] deleting_same [OF same] show ?thesis
        by (cases "deleting_account b") (simp_all add: deleting_account_def)
    qed
    then show "account_always x r (then_do (AskIssuedList (IssuedIn (nn_namespace (ar_account r))) Ret) (\<lambda>reply. case reply of
        Inl err \<Rightarrow> Ret (no_result, Some err)
      | Inr records \<Rightarrow>
          if om_deletion_timestamp (ac_meta a) \<noteq> None \<and> records_naming records (as_account_id (ac_spec a)) = 0
          then then_do (release_account x r a) (\<lambda>failed. Ret (no_result, failed))
          else then_do (if om_deletion_timestamp (ac_meta a) \<noteq> None
                   then report_held x r a (records_naming records (as_account_id (ac_spec a))) else Ret a)
                 (\<lambda>a. serve_account x r a read records))) ((h @ es) @ es')"
      by (simp split: sum.split)
  qed simp_all
qed


lemma reconcile_account_ok: "account_always x r (reconcile_account x r (ar_account r)) []"
proof -
  have present: "account_always x r (reconcile_present x r a) [EAccount (GetAccount (ar_account r)) (Inr a)]"
    if "om_deletion_timestamp (ac_meta a) = None \<longrightarrow> contains_finalizer (ac_meta a) AccountFinalizer" for a
    by (rule reconcile_present_ok) (use that in \<open>auto simp: account_in_hand_def deleting_account_def\<close>)
  have updated: "account_always x r (reconcile_present x r a1)
      [EAccount (GetAccount (ar_account r)) (Inr a), EAccount (UpdateAccount (with_finalizer x a)) (Inr a1)]"
    if "om_deletion_timestamp (ac_meta a) = None" for a a1
    by (rule reconcile_present_ok) (use that in \<open>auto simp: account_in_hand_def deleting_account_def\<close>)
  have added: "update_ok x r [EAccount (GetAccount (ar_account r)) (Inr a)] (with_finalizer x a)"
    if "om_deletion_timestamp (ac_meta a) = None" for a
    using that by (simp add: update_ok_def deleting_account_def)
  show ?thesis
    unfolding reconcile_account_def
    by (auto simp: present updated added clear_ok_def split: sum.split)
qed

text \<open>C12: The slot of clients is written only so: they are installed built from the declaration of the object in
  hand, which carries the finalizer (or is on its way out with records still naming its account),
  and after a call with just these clients succeeded; and they are withdrawn only because the
  object was read to be gone, or is being deleted and no record names its account, or the slot
  was read to hold clients built from another declaration. A call that fails withdraws nothing.\<close>
theorem slot_written_only:
  assumes "runs (reconcile_account x r (ar_account r)) (pre @ EPut w # post)"
  shows "case w of
      SlotSet cfg c \<Rightarrow> \<exists>a. account_in_hand x r pre a \<and> cfg = declared_config r a \<and> c = Installed cfg \<and>
        ECall cfg ListWorkspaces None \<in> set pre \<and> (deleting_account a \<longrightarrow> (\<exists>n. listed_naming r pre a (Suc n)))
    | SlotClear why \<Rightarrow> (\<exists>err. EAccount (GetAccount (ar_account r)) (Inl err) \<in> set pre \<and> is_not_found err) \<or>
        (\<exists>a. account_in_hand x r pre a \<and> deleting_account a \<and> listed_naming r pre a 0) \<or>
        (\<exists>a s. account_in_hand x r pre a \<and> ESlot s \<in> set pre \<and> configured s \<and> fst (built_from s) \<noteq> declared_config r a)"
proof -
  have "account_ok x r pre (EPut w)" using always_runs [OF reconcile_account_ok assms refl] .
  then show ?thesis by (cases w) (simp_all add: set_ok_def clear_ok_def)
qed

text \<open>C13: The object is written only to add the finalizer to one that is not being deleted, or, its deletion asked
  for, to take it off one whose account no listed record names; and then the clients were withdrawn
  before, so nothing can be created in an account nobody declares any more.\<close>
theorem released_only_when_unnamed:
  assumes "runs (reconcile_account x r (ar_account r)) (pre @ EAccount (UpdateAccount u) reply # post)"
    and "\<not> contains_finalizer (ac_meta u) AccountFinalizer" "finalizer_lists (add_finalizer x) (remove_finalizer x)"
  shows "\<exists>a records. account_in_hand x r pre a \<and> om_deletion_timestamp (ac_meta a) \<noteq> None \<and>
    EIssuedList (IssuedIn (nn_namespace (ar_account r))) (Inr records) \<in> set pre \<and>
    list_all (\<lambda>i. it_account_id (id_status i) \<noteq> as_account_id (ac_spec a)) records \<and>
    (\<exists>why. EPut (SlotClear why) \<in> set pre) \<and> ac_spec u = ac_spec a"
proof -
  have "update_ok x r pre u" using always_runs [OF reconcile_account_ok assms(1) refl] by simp
  moreover have "contains_finalizer (ac_meta (with_finalizer x a)) AccountFinalizer" for a
    using finalizer_lists.added [OF assms(3)] by (simp add: with_finalizer_def contains_finalizer_def)
  ultimately obtain a records where "account_in_hand x r pre a" "deleting_account a"
    "EIssuedList (IssuedIn (nn_namespace (ar_account r))) (Inr records) \<in> set pre"
    "records_naming records (as_account_id (ac_spec a)) = 0" "\<exists>why. EPut (SlotClear why) \<in> set pre" "ac_spec u = ac_spec a"
    using assms(2) unfolding update_ok_def listed_naming_def by auto
  moreover from this(4) have "list_all (\<lambda>i. it_account_id (id_status i) \<noteq> as_account_id (ac_spec a)) records"
    by (auto simp: records_naming_def filter_empty_conv list_all_iff)
  ultimately show ?thesis unfolding deleting_account_def by blast
qed


section \<open>The slot and the declaration\<close>

lemma runs_asks [simp]:
  "runs (AskAccount q k) es \<longleftrightarrow> es = [] \<or> (\<exists>r es'. es = EAccount q r # es' \<and> runs (k r) es')"
  "runs (AskIssuedList sc ki) es \<longleftrightarrow> es = [] \<or> (\<exists>r es'. es = EIssuedList sc r # es' \<and> runs (ki r) es')"
  "runs (PutSlot w p) es \<longleftrightarrow> es = [] \<or> (\<exists>es'. es = EPut w # es' \<and> runs p es')"
  by (cases es; auto simp: runs_def split: event.splits option.splits if_splits)+

definition slot_writes :: "event list \<Rightarrow> slot_write list" where
  "slot_writes es = concat (map (\<lambda>e. case e of EPut w \<Rightarrow> [w] | _ \<Rightarrow> []) es)"

definition no_slot_read :: "event \<Rightarrow> bool" where
  "no_slot_read e = (case e of ESlot _ \<Rightarrow> False | _ \<Rightarrow> True)"

definition sets_only :: "config \<Rightarrow> event \<Rightarrow> bool" where
  "sets_only cfg e = (case e of EPut w \<Rightarrow> (case w of SlotSet cfg1 _ \<Rightarrow> cfg1 = cfg | _ \<Rightarrow> False) | ESlot _ \<Rightarrow> False | _ \<Rightarrow> True)"

lemma kept_matching:
  "list_all (sets_only cfg) es \<Longrightarrow> configured s \<longrightarrow> fst (built_from s) = cfg \<Longrightarrow>
     built_from (foldl slot_apply s (slot_writes es)) = (cfg1, True) \<Longrightarrow> cfg1 = cfg"
proof (induction es arbitrary: s)
  case Nil
  then show ?case by (auto simp: slot_writes_def built_from_def configured_def)
next
  case (Cons e es)
  show ?case
  proof (cases "\<exists>w. e = EPut w")
    case True
    with Cons.prems(1) obtain c where e: "e = EPut (SlotSet cfg c)"
      by (auto simp: sets_only_def split: slot_write.splits)
    with Cons.prems show ?thesis
      by (intro Cons.IH [of "slot_set cfg c s"]) (simp_all add: slot_writes_def built_from_def slot_set_def)
  next
    case False
    then have "slot_writes (e # es) = slot_writes es" by (auto simp: slot_writes_def split: event.split)
    with Cons.prems show ?thesis by (intro Cons.IH [of s]) simp_all
  qed
qed

lemma install_sets: "emits (sets_only (declared_config r a)) (install x r a read destroyed)"
  unfolding install_def Let_def
  by (auto intro!: emits_then_do emits_new_clients emits_verify emits_account_ready emits_account_failure
      simp: sets_only_def split: sum.split option.split)

lemma withdraw_matches:
  assumes "runs (withdraw_and_install x r a read destroyed) (pre @ ESlot s # post)" "post \<noteq> []"
    and "built_from (foldl slot_apply s (slot_writes post)) = (cfg, True)"
  shows "pre = [] \<and> cfg = declared_config r a"
proof -
  let ?rest = "\<lambda>s. if configured s \<and> fst (built_from s) \<noteq> declared_config r a
    then PutSlot (SlotClear (changed_said r a)) (install x r a read destroyed) else install x r a read destroyed"
  have "emits no_slot_read (install x r a read destroyed)"
    by (rule emits_mono [OF install_sets]) (auto simp: sets_only_def no_slot_read_def split: event.splits)
  then have "emits no_slot_read (?rest s)" for s by (simp add: no_slot_read_def)
  then have quiet: "runs (?rest s0) es \<Longrightarrow> ESlot s \<notin> set es" for s0 es
    using emits_runs [of no_slot_read] by (fastforce simp: no_slot_read_def)
  have whole: "runs (AskSlot ?rest) (pre @ ESlot s # post)"
    using assms(1) by (simp add: withdraw_and_install_def built_from_def configured_def Let_def)
  then obtain s0 es where es: "pre @ ESlot s # post = ESlot s0 # es" "runs (?rest s0) es" by auto
  have pre: "pre = []" "s0 = s" "es = post"
    using es(1) quiet [OF es(2)] by (cases pre; force)+
  have "cfg = declared_config r a"
  proof (cases "configured s \<and> fst (built_from s) \<noteq> declared_config r a")
    case True
    with es pre assms(2) obtain post1 where post: "post = EPut (SlotClear (changed_said r a)) # post1"
      "runs (install x r a read destroyed) post1" by (auto split: if_splits)
    from emits_runs [OF install_sets post(2)] have "list_all (sets_only (declared_config r a)) post1" by (simp add: list_all_iff)
    with assms(3) post(1) show ?thesis
      by (intro kept_matching [of _ post1 "slot_clear (changed_said r a) s"]) (simp_all add: slot_writes_def configured_def slot_clear_def)
  next
    case False
    with es pre have "runs (install x r a read destroyed) post" by auto
    from emits_runs [OF install_sets this] have "list_all (sets_only (declared_config r a)) post" by (simp add: list_all_iff)
    with False assms(3) show ?thesis by (intro kept_matching [of _ post s]) auto
  qed
  with pre show ?thesis by simp
qed

text \<open>What follows the one read of the slot, wherever in the pass it is.\<close>

definition from_slot :: "(account_in_use \<Rightarrow> event list \<Rightarrow> bool) \<Rightarrow> 'a prog \<Rightarrow> bool" where
  "from_slot Q p \<longleftrightarrow> (\<forall>pre s post. runs p (pre @ ESlot s # post) \<longrightarrow> Q s post)"

lemma from_slot_none: "emits no_slot_read p \<Longrightarrow> from_slot Q p"
  using emits_runs [of no_slot_read p] by (fastforce simp: from_slot_def no_slot_read_def)

lemma from_slot_bind:
  assumes "emits no_slot_read p" "\<And>a es. returns p es a \<Longrightarrow> from_slot Q (f a)"
  shows "from_slot Q (then_do p f)"
  unfolding from_slot_def
proof (intro allI impI)
  fix pre s post assume "runs (then_do p f) (pre @ ESlot s # post)"
  then obtain es1 es2 a where "returns p es1 a" "runs (f a) (es2 @ ESlot s # post)"
    by (rule runs_rest [where K = no_slot_read, OF _ assms(1)]) (simp_all add: no_slot_read_def)
  with assms(2) show "Q s post" unfolding from_slot_def by blast
qed

lemma from_slot_ret [simp]: "from_slot Q (Ret b)"
  by (simp add: from_slot_def)

lemma from_slot_asks:
  "(\<And>r. from_slot Q (k r)) \<Longrightarrow> from_slot Q (AskAccount q k)"
  "(\<And>r. from_slot Q (ki r)) \<Longrightarrow> from_slot Q (AskIssuedList sc ki)"
  unfolding from_slot_def by (intro allI impI; case_tac pre; auto)+

definition matches :: "account_reconciler \<Rightarrow> account \<Rightarrow> account_in_use \<Rightarrow> event list \<Rightarrow> bool" where
  "matches r a s post \<longleftrightarrow>
     (\<forall>cfg. post \<noteq> [] \<longrightarrow> built_from (foldl slot_apply s (slot_writes post)) = (cfg, True) \<longrightarrow> cfg = declared_config r a)"

lemma no_slot_read_simps [simp]:
  "no_slot_read (ENow t)" "no_slot_read (EAccount q r1)" "no_slot_read (EFile p r3)" "no_slot_read (EClient c r4)"
  "no_slot_read (ECall cfg qc r5)" "no_slot_read (EIssuedList sc r6)" "no_slot_read (EServiceAccounts ns r7)"
  "no_slot_read (ENamespace m r8)" "no_slot_read (EWrite w r9)" "no_slot_read (ENamespaces kv r10)" "no_slot_read (EPut v)"
  by (simp_all add: no_slot_read_def)

lemma withdraw_from_slot:
  "same_but_status b a \<Longrightarrow> from_slot (matches r b) (withdraw_and_install x r a read destroyed)"
  using withdraw_matches declared_same by (fastforce simp: from_slot_def matches_def)

lemma serve_from_slot: "same_but_status b a \<Longrightarrow> from_slot (matches r b) (serve_account x r a read records)"
  unfolding serve_account_def
  by (auto intro!: from_slot_bind emits_destroy emits_unserved withdraw_from_slot split: sum.split
      dest!: destroy_same unserved_same elim: same_but_status_trans) (blast intro: same_but_status_trans)+

lemma present_from_slot: "from_slot (matches r b) (reconcile_present x r b)"
proof -
  have same: "same_but_status b a" if "returns (report_prepared x (with_claims b read) read) es a" for a read es
    using report_prepared_same [OF that] by (simp add: same_but_status_def)
  have held: "from_slot (matches r b) (then_do (report_held x r a n) (\<lambda>a. serve_account x r a read records))"
    if "same_but_status b a" for a n read records
    using that by (auto intro!: from_slot_bind emits_report_held serve_from_slot dest!: report_held_same intro: same_but_status_trans)
  have rel: "emits no_slot_read (then_do (release_account x r a) (\<lambda>failed. Ret (g failed)))" for a and g :: "error option \<Rightarrow> reconciled"
    by (simp add: release_account_def)
  show ?thesis
    unfolding reconcile_present_def Let_def account_records_def
    by (auto intro!: from_slot_bind emits_read_token emits_report_prepared from_slot_asks held serve_from_slot from_slot_none [OF rel]
        dest: same split: sum.split)
qed

text \<open>From the moment a pass looks at the slot, what the slot holds was built from the declaration of the
  object the pass has in hand, or the slot is empty: an edited declaration never leaves clients of
  the account it named before installed, whether the new one verifies or not.\<close>
theorem slot_matches_declaration:
  assumes "runs (reconcile_account x r (ar_account r)) (pre @ ESlot s # post)" "post \<noteq> []"
    and "built_from (foldl slot_apply s (slot_writes post)) = (cfg, True)"
  shows "\<exists>a. (EAccount (GetAccount (ar_account r)) (Inr a) \<in> set pre \<or>
      (\<exists>a0. EAccount (UpdateAccount (with_finalizer x a0)) (Inr a) \<in> set pre)) \<and> cfg = declared_config r a"
proof -
  let ?get = "EAccount (GetAccount (ar_account r))"
  have none: "\<not> runs (Ret b) (us @ ESlot s # post)" "\<not> runs (PutSlot w (Ret b)) (us @ ESlot s # post)" for us w and b :: reconciled
    by (cases us; simp)+
  have present: "cfg = declared_config r a" if "runs (reconcile_present x r a) (us @ ESlot s # post)" for a us
    using present_from_slot [of r a x] that assms(2,3) unfolding from_slot_def matches_def by blast
  from assms(1) obtain reply us where pre: "pre = ?get reply # us"
    by (cases pre) (auto simp: reconcile_account_def)
  show ?thesis
  proof (cases reply)
    case (Inl err)
    with assms(1) pre none show ?thesis by (auto simp: reconcile_account_def split: if_splits)
  next
    case (Inr a)
    show ?thesis
    proof (cases "om_deletion_timestamp (ac_meta a) = None \<and> \<not> contains_finalizer (ac_meta a) AccountFinalizer")
      case True
      with assms(1) pre Inr obtain reply1 us1 where us: "us = EAccount (UpdateAccount (with_finalizer x a)) reply1 # us1"
        by (cases us) (auto simp: reconcile_account_def)
      with assms(1) pre Inr True none present show ?thesis
        by (cases reply1) (auto simp: reconcile_account_def)
    next
      case False
      with assms(1) pre Inr present [of a us] show ?thesis by (auto simp: reconcile_account_def split: if_splits)
    qed
  qed
qed


section \<open>Examples\<close>

definition ex_operator_key :: namespaced_name where "ex_operator_key = \<lparr>nn_namespace = ''ops'', nn_name = ''acc''\<rparr>"

definition ex_account_reconciler :: account_reconciler where
  "ex_account_reconciler = \<lparr>ar_account = ex_operator_key, ar_own_token = config_zero\<rparr>"

definition ex_declared :: account where
  "ex_declared = \<lparr>ac_meta = \<lparr>om_namespace = ''ops'', om_name = ''acc'', om_uid = ''u'', om_resource_version = ''1'',
       om_generation = 1, om_deletion_timestamp = None, om_finalizers = [AccountFinalizer], om_labels = [], om_annotations = []\<rparr>,
     ac_spec = \<lparr>as_host = ''h'', as_account_id = ''dbx-1'', as_client_id = ''c'', as_namespaces = []\<rparr>,
     ac_status = \<lparr>at_subject = '''', at_audience = '''', at_issuer = '''', at_cluster_marker = '''', at_conditions = []\<rparr>\<rparr>"

definition ex_deleted :: account where
  "ex_deleted = ex_declared\<lparr>ac_meta := (ac_meta ex_declared)\<lparr>om_deletion_timestamp := Some 5\<rparr>\<rparr>"

definition ex_no_file :: error where "ex_no_file = ErrorText ''no projected token file is configured''"

text \<open>The object once Prepared was set on it.\<close>

definition ex_prepared :: "account \<Rightarrow> account" where
  "ex_prepared a = a\<lparr>ac_status := (ac_status a)\<lparr>at_conditions :=
     ref_set_condition 1 (at_conditions (ac_status a)) \<lparr>cn_type = conditionPrepared, cn_status = ConditionFalse,
       cn_observed_generation = om_generation (ac_meta a), cn_last_transition = 0, cn_reason = reasonUnprepared,
       cn_message = unreadable_token_said (error_string (quote ref_extern) ex_no_file)\<rparr>\<rparr>\<rparr>"

lemma ex_token_path [simp]: "cf_oidc_token_filepath (ar_own_token ex_account_reconciler) = ''''"
  by (simp add: ex_account_reconciler_def config_zero_def)

lemma ex_present:
  "after (reconcile_present ref_extern ex_account_reconciler a) (ENow 1 # EIssuedList (IssuedIn ''ops'') (Inr records) # es) =
     after (if deleting_account a \<and> records_naming records (as_account_id (ac_spec a)) = 0
       then then_do (release_account ref_extern ex_account_reconciler (ex_prepared a)) (\<lambda>failed. Ret (no_result, failed))
       else then_do (if deleting_account a then report_held ref_extern ex_account_reconciler (ex_prepared a)
                (records_naming records (as_account_id (ac_spec a))) else Ret (ex_prepared a))
              (\<lambda>a. serve_account ref_extern ex_account_reconciler a (Inl ex_no_file) records)) es"
  by (simp add: reconcile_present_def read_token_claims_def report_prepared_def with_claims_def with_condition_def
      set_condition_def account_records_def ex_account_reconciler_def [unfolded ex_operator_key_def] ex_prepared_def
      ex_no_file_def deleting_account_def Let_def config_zero_def)

lemma ex_reads:
  "after (reconcile_account ref_extern ex_account_reconciler (ar_account ex_account_reconciler))
     (EAccount (GetAccount (ar_account ex_account_reconciler)) (Inr ex_declared) # es) =
     after (reconcile_present ref_extern ex_account_reconciler ex_declared) es"
  "after (reconcile_account ref_extern ex_account_reconciler (ar_account ex_account_reconciler))
     (EAccount (GetAccount (ar_account ex_account_reconciler)) (Inr ex_deleted) # es) =
     after (reconcile_present ref_extern ex_account_reconciler ex_deleted) es"
  by (simp_all add: reconcile_account_def ex_declared_def ex_deleted_def contains_finalizer_def)

lemma ex_deleting [simp]: "deleting_account ex_deleted" "\<not> deleting_account ex_declared"
  by (simp_all add: deleting_account_def ex_deleted_def ex_declared_def)

text \<open>A pass over the deleted object with no record left.\<close>

definition ex_let_go :: "event list" where
  "ex_let_go = [EAccount (GetAccount (ar_account ex_account_reconciler)) (Inr ex_deleted), ENow 1,
     EIssuedList (IssuedIn ''ops'') (Inr [])]"

definition ex_withdrawn :: event where
  "ex_withdrawn = EPut (SlotClear (account_deleted_said ex_account_reconciler))"

lemma ex_let_go_runs:
  "runs (reconcile_account ref_extern ex_account_reconciler (ar_account ex_account_reconciler)) (ex_let_go @ [ex_withdrawn])"
  "runs (reconcile_account ref_extern ex_account_reconciler (ar_account ex_account_reconciler))
     ((ex_let_go @ [ex_withdrawn]) @ EAccount (UpdateAccount (without_finalizer ref_extern (ex_prepared ex_deleted))) (Inl ex_no_file) # [])"
  unfolding runs_def ex_let_go_def ex_withdrawn_def append.simps ex_reads ex_present
  by (simp_all add: records_naming_def release_account_def)

theorem slot_written_only_witness:
  "\<exists>a. account_in_hand ref_extern ex_account_reconciler ex_let_go a \<and> deleting_account a"
proof -
  have "runs (reconcile_account ref_extern ex_account_reconciler (ar_account ex_account_reconciler))
      (ex_let_go @ EPut (SlotClear (account_deleted_said ex_account_reconciler)) # [])"
    using ex_let_go_runs(1) by (simp add: ex_withdrawn_def)
  from slot_written_only [OF this] show ?thesis by (auto simp: ex_let_go_def)
qed

theorem released_only_when_unnamed_witness:
  "\<exists>a why. account_in_hand ref_extern ex_account_reconciler (ex_let_go @ [ex_withdrawn]) a \<and>
     EPut (SlotClear why) \<in> set (ex_let_go @ [ex_withdrawn])"
proof -
  have "\<not> contains_finalizer (ac_meta (without_finalizer ref_extern (ex_prepared ex_deleted))) AccountFinalizer"
    by (simp add: contains_finalizer_def without_finalizer_def ref_remove_finalizer_def)
  moreover have "finalizer_lists (add_finalizer ref_extern) (remove_finalizer ref_extern)"
    using ref_finalizers.finalizer_lists_axioms by simp
  ultimately show ?thesis using released_only_when_unnamed [OF ex_let_go_runs(2)] by blast
qed

text \<open>A pass that finds the clients of its own declaration installed.\<close>

definition ex_installed :: account_in_use where
  "ex_installed = slot_set (declared_config ex_account_reconciler ex_declared)
     (Installed (declared_config ex_account_reconciler ex_declared)) (new_account_in_use ''ops'' ''acc'')"

definition ex_to_slot :: "event list" where
  "ex_to_slot = [EAccount (GetAccount (ar_account ex_account_reconciler)) (Inr ex_declared), ENow 1,
     EIssuedList (IssuedIn ''ops'') (Inr []), ENamespaces (DestroyingIdentitiesLabel, ''ops'') (Inr []), ENow 1,
     EServiceAccounts None (Inr []), ENow 1]"


lemma ex_new_clients: "new_clients (declared_config ex_account_reconciler ex_declared) =
    AskClient (sdk_config_of (declared_config ex_account_reconciler ex_declared)) (\<lambda>r. case r of
      Some err \<Rightarrow> Ret (Inl (Wrapped ''building the Databricks account client: '' err ''''))
    | None \<Rightarrow> Ret (Inr (Installed (declared_config ex_account_reconciler ex_declared))))"
proof -
  have "validate (declared_config ex_account_reconciler ex_declared) = None"
    by (simp add: validate_def declared_config_def ex_declared_def ex_account_reconciler_def for_account_def config_zero_def)
  then show ?thesis by (simp add: new_clients_def)
qed

lemma ex_serves_to_slot:
  assumes "ac_spec a = ac_spec ex_declared"
  shows "runs (serve_account ref_extern ex_account_reconciler a read []) [ENamespaces (DestroyingIdentitiesLabel, ''ops'') (Inr []), ENow 1,
     EServiceAccounts None (Inr []), ENow 1, ESlot ex_installed,
     EClient (sdk_config_of (declared_config ex_account_reconciler ex_declared)) None]"
proof -
  have "nn_namespace (ar_account ex_account_reconciler) = ''ops''" by (simp add: ex_account_reconciler_def ex_operator_key_def)
  moreover define c where "c = declared_config ex_account_reconciler ex_declared"
  moreover have "built_from ex_installed = (c, True)"
    by (simp add: ex_installed_def built_from_def slot_set_def c_def)
  moreover have "declared_config ex_account_reconciler (a\<lparr>ac_status := s1\<rparr>) = c" for s1
    using assms by (simp add: declared_config_def c_def)
  ultimately show ?thesis
    using ex_new_clients [folded c_def] unfolding c_def [symmetric]
    by (simp add: runs_def serve_account_def destroy_identities_in_def namespaces_claimed_for_destruction_def with_condition_def
        set_condition_def report_unserved_requests_def withdraw_and_install_def install_def Let_def)
qed

lemma ex_to_slot_runs:
  "runs (reconcile_account ref_extern ex_account_reconciler (ar_account ex_account_reconciler))
     (ex_to_slot @ ESlot ex_installed # [EClient (sdk_config_of (declared_config ex_account_reconciler ex_declared)) None])"
proof -
  have "ac_spec (ex_prepared ex_declared) = ac_spec ex_declared" by (simp add: ex_prepared_def)
  from ex_serves_to_slot [OF this] show ?thesis
    unfolding runs_def ex_to_slot_def append.simps ex_reads ex_present by simp
qed

end
