(* ===== verification/ClaimSafety.thy ===== *)
theory ClaimSafety
  imports AccountSafety
begin

text \<open>
  The claims on namespaces in the reconcile of \<open>AccountController\<close>: what is written on a namespace and
  after what was read of it, when a claim may be taken from another operator, that destruction is
  reported finished only where nothing is left, and the check \<open>CheckSelectedAccount\<close> makes before
  anything is reconciled.
\<close>

section \<open>Counts\<close>

definition record_namespace :: "issued \<Rightarrow> string" where
  "record_namespace i = is_namespace (ip_service_account (id_spec i))"

lemma count_of_Nil [simp]: "count_of [] j = 0"
  by (simp add: count_of_def)

lemma count_of_counted_in [simp]: "count_of (counted_in cs k n) j = count_of cs j + (if j = k then n else 0)"
  by (induction cs k n rule: counted_in.induct) (auto simp: count_of_def split: option.splits)

lemma keys_counted_in [simp]: "fst ` set (counted_in cs k n) = insert k (fst ` set cs)"
  by (induction cs k n rule: counted_in.induct) auto

lemma count_of_holding:
  "count_of (holding spec cs records) n =
     count_of cs n + (if serves spec n then 0 else length (filter (\<lambda>i. record_namespace i = n) records))"
  by (induction records arbitrary: cs) (auto simp: Let_def record_namespace_def)

lemma count_of_add_claimed [simp]: "count_of (add_claimed cs taken) n = count_of cs n"
  by (induction taken arbitrary: cs) auto

lemma keys_holding:
  "fst ` set (holding spec cs records) = fst ` set cs \<union> {record_namespace i | i. i \<in> set records \<and> \<not> serves spec (record_namespace i)}"
  by (induction records arbitrary: cs) (auto simp: Let_def record_namespace_def)

lemma keys_add_claimed: "fst ` set (add_claimed cs taken) = fst ` set cs \<union> set taken"
  by (induction taken arbitrary: cs) auto

lemma out_of_scope_count:
  "count_of (add_claimed (holding spec [] records) taken) n > 0 \<longleftrightarrow>
     \<not> serves spec n \<and> (\<exists>i \<in> set records. record_namespace i = n)"
  by (auto simp: count_of_holding filter_empty_conv)

section \<open>What is written on a namespace\<close>

definition claim_write :: "account_reconciler \<Rightarrow> string \<Rightarrow> time \<Rightarrow> bool \<Rightarrow> write_request" where
  "claim_write r n t force =
     ApplyNamespace n (fst (destruction_claim_for (ar_account r) t)) (snd (destruction_claim_for (ar_account r) t)) (ar_owner r) force"

text \<open>The last four exchanges of \<open>h\<close>: an unforced claim met a conflict, the namespace was read after that, and
  the date the holder had left in it was too old by the clock.\<close>

definition stale_seen :: "account_reconciler \<Rightarrow> string \<Rightarrow> event list \<Rightarrow> bool" where
  "stale_seen r n h \<longleftrightarrow>
     (\<exists>before t err ns now since.
        h = before @ [ENow t, EWrite (claim_write r n t False) (Some err), ENamespace n (Inr ns), ENow now] \<and> is_conflict err \<and>
        parse_rfc3339 (map_get (om_annotations (ns_meta ns)) DestroyingIdentitiesSinceAnnotation) = Some since \<and>
        destructionClaimStale \<le> time_since now since)"

lemma stale_seenD:
  assumes "stale_seen r n h"
  obtains ns since now where "ENamespace n (Inr ns) \<in> set h" "ENow now \<in> set h"
    "parse_rfc3339 (map_get (om_annotations (ns_meta ns)) DestroyingIdentitiesSinceAnnotation) = Some since"
    "destructionClaimStale \<le> time_since now since"
proof -
  from assms obtain before t err ns now since where
    "h = before @ [ENow t, EWrite (claim_write r n t False) (Some err), ENamespace n (Inr ns), ENow now]"
    "parse_rfc3339 (map_get (om_annotations (ns_meta ns)) DestroyingIdentitiesSinceAnnotation) = Some since"
    "destructionClaimStale \<le> time_since now since" unfolding stale_seen_def by blast
  then show thesis by (intro that [of ns now since]) simp_all
qed

definition claims_here :: "account_reconciler \<Rightarrow> string \<Rightarrow> event list \<Rightarrow> write_request \<Rightarrow> bool" where
  "claims_here r n h w \<longleftrightarrow>
     (\<exists>before t. h = before @ [ENow t] \<and>
        (w = claim_write r n t False \<and> (\<exists>earlier ns. before = earlier @ [ENamespace n (Inr ns)]) \<or>
         w = claim_write r n t True \<and> stale_seen r n before))"

definition gives_back :: "account_reconciler \<Rightarrow> string \<Rightarrow> event list \<Rightarrow> write_request \<Rightarrow> bool" where
  "gives_back r n h w \<longleftrightarrow> w = ApplyNamespace n [] [] (ar_owner r) False \<and>
     (\<exists>before ns. h = before @ [ENamespace n (Inr ns)] \<and> destruction_holder_of ns = ar_account r)"

definition claim_ok :: "account_reconciler \<Rightarrow> account_spec \<Rightarrow> issued list \<Rightarrow> event list \<Rightarrow> event \<Rightarrow> bool" where
  "claim_ok r spec records h e \<longleftrightarrow> (\<forall>w reply. e = EWrite w reply \<longrightarrow>
     (\<exists>n. claims_here r n h w \<and> \<not> serves spec n \<and> (\<exists>i \<in> set records. record_namespace i = n)) \<or>
     (\<exists>n. gives_back r n h w \<and> (serves spec n \<or> (\<forall>i \<in> set records. record_namespace i \<noteq> n))))"

definition no_write :: "event \<Rightarrow> bool" where
  "no_write e = (case e of EWrite _ _ \<Rightarrow> False | _ \<Rightarrow> True)"

lemma no_write_simps [simp]:
  "no_write (ENow t)" "no_write (EAccount q r1)" "no_write (EFile p r3)" "no_write (EClient c r4)"
  "no_write (ECall cfg qc r5)" "no_write (EIssuedList sc r6)" "no_write (EServiceAccounts ns r7)"
  "no_write (ENamespace m r8)" "no_write (ENamespaces kv r10)" "no_write (EPut v)" "no_write (ESlot s)" "\<not> no_write (EWrite w r9)"
  by (simp_all add: no_write_def)

lemma claim_ok_quiet [simp]: "no_write e \<Longrightarrow> claim_ok r spec records h e"
  by (auto simp: claim_ok_def)

lemmas claim_bind = always_bind [where K = no_write, OF _ claim_ok_quiet]
lemmas claim_silent = always_quiet [where K = no_write, OF _ claim_ok_quiet]

abbreviation claim_always :: "account_reconciler \<Rightarrow> account_spec \<Rightarrow> issued list \<Rightarrow> 'a prog \<Rightarrow> event list \<Rightarrow> bool" where
  "claim_always r spec records p h \<equiv> always (claim_ok r spec records) (\<lambda>_ _. True) p h"

lemma claim_namespace_ok:
  assumes "\<not> serves spec n" "\<exists>i \<in> set records. record_namespace i = n"
    and "if force then stale_seen r n h else \<exists>before ns. h = before @ [ENamespace n (Inr ns)]"
    and "\<And>failed t. claim_always r spec records (k failed) (h @ [ENow t, EWrite (claim_write r n t force) failed])"
  shows "claim_always r spec records (claim_namespace r n force k) h"
proof -
  have "claims_here r n (h @ [ENow t]) (claim_write r n t force)" for t
    using assms(3) unfolding claims_here_def by (cases force) auto
  with assms(1,2) have "claim_ok r spec records (h @ [ENow t]) (EWrite (claim_write r n t force) failed)" for t failed
    unfolding claim_ok_def by blast
  with assms(4) show ?thesis by (simp add: claim_namespace_def claim_write_def)
qed

lemma acquire_ok:
  assumes "\<not> serves spec n" "\<exists>i \<in> set records. record_namespace i = n"
  shows "claim_always r spec records (acquire_destruction_claim x r n) h"
proof -
  have stale: "claim_always r spec records (take_stale_claim x r n ns)
      (h' @ [ENow t, EWrite (claim_write r n t False) (Some err), ENamespace n (Inr ns)])"
    if "is_conflict err" for h' ns t err
  proof -
    have "stale_seen r n (h' @ [ENow t, EWrite (claim_write r n t False) (Some err), ENamespace n (Inr ns), ENow now])"
      if "parse_rfc3339 (map_get (om_annotations (ns_meta ns)) DestroyingIdentitiesSinceAnnotation) = Some since"
        "\<not> time_since now since < destructionClaimStale" for since now
      unfolding stale_seen_def using that \<open>is_conflict err\<close> by force
    then show ?thesis
      unfolding take_stale_claim_def Let_def
      by (auto intro!: claim_namespace_ok [OF assms] split: option.split)
  qed
  have "claim_always r spec records (claim_namespace r n False (\<lambda>failed.
              (case failed of
                 None \<Rightarrow> Ret None
               | Some err \<Rightarrow>
                   if \<not> is_conflict err then Ret (Some err)
                   else AskNamespace n (\<lambda>reply.
                     (case reply of
                        Inl err \<Rightarrow> Ret (ignore_not_found (Some err))
                      | Inr namespace \<Rightarrow> take_stale_claim x r n namespace))))) (h @ [ENamespace n (Inr ns)])" for ns
    by (intro claim_namespace_ok [OF assms])
      (auto intro!: stale [where h' = "h @ [_]", simplified] split: option.split sum.split)
  then show ?thesis
    unfolding acquire_destruction_claim_def
    by (auto intro!: claim_bind emits_destruction_held_by dest!: held_by_returns split: sum.split)
qed

lemma give_back_ok:
  assumes "serves spec n \<or> (\<forall>i \<in> set records. record_namespace i \<noteq> n)"
  shows "claim_always r spec records (release_destruction_claim r n) h"
proof -
  have "claim_ok r spec records (h @ [ENamespace n (Inr ns)]) (EWrite (ApplyNamespace n [] [] (ar_owner r) False) failed)"
    if "destruction_holder_of ns = ar_account r" for ns failed
  proof -
    have "gives_back r n (h @ [ENamespace n (Inr ns)]) (ApplyNamespace n [] [] (ar_owner r) False)"
      using that by (auto simp: gives_back_def)
    with assms show ?thesis unfolding claim_ok_def by blast
  qed
  then show ?thesis by (simp add: release_destruction_claim_def split: sum.split)
qed

lemma make_claims_ok:
  fixes x :: extern
  assumes "\<And>n. n \<in> set ns \<Longrightarrow> count_of cs n > 0 \<longleftrightarrow> \<not> serves spec n \<and> (\<exists>i \<in> set records. record_namespace i = n)"
  shows "claim_always r spec records (make_claims x r cs made ns) h"
  using assms
proof (induction ns arbitrary: made h)
  case (Cons n ns made h)
  have "claim_always r spec records (make_claims x r cs made' ns) h'" for made' h'
    using Cons by simp
  with Cons.prems [of n] show ?case
    by (cases "count_of cs n > 0") (auto simp: Let_def intro!: always_then acquire_ok give_back_ok)
qed simp

lemma destroy_ok: "claim_always r (ac_spec a) records (destroy_identities_in x r a records) h"
proof -
  have claims: "claim_always r (ac_spec a) records (make_claims x r (add_claimed (holding (ac_spec a) [] records) taken) made ns) h'"
    for taken made ns h' by (rule make_claims_ok) (simp only: out_of_scope_count)
  have said: "claim_always r (ac_spec a) records (then_do (with_condition x a ty st re m) (\<lambda>a. Ret (f a))) h'"
    for ty st re m h' and f :: "account \<Rightarrow> error + account \<times> bool"
    by (rule claim_silent) (simp add: emits_then_do emits_with_condition)
  show ?thesis
    unfolding destroy_identities_in_def Let_def namespaces_claimed_for_destruction_def
    by (auto intro!: said always_then [OF claims] split: sum.split)
qed


lemma serve_claims: "claim_always r (ac_spec a) records (serve_account x r a read records) h"
proof -
  have "claim_always r (ac_spec a) records (withdraw_and_install x r a1 read destroyed) h'" for a1 destroyed h'
    by (rule claim_silent)
      (auto simp: withdraw_and_install_def install_def Let_def built_from_def
        intro!: emits_then_do emits_new_clients emits_verify emits_account_ready emits_account_failure split: sum.split option.split)
  then show ?thesis
    unfolding serve_account_def
    by (auto intro!: always_then [OF destroy_ok] claim_bind emits_unserved split: sum.split)
qed

definition claims_ok :: "extern \<Rightarrow> account_reconciler \<Rightarrow> event list \<Rightarrow> event \<Rightarrow> bool" where
  "claims_ok x r h e \<longleftrightarrow> no_write e \<or>
     (\<exists>a records. account_in_hand x r h a \<and> EIssuedList (IssuedIn (nn_namespace (ar_account r))) (Inr records) \<in> set h \<and>
        claim_ok r (ac_spec a) records h e)"


lemma claims_ok_quiet [simp]: "no_write e \<Longrightarrow> claims_ok x r h e"
  by (simp add: claims_ok_def)

lemmas claims_bind = always_bind [where K = no_write, OF _ claims_ok_quiet]
lemmas claims_silent = always_quiet [where K = no_write, OF _ claims_ok_quiet]

lemma claims_from:
  assumes "account_in_hand x r h b" "EIssuedList (IssuedIn (nn_namespace (ar_account r))) (Inr records) \<in> set h"
    and "claim_always r (ac_spec b) records p h"
  shows "always (claims_ok x r) (\<lambda>_ _. True) p h"
proof (rule always_mono [OF always_conj [OF assms(3) always_later [of h h]]])
  fix h' e assume "claim_ok r (ac_spec b) records h' e \<and> (\<exists>es. h' = h @ es)"
  then obtain es where "h' = h @ es" "claim_ok r (ac_spec b) records h' e" by blast
  then show "claims_ok x r h' e"
    using account_in_hand_append [OF assms(1)] assms(2) unfolding claims_ok_def by auto
qed simp_all

lemma present_claims:
  assumes "account_in_hand x r h b"
  shows "always (claims_ok x r) (\<lambda>_ _. True) (reconcile_present x r b) h"
proof -
  let ?listed = "\<lambda>records. EIssuedList (IssuedIn (nn_namespace (ar_account r))) (Inr records)"
  have serve: "always (claims_ok x r) (\<lambda>_ _. True) (serve_account x r a read records) (h @ es)"
    if "same_but_status b a" "?listed records \<in> set es" for a read records es
    using that serve_claims [of r a records x read "h @ es"]
    by (intro claims_from [OF account_in_hand_append [OF assms]]) (auto simp: same_but_status_def)
  have held: "always (claims_ok x r) (\<lambda>_ _. True) (then_do (if d then report_held x r a n else Ret a)
      (\<lambda>a. serve_account x r a read records)) (h @ es)"
    if "same_but_status b a" "?listed records \<in> set es" for a d n read records es
  proof (rule claims_bind)
    fix a' es' assume "returns (if d then report_held x r a n else Ret a) es' a'"
    then have "same_but_status a a'" by (auto dest: report_held_same split: if_splits)
    with that have "same_but_status b a'" "?listed records \<in> set (es @ es')" by (auto intro: same_but_status_trans)
    from serve [OF this] show "always (claims_ok x r) (\<lambda>_ _. True) (serve_account x r a' read records) ((h @ es) @ es')" by simp
  qed (simp add: emits_report_held)
  have rel: "always (claims_ok x r) (\<lambda>_ _. True) (then_do (release_account x r a) (\<lambda>failed. Ret (no_result, failed))) h'" for a h'
    by (simp add: release_account_def)
  show ?thesis
    unfolding reconcile_present_def Let_def account_records_def
  proof (intro claims_bind [OF emits_read_token] claims_bind [OF emits_report_prepared])
    fix read es a es'
    assume "returns (report_prepared x (with_claims b read) read) es' a"
    then have same: "same_but_status b a" using report_prepared_same by (fastforce simp: same_but_status_def)
    have "always (claims_ok x r) (\<lambda>_ _. True) (then_do (if d then report_held x r a n else Ret a)
      (\<lambda>a. serve_account x r a read records)) (((h @ es) @ es') @ [?listed records])" for d n records
      using held [OF same, of records "es @ es' @ [?listed records]"] by simp
    then show "always (claims_ok x r) (\<lambda>_ _. True) (then_do (AskIssuedList (IssuedIn (nn_namespace (ar_account r))) Ret) (\<lambda>reply. case reply of
        Inl err \<Rightarrow> Ret (no_result, Some err)
      | Inr records \<Rightarrow>
          if om_deletion_timestamp (ac_meta a) \<noteq> None \<and> records_naming records (as_account_id (ac_spec a)) = 0
          then then_do (release_account x r a) (\<lambda>failed. Ret (no_result, failed))
          else then_do (if om_deletion_timestamp (ac_meta a) \<noteq> None
                   then report_held x r a (records_naming records (as_account_id (ac_spec a))) else Ret a)
                 (\<lambda>a. serve_account x r a read records))) ((h @ es) @ es')"
      by (simp add: rel split: sum.split del: append_assoc)
  qed simp_all
qed

lemma reconcile_claims: "always (claims_ok x r) (\<lambda>_ _. True) (reconcile_account x r (ar_account r)) []"
proof -
  have "always (claims_ok x r) (\<lambda>_ _. True) (reconcile_present x r a) [EAccount (GetAccount (ar_account r)) (Inr a)]"
    if "om_deletion_timestamp (ac_meta a) = None \<longrightarrow> contains_finalizer (ac_meta a) AccountFinalizer" for a
    by (rule present_claims) (use that in \<open>auto simp: account_in_hand_def deleting_account_def\<close>)
  moreover have "always (claims_ok x r) (\<lambda>_ _. True) (reconcile_present x r a1)
      [EAccount (GetAccount (ar_account r)) (Inr a), EAccount (UpdateAccount (with_finalizer x a)) (Inr a1)]"
    if "om_deletion_timestamp (ac_meta a) = None" for a a1
    by (rule present_claims) (use that in \<open>auto simp: account_in_hand_def deleting_account_def\<close>)
  ultimately show ?thesis
    unfolding reconcile_account_def by (auto split: sum.split)
qed

text \<open>C14: The only writes of a pass beside the object itself are claims on namespaces, each as this operator's
  field owner and for one namespace. A claim names this operator and the clock read just before, and is
  on a namespace that the account in hand does not name and a listed record is still in: it
  is not forced, and the namespace was read to be there right before; or it is forced, and right before an unforced one
  met a conflict, then the namespace was read again, and the date its holder had left there was at
  least five minutes before the clock. A claim is given back only where a read right before
  showed this operator holding it, and the account names the namespace again or no listed
  record is in it.\<close>
theorem claims_sound:
  assumes "runs (reconcile_account x r (ar_account r)) (pre @ EWrite w reply # post)"
  shows "\<exists>a records n. account_in_hand x r pre a \<and>
    EIssuedList (IssuedIn (nn_namespace (ar_account r))) (Inr records) \<in> set pre \<and>
    (claims_here r n pre w \<and> \<not> serves (ac_spec a) n \<and> (\<exists>i \<in> set records. record_namespace i = n) \<or>
     gives_back r n pre w \<and> (serves (ac_spec a) n \<or> (\<forall>i \<in> set records. record_namespace i \<noteq> n)))"
proof -
  have "claims_ok x r pre (EWrite w reply)" using always_runs [OF reconcile_claims assms refl] .
  then show ?thesis unfolding claims_ok_def claim_ok_def by fastforce
qed


section \<open>Taking a claim over\<close>

lemma claimed_said:
  "map_get (om_annotations (ns_meta (claimed account at namespace))) DestroyingIdentitiesSinceAnnotation = format_rfc3339 at"
  by (simp add: claimed_def destruction_claim_for_def map_get_def)

lemma claimed_holder: "nn_namespace account \<noteq> '''' \<Longrightarrow> destruction_holder_of (claimed account at namespace) = account"
  by (simp add: destruction_holder_of_def claimed_def destruction_claim_for_def map_get_def Let_def)

text \<open>What an operator is told that goes for a namespace another holds: its claim is refused, and the namespace read
  after that says since when.\<close>

definition refused_by ::
  "account_reconciler \<Rightarrow> string \<Rightarrow> namespace_object \<Rightarrow> time \<Rightarrow> error \<Rightarrow> namespace_object \<Rightarrow> time \<Rightarrow> event list" where
  "refused_by r name earlier t conflict held now =
     [ENamespace name (Inr earlier), ENow t, EWrite (claim_write r name t False) (Some conflict),
      ENamespace name (Inr held), ENow now]"

text \<open>C18: Going for a namespace another operator holds, from the first read on: the claim is sent unforced,
  the refusal is answered with reading who holds it now, and then, while the holder's last claim is less
  than five minutes old, to the second it was written with, the attempt ends there, with the error that
  says who holds it and for how long it was not heard of; from then on its next step, and its last, is the same claim by force,
  and it ends with whatever the API server answers to that. So a holder that claims once within
  five minutes is asked by nobody to give way, and one that stopped is by the first attempt after.\<close>
theorem claim_handover:
  assumes "nn_namespace holder \<noteq> ''''" "- 62167219200 * second \<le> at" "at < 253402300800 * second"
    and "\<bar>now - at\<bar> < 2 ^ 62" and "is_conflict conflict"
  shows "let attempt = acquire_destruction_claim x r name; last = at - at mod second;
      told = refused_by r name before t conflict (claimed holder at namespace) now
    in (now < last + 5 * minute \<longrightarrow>
        returns attempt told (Some (held_by_since holder (now - last))) \<and> (\<forall>es. runs attempt (told @ es) \<longrightarrow> es = [])) \<and>
      (last + 5 * minute \<le> now \<longrightarrow>
        (\<forall>t' answer. returns attempt (told @ [ENow t', EWrite (claim_write r name t' True) answer]) answer) \<and>
        (\<forall>es. runs attempt (told @ es) \<longrightarrow> es = [] \<or> (\<exists>t'. es = [ENow t']) \<or>
           (\<exists>t' answer. es = [ENow t', EWrite (claim_write r name t' True) answer])))"
proof -
  have "0 \<le> at mod second" "at mod second < second" by (simp_all add: second_def)
  then have "\<bar>now - (at - at mod second)\<bar> < 2 ^ 63" using assms(4) by (simp add: second_def)
  then have since: "time_since now (at - at mod second) = now - (at - at mod second)"
    unfolding time_since_def by linarith
  let ?tail = "take_stale_claim x r name (claimed holder at namespace)"
  have reaches: "after (acquire_destruction_claim x r name) (refused_by r name before t conflict (claimed holder at namespace) now @ es) =
      after ?tail (ENow now # es)" for es
    using assms(5)
    by (simp add: refused_by_def acquire_destruction_claim_def destruction_held_by_def claim_namespace_def claim_write_def)
  then have attempt: "returns (acquire_destruction_claim x r name) (refused_by r name before t conflict (claimed holder at namespace) now @ es) a \<longleftrightarrow>
        returns ?tail (ENow now # es) a"
      "runs (acquire_destruction_claim x r name) (refused_by r name before t conflict (claimed holder at namespace) now @ es) \<longleftrightarrow>
        runs ?tail (ENow now # es)" for es a
    by (simp_all add: returns_def runs_def)
  have tail: "?tail = AskNow (\<lambda>now'. let age = time_since now' (at - at mod second)
      in if age < 5 * minute then Ret (Some (held_by_since holder age)) else claim_namespace r name True Ret)"
    using assms(1) format_parse_seconds [OF assms(2,3)]
    by (simp add: take_stale_claim_def claimed_said claimed_holder destructionClaimStale_def Let_def)
  have forced: "runs (claim_namespace r name True Ret) es \<longleftrightarrow> es = [] \<or> (\<exists>t'. es = [ENow t']) \<or>
      (\<exists>t' answer. es = [ENow t', EWrite (claim_write r name t' True) answer])" for es
    by (auto simp: claim_namespace_def claim_write_def runs_now runs_write)
  show ?thesis
    unfolding Let_def
    using attempt [of "[]"] attempt since
    by (auto simp: tail runs_now forced Let_def) (simp add: claim_namespace_def claim_write_def)
qed

definition ex_holder :: namespaced_name where "ex_holder = \<lparr>nn_namespace = ''ops'', nn_name = ''acc''\<rparr>"

definition ex_other :: account_reconciler where
  "ex_other = \<lparr>ar_account = \<lparr>nn_namespace = ''ops'', nn_name = ''second''\<rparr>, ar_own_token = config_zero\<rparr>"

definition ex_plain :: namespace_object where
  "ex_plain = \<lparr>ns_meta = \<lparr>om_namespace = '''', om_name = ''team-a'', om_uid = ''u'', om_resource_version = ''1'',
     om_generation = 1, om_deletion_timestamp = None, om_finalizers = [], om_labels = [], om_annotations = []\<rparr>\<rparr>"

theorem claim_handover_witness:
  "returns (acquire_destruction_claim ref_extern ex_other ''team-a'')
     (refused_by ex_other ''team-a'' ex_plain 0 (KubeError KubeConflict ''conflict'')
       (claimed ex_holder (1700000000 * second) ex_plain) (1700000100 * second))
     (Some (held_by_since ex_holder (100 * second)))"
  using claim_handover [of ex_holder "1700000000 * second" "1700000100 * second" "KubeError KubeConflict ''conflict''"
      ref_extern ex_other "''team-a''" ex_plain 0 ex_plain]
  by (simp add: ex_holder_def second_def minute_def is_kube_def Let_def)

section \<open>Nothing left\<close>

definition given_back :: "account_reconciler \<Rightarrow> string \<Rightarrow> event list \<Rightarrow> bool" where
  "given_back r n es \<longleftrightarrow>
     (\<exists>err. ENamespace n (Inl err) \<in> set es \<and> is_not_found err) \<or>
     (\<exists>ns. ENamespace n (Inr ns) \<in> set es \<and> destruction_holder_of ns \<noteq> ar_account r) \<or>
     EWrite (ApplyNamespace n [] [] (ar_owner r) False) None \<in> set es"

lemma release_returns: "returns (release_destruction_claim r n) es None \<Longrightarrow> given_back r n es"
  by (auto simp: release_destruction_claim_def given_back_def returns_branches)

lemma made_grows:
  "returns (make_claims x r cs made ns) es made' \<Longrightarrow>
     prefix (cm_unclaimed made) (cm_unclaimed made') \<and> prefix (cm_still_held made) (cm_still_held made') \<and>
     prefix (cm_remaining made) (cm_remaining made')"
proof (induction ns arbitrary: made es)
  case (Cons n ns)
  show ?case
  proof (cases "count_of cs n > 0")
    case True
    with Cons.prems Cons.IH show ?thesis
      by (auto simp: Let_def split: option.splits) (fastforce dest: append_prefixD)+
  next
    case False
    with Cons.prems Cons.IH show ?thesis
      by (auto simp: Let_def split: option.splits) (fastforce dest: append_prefixD)+
  qed
qed simp

lemma make_claims_done:
  assumes "returns (make_claims x r cs made ns) es made'" "cm_still_held made' = []" "cm_remaining made' = []" "n \<in> set ns"
  shows "count_of cs n = 0 \<and> given_back r n es"
  using assms
proof (induction ns arbitrary: made es)
  case (Cons m ns)
  show ?case
  proof (cases "count_of cs m > 0")
    case True
    with Cons.prems(1) obtain es1 es2 made1 where "returns (make_claims x r cs made1 ns) es2 made'" "cm_remaining made1 \<noteq> []"
      by (fastforce simp: Let_def split: option.splits)
    with made_grows [of x r cs made1 ns es2 made'] Cons.prems(3) show ?thesis by simp
  next
    case False
    with Cons.prems(1) obtain es1 es2 failed where es: "es = es1 @ es2" "returns (release_destruction_claim r m) es1 failed"
      and rest: "returns (make_claims x r cs (case failed of
                  None \<Rightarrow> made
                | Some err \<Rightarrow> made\<lparr>cm_still_held := cm_still_held made @ [m @ '' ('' @ error_string (quote x) err @ '')'']\<rparr>) ns) es2 made'"
      by auto
    have "failed = None"
      using made_grows [OF rest] Cons.prems(2) by (cases failed) auto
    with es have "given_back r m es" using release_returns [of r m es1] by (auto simp: given_back_def)
    moreover have "count_of cs n = 0 \<and> given_back r n es" if "n \<in> set ns"
      using Cons.IH [OF rest Cons.prems(2,3) that] es(1) by (auto simp: given_back_def)
    ultimately show ?thesis using False Cons.prems(4) by auto
  qed
qed simp

text \<open>C19: Destruction is reported finished only when no listed record is in a namespace the account does not
  name, and every namespace listed as claimed by this operator was given back: read to be gone or
  held by somebody else, or written without the claim.\<close>
theorem destroyed_means_nothing_left:
  assumes "returns (destroy_identities_in x r a records) es (Inr (a', True))"
  shows "list_all (\<lambda>i. serves (ac_spec a) (record_namespace i)) records \<and>
    (\<exists>listed. ENamespaces (DestroyingIdentitiesLabel, nn_namespace (ar_account r)) (Inr listed) \<in> set es \<and>
       list_all (\<lambda>n. destruction_holder_of n = ar_account r \<longrightarrow> given_back r (om_name (ns_meta n)) es) listed)"
proof -
  obtain listed es1 where es: "es = ENamespaces (DestroyingIdentitiesLabel, nn_namespace (ar_account r)) (Inr listed) # es1"
    using assms by (auto simp: destroy_identities_in_def namespaces_claimed_for_destruction_def returns_branches)
  define taken where "taken = map (\<lambda>n. om_name (ns_meta n)) (filter (\<lambda>n. destruction_holder_of n = ar_account r) listed)"
  define cs where "cs = add_claimed (holding (ac_spec a) [] records) taken"
  have keys: "fst ` set cs = {record_namespace i | i. i \<in> set records \<and> \<not> serves (ac_spec a) (record_namespace i)} \<union> set taken"
    by (simp add: cs_def keys_add_claimed keys_holding)
  have all: "n \<in> fst ` set cs \<Longrightarrow> count_of cs n = 0 \<and> given_back r n es" for n
  proof (cases "cs = []")
    case False
    with assms obtain made es2 es3 where "returns (make_claims x r cs \<lparr>cm_unclaimed = [], cm_still_held = [], cm_remaining = []\<rparr>
        (sort (map fst cs))) es2 made" "es1 = es2 @ es3" "cm_still_held made = []" "cm_remaining made = []"
      unfolding es by (auto simp: destroy_identities_in_def namespaces_claimed_for_destruction_def Let_def returns_branches
          cs_def taken_def)
    then show "n \<in> fst ` set cs \<Longrightarrow> ?thesis"
      using make_claims_done [of x r cs _ "sort (map fst cs)" es2 made n] unfolding es by (auto simp: given_back_def)
  qed simp
  have "serves (ac_spec a) (record_namespace i)" if "i \<in> set records" for i
  proof (rule ccontr)
    assume "\<not> ?thesis"
    with that have "record_namespace i \<in> fst ` set cs" unfolding keys by blast
    moreover have "count_of cs (record_namespace i) > 0"
      unfolding cs_def out_of_scope_count using that \<open>\<not> serves (ac_spec a) (record_namespace i)\<close> by blast
    ultimately show False using all by fastforce
  qed
  moreover have "given_back r (om_name (ns_meta n)) es" if "n \<in> set listed" "destruction_holder_of n = ar_account r" for n
    using that all [of "om_name (ns_meta n)"] unfolding keys by (auto simp: taken_def)
  ultimately show ?thesis unfolding es by (auto simp: list_all_iff)
qed

section \<open>The check at startup\<close>

definition fits :: "account \<Rightarrow> issued list \<Rightarrow> bool" where
  "fits a records \<longleftrightarrow>
     list_all (\<lambda>i. it_account_id (id_status i) = '''' \<or> it_account_id (id_status i) = as_account_id (ac_spec a)) records"

lemma fits_account:
  "returns (case sort_key f (filter (\<lambda>i. it_account_id (id_status i) \<noteq> '''' \<and> it_account_id (id_status i) \<noteq> as_account_id (ac_spec a)) records) of
      [] \<Rightarrow> Ret None | first # rest \<Rightarrow> Ret (Some (g first rest))) es None \<longleftrightarrow> es = [] \<and> fits a records"
proof -
  have "sort_key f xs = [] \<longleftrightarrow> xs = []" for f :: "issued \<Rightarrow> 'b::linorder" and xs
    by (metis length_0_conv length_sort)
  moreover have "returns (case ys of [] \<Rightarrow> Ret None | y # zs \<Rightarrow> Ret (Some (g y zs))) es None \<longleftrightarrow> es = [] \<and> ys = []"
    for ys :: "issued list" by (cases ys) auto
  ultimately show ?thesis by (auto simp: fits_def list_all_iff filter_empty_conv)
qed

text \<open>Given the object and the records, the operator serves exactly when every record names no account or
  the one the object names; with no object it serves, and where either cannot be read it does not.\<close>
theorem selected_account_checked:
  "(returns (check_selected_account selected) [EAccount (GetAccount selected) (Inr a),
      EIssuedList (IssuedIn (nn_namespace selected)) (Inr records)] None \<longleftrightarrow>
    fits a records) \<and>
   (returns (check_selected_account selected) [EAccount (GetAccount selected) (Inl err)] None \<longleftrightarrow> is_not_found err) \<and>
   \<not> returns (check_selected_account selected) [EAccount (GetAccount selected) (Inr a),
      EIssuedList (IssuedIn (nn_namespace selected)) (Inl err)] None"
  by (simp add: check_selected_account_def fits_account)


section \<open>Examples\<close>

definition ex_left :: issued where
  "ex_left = \<lparr>id_meta = ac_meta ex_declared,
     id_spec = \<lparr>ip_subject = ''s'', ip_service_account = \<lparr>is_namespace = ''team-a'', is_name = ''etl'', is_uid = ''u'', is_namespace_uid = ''v''\<rparr>,
       ip_identity = ''''\<rparr>,
     id_status = \<lparr>it_account_id = ''dbx-1'', it_create_sent_at = None, it_service_principal_id = '''', it_client_id = '''',
       it_issuer = '''', it_audience = '''', it_removed_at = None, it_conditions = []\<rparr>\<rparr>"

definition ex_before_claim :: "event list" where
  "ex_before_claim = [EAccount (GetAccount (ar_account ex_account_reconciler)) (Inr ex_declared), ENow 1,
     EIssuedList (IssuedIn ''ops'') (Inr [ex_left]), ENamespaces (DestroyingIdentitiesLabel, ''ops'') (Inr []),
     ENamespace ''team-a'' (Inr ex_plain), ENow 2]"

definition ex_claim :: write_request where
  "ex_claim = ApplyNamespace ''team-a'' (fst (destruction_claim_for (ar_account ex_account_reconciler) 2))
     (snd (destruction_claim_for (ar_account ex_account_reconciler) 2)) (ar_owner ex_account_reconciler) False"

lemma ex_unserved [simp]: "\<not> serves (ac_spec ex_declared) n" "record_namespace ex_left = ''team-a''"
  by (simp_all add: serves_def ex_declared_def record_namespace_def ex_left_def)

lemma ex_before_claim_runs:
  "runs (reconcile_account ref_extern ex_account_reconciler (ar_account ex_account_reconciler)) (ex_before_claim @ EWrite ex_claim None # [])"
proof -
  have spec: "ac_spec (ex_prepared ex_declared) = ac_spec ex_declared" by (simp add: ex_prepared_def)
  have ns: "nn_namespace (ar_account ex_account_reconciler) = ''ops''" by (simp add: ex_account_reconciler_def ex_operator_key_def)
  have count: "holding (ac_spec ex_declared) [] [ex_left] = [(''team-a'', 1)]"
    by (simp add: Let_def record_namespace_def [symmetric])
  have "runs (serve_account ref_extern ex_account_reconciler (ex_prepared ex_declared) (Inl ex_no_file) [ex_left])
      [ENamespaces (DestroyingIdentitiesLabel, ''ops'') (Inr []), ENamespace ''team-a'' (Inr ex_plain), ENow 2, EWrite ex_claim None]"
    using count
    by (simp add: runs_def serve_account_def destroy_identities_in_def namespaces_claimed_for_destruction_def spec ns Let_def
        count_of_def acquire_destruction_claim_def destruction_held_by_def claim_namespace_def ex_claim_def del: holding.simps)
  then show ?thesis
    unfolding runs_def ex_before_claim_def append.simps ex_reads ex_present by simp
qed

theorem claims_sound_witness:
  "\<exists>n. claims_here ex_account_reconciler n ex_before_claim ex_claim \<or> gives_back ex_account_reconciler n ex_before_claim ex_claim"
  using claims_sound [OF ex_before_claim_runs] by blast

theorem destroyed_means_nothing_left_witness:
  "given_back ex_account_reconciler ''team-a''
     [ENamespaces (DestroyingIdentitiesLabel, ''ops'') (Inr [claimed (ar_account ex_account_reconciler) 7 ex_plain]),
      ENamespace ''team-a'' (Inr (claimed (ar_account ex_account_reconciler) 7 ex_plain)),
      EWrite (ApplyNamespace ''team-a'' [] [] (ar_owner ex_account_reconciler) False) None, ENow 1]"
    (is "given_back _ _ ?es")
proof -
  have ns: "nn_namespace (ar_account ex_account_reconciler) = ''ops''" by (simp add: ex_account_reconciler_def ex_operator_key_def)
  then have holder: "destruction_holder_of (claimed (ar_account ex_account_reconciler) 7 ex_plain) = ar_account ex_account_reconciler"
    by (simp add: claimed_holder)
  have name: "om_name (ns_meta (claimed (ar_account ex_account_reconciler) 7 ex_plain)) = ''team-a''"
    by (simp add: claimed_def ex_plain_def)
  have "\<exists>a. returns (destroy_identities_in ref_extern ex_account_reconciler ex_declared []) ?es (Inr (a, True))"
    unfolding returns_def
    by (simp add: destroy_identities_in_def namespaces_claimed_for_destruction_def ns holder name Let_def count_of_def
        release_destruction_claim_def with_condition_def set_condition_def)
  then obtain a where "returns (destroy_identities_in ref_extern ex_account_reconciler ex_declared []) ?es (Inr (a, True))" ..
  from destroyed_means_nothing_left [OF this] show ?thesis by (simp add: ns holder name)
qed

end
