(* ===== verification/ClaimExclusion.thy ===== *)
theory ClaimExclusion
  imports ClaimSafety ServerSideApply
begin

text \<open>
  Several operators claiming one namespace: what their applies do to its labels and annotations under
  server-side apply, which is a parameter with its documented behaviour as the locale
  \<open>claimed_fields\<close>, and that the claims are a lock: an abstract lock over the exchanges of all passes
  of all operators says who holds the namespace, and the namespace says the same. The last part is
  what a forced take-over between operators that share half of a name leaves behind.
\<close>

section \<open>The fields of a claim\<close>

datatype field = Label string | Annotation string

type_synonym fields = "field \<Rightarrow> string option"

definition fields :: "go_map \<Rightarrow> go_map \<Rightarrow> fields" where
  "fields labels annotations f = (case f of Label k \<Rightarrow> map_of labels k | Annotation k \<Rightarrow> map_of annotations k)"

lemma fields_Nil [simp]: "fields [] [] = (\<lambda>_. None)"
  by (simp add: fields_def fun_eq_iff split: field.split)

abbreviation shown :: "namespace_object \<Rightarrow> fields" where
  "shown n \<equiv> fields (om_labels (ns_meta n)) (om_annotations (ns_meta n))"

abbreviation claim_label :: field where "claim_label \<equiv> Label DestroyingIdentitiesLabel"
abbreviation claim_account :: field where "claim_account \<equiv> Annotation DestroyingIdentitiesAccountAnnotation"
abbreviation claim_since :: field where "claim_since \<equiv> Annotation DestroyingIdentitiesSinceAnnotation"

definition claim_of :: "namespaced_name \<Rightarrow> time \<Rightarrow> fields" where
  "claim_of account t = fields (fst (destruction_claim_for account t)) (snd (destruction_claim_for account t))"

lemma claim_of_simps [simp]:
  "claim_of account t claim_label = Some (nn_namespace account)"
  "claim_of account t claim_account = Some (nn_name account)"
  "claim_of account t claim_since = Some (format_rfc3339 t)"
  by (simp_all add: claim_of_def fields_def destruction_claim_for_def)

lemma claim_of_cases: "claim_of account t f = Some v \<Longrightarrow> f \<in> {claim_label, claim_account, claim_since}"
  by (cases f) (auto simp: claim_of_def fields_def destruction_claim_for_def split: if_splits)

text \<open>\<open>drifts\<close> is everybody else, who leave the claim's fields alone.\<close>

locale claimed_fields = server_side_apply applies "value" owners
  for applies :: "'s \<Rightarrow> string \<Rightarrow> fields \<Rightarrow> bool \<Rightarrow> error option \<Rightarrow> 's \<Rightarrow> bool"
    and "value" :: "'s \<Rightarrow> fields" and owners :: "'s \<Rightarrow> field \<Rightarrow> string set" +
  fixes drifts :: "'s \<Rightarrow> 's \<Rightarrow> bool"
  assumes drifting: "drifts s s' \<Longrightarrow> f \<in> {claim_label, claim_account, claim_since} \<Longrightarrow> value s' f = value s f \<and> owners s' f = owners s f"

text \<open>The namespace says that \<open>account\<close> holds it, and its operator owns what says so.\<close>

definition granted :: "fields \<Rightarrow> (field \<Rightarrow> string set) \<Rightarrow> namespaced_name \<Rightarrow> bool" where
  "granted value owners account \<longleftrightarrow>
     value claim_label = Some (nn_namespace account) \<and> field_owner_for account \<in> owners claim_label \<and>
     value claim_account = Some (nn_name account) \<and> field_owner_for account \<in> owners claim_account"

context claimed_fields begin

lemma claim_grants: "applies s (field_owner_for a) (claim_of a t) force None s' \<Longrightarrow> granted (value s') (owners s') a"
  using accepted [of s "field_owner_for a" "claim_of a t" force s'] by (simp add: granted_def merged_def)

lemma claim_keeps:
  assumes "granted (value s) (owners s) a" "applies s (field_owner_for a) (claim_of a t) force answer s'"
  shows "granted (value s') (owners s') a"
proof (cases answer)
  case None
  with assms(2) claim_grants show ?thesis by simp
next
  case (Some err)
  with refused assms(2) consider "value s' = value s" "owners s' = owners s"
    | "merged (value s) (owners s) (field_owner_for a) (claim_of a t) (value s') (owners s')" by blast
  then show ?thesis using assms(1) by cases (simp_all add: granted_def merged_def)
qed

lemma other_conflicts:
  assumes "granted (value s) (owners s) a" "named a" "named b" "a \<noteq> b"
  shows "conflicting (value s) (owners s) (field_owner_for b) (claim_of b t)"
proof -
  have "field_owner_for a \<noteq> field_owner_for b" using assms field_owner_inj by blast
  with assms(1) told_apart [OF assms(4)] show ?thesis
    unfolding conflicting_def granted_def by (metis claim_of_simps(1,2) option.inject)
qed

lemma other_refused:
  assumes "granted (value s) (owners s) a" "named a" "named b" "a \<noteq> b"
    and "applies s (field_owner_for b) (claim_of b t) False answer s'"
  shows "answer \<noteq> None \<and> granted (value s') (owners s') a"
proof -
  have "conflicting (value s) (owners s) (field_owner_for b) (claim_of b t)" using other_conflicts assms by blast
  with accepted [of s "field_owner_for b" "claim_of b t" False s'] refused [of s "field_owner_for b" "claim_of b t" False _ s']
    assms(1,5) show ?thesis by (cases answer) (auto simp: granted_def)
qed

lemma other_gives_back:
  assumes "granted (value s) (owners s) a" "named a" "named b" "a \<noteq> b"
    and "applies s (field_owner_for b) (\<lambda>_. None) force answer s'"
  shows "granted (value s') (owners s') a"
proof -
  have "field_owner_for a \<noteq> field_owner_for b" using assms field_owner_inj by blast
  moreover from assms(5) accepted refused have "value s' = value s \<and> owners s' = owners s \<or>
      merged (value s) (owners s) (field_owner_for b) (\<lambda>_. None) (value s') (owners s')" by (cases answer) blast+
  ultimately show ?thesis using assms(1) by (auto simp: granted_def merged_def)
qed

lemma drifting_keeps: "drifts s s' \<Longrightarrow> granted (value s') (owners s') a = granted (value s) (owners s) a"
  using drifting [of s s' claim_label] drifting [of s s' claim_account] by (simp add: granted_def)

end

section \<open>The lock\<close>

text \<open>Who holds namespace \<open>n\<close> after the exchanges of all passes so far, each with the operator it was of. A
  claim that was accepted takes it; giving back, and a forced claim whose answer is an error, may free it.\<close>

fun lock_step :: "string \<Rightarrow> namespaced_name option \<Rightarrow> namespaced_name \<times> event \<Rightarrow> namespaced_name option" where
  "lock_step n h (a, EWrite (ApplyNamespace m labels annotations owner force) answer) =
     (if m \<noteq> n then h
      else if labels = [] then (if h = Some a then None else h)
      else if answer = None then Some a
      else if force \<and> h \<noteq> Some a then None
      else h)"
| "lock_step n h (a, e) = h"

definition lock :: "string \<Rightarrow> (namespaced_name \<times> event) list \<Rightarrow> namespaced_name option" where
  "lock n log = foldl (lock_step n) None log"

lemma lock_snoc: "lock n [] = None" "lock n (log @ [e]) = lock_step n (lock n log) e"
  by (simp_all add: lock_def)

text \<open>Passes of the operators \<open>ops\<close>, interleaved and stopped anywhere, on the fields of the namespace \<open>n\<close>; a
  read of it shows some state it has had, \<open>vs\<close>, the cache being behind.\<close>

definition on_namespace :: "string \<Rightarrow> event \<Rightarrow> bool" where
  "on_namespace n e \<longleftrightarrow> (\<exists>labels annotations owner force answer. e = EWrite (ApplyNamespace n labels annotations owner force) answer) \<or>
     (\<exists>ns. e = ENamespace n (Inr ns))"

inductive claim_system ::
  "extern \<Rightarrow> account_reconciler set \<Rightarrow> string \<Rightarrow> ('s \<Rightarrow> string \<Rightarrow> fields \<Rightarrow> bool \<Rightarrow> error option \<Rightarrow> 's \<Rightarrow> bool) \<Rightarrow>
     ('s \<Rightarrow> 's \<Rightarrow> bool) \<Rightarrow> ('s \<Rightarrow> fields) \<Rightarrow> 's \<Rightarrow>
     's \<Rightarrow> fields list \<Rightarrow> (namespaced_name \<times> event) list \<Rightarrow> (account_reconciler \<times> event list) list \<Rightarrow> bool"
  for x ops n applies drifts "value" s0 where
  unclaimed: "claim_system x ops n applies drifts value s0 s0 [value s0] [] []"
| begins: "claim_system x ops n applies drifts value s0 s vs log ps \<Longrightarrow> r \<in> ops \<Longrightarrow>
     claim_system x ops n applies drifts value s0 s vs log (ps @ [(r, [])])"
| writes: "claim_system x ops n applies drifts value s0 s vs log (ps @ (r, p) # qs) \<Longrightarrow>
     e = EWrite (ApplyNamespace n labels annotations owner force) answer \<Longrightarrow>
     runs (reconcile_account x r (ar_account r)) (p @ [e]) \<Longrightarrow> applies s owner (fields labels annotations) force answer s' \<Longrightarrow>
     claim_system x ops n applies drifts value s0 s' (value s' # vs) (log @ [(ar_account r, e)]) (ps @ (r, p @ [e]) # qs)"
| reads: "claim_system x ops n applies drifts value s0 s vs log (ps @ (r, p) # qs) \<Longrightarrow> e = ENamespace n (Inr ns) \<Longrightarrow>
     runs (reconcile_account x r (ar_account r)) (p @ [e]) \<Longrightarrow> shown ns \<in> set vs \<Longrightarrow>
     claim_system x ops n applies drifts value s0 s vs (log @ [(ar_account r, e)]) (ps @ (r, p @ [e]) # qs)"
| elsewhere: "claim_system x ops n applies drifts value s0 s vs log (ps @ (r, p) # qs) \<Longrightarrow> \<not> on_namespace n e \<Longrightarrow>
     runs (reconcile_account x r (ar_account r)) (p @ [e]) \<Longrightarrow>
     claim_system x ops n applies drifts value s0 s vs (log @ [(ar_account r, e)]) (ps @ (r, p @ [e]) # qs)"
| others: "claim_system x ops n applies drifts value s0 s vs log ps \<Longrightarrow> drifts s s' \<Longrightarrow>
     claim_system x ops n applies drifts value s0 s' (value s' # vs) log ps"

lemma system_passes:
  assumes "claim_system x ops n applies drifts value s0 s vs log ps" "(r, p) \<in> set ps"
  shows "r \<in> ops \<and> (\<forall>e \<in> set p. (ar_account r, e) \<in> set log) \<and> (\<forall>ns. ENamespace n (Inr ns) \<in> set p \<longrightarrow> shown ns \<in> set vs)"
  using assms
proof (induction arbitrary: r p rule: claim_system.induct)
  case (elsewhere s vs log ps r1 p1 qs e)
  have "\<forall>ns. e \<noteq> ENamespace n (Inr ns)" using elsewhere.hyps(2) by (simp add: on_namespace_def)
  with elsewhere.IH [of r p] elsewhere.IH [of r1 p1] elsewhere.prems show ?case by auto
next
  case (writes s vs log ps r1 p1 qs e labels annotations owner force answer s')
  with writes.IH [of r p] writes.IH [of r1 p1] show ?case by auto
next
  case (reads s vs log ps r1 p1 qs e ns)
  with reads.IH [of r p] reads.IH [of r1 p1] show ?case by auto
qed auto

text \<open>What a pass writes on the namespace is a claim or a giving back, of its own operator.\<close>

lemma claim_shapes:
  assumes "runs (reconcile_account x r (ar_account r)) (p @ [EWrite (ApplyNamespace n labels annotations owner force) answer])"
  shows "owner = field_owner_for (ar_account r) \<and>
    (labels \<noteq> [] \<and> (\<exists>t. fields labels annotations = claim_of (ar_account r) t) \<and>
       (force \<longrightarrow> (\<exists>before t. p = before @ [ENow t] \<and> stale_seen r n before)) \<or>
     labels = [] \<and> annotations = [] \<and> \<not> force)"
  using always_runs [OF reconcile_claims assms refl, unfolded claims_ok_def claim_ok_def]
  by (auto simp: claims_here_def claim_write_def gives_back_def claim_of_def destruction_claim_for_def)

text \<open>An unforced claim is only accepted while the namespace is free or already its operator's, and one is only
  forced after the operator read a state of the namespace, behind or not, whose claim was five
  minutes old on its clock.\<close>

definition takes_free :: "string \<Rightarrow> (namespaced_name \<times> event) list \<Rightarrow> namespaced_name \<times> event \<Rightarrow> bool" where
  "takes_free n pre e \<longleftrightarrow> (\<forall>a labels annotations owner.
     e = (a, EWrite (ApplyNamespace n labels annotations owner False) None) \<and> labels \<noteq> [] \<longrightarrow> lock n pre \<in> {None, Some a})"

definition forces_stale :: "string \<Rightarrow> fields set \<Rightarrow> (namespaced_name \<times> event) list \<Rightarrow> namespaced_name \<times> event \<Rightarrow> bool" where
  "forces_stale n vs pre e \<longleftrightarrow> (\<forall>a labels annotations owner answer.
     e = (a, EWrite (ApplyNamespace n labels annotations owner True) answer) \<longrightarrow>
       (\<exists>v \<in> vs. \<exists>said since now. v claim_since = Some said \<and> parse_rfc3339 said = Some since \<and>
          (a, ENow now) \<in> set pre \<and> destructionClaimStale \<le> time_since now since))"

lemma parse_nothing: "parse_rfc3339 '''' = None"
  by code_simp

lemma forces_stale_mono: "throughout (forces_stale n vs) log \<Longrightarrow> vs \<subseteq> vs' \<Longrightarrow> throughout (forces_stale n vs') log"
  by (erule throughout_mono) (unfold forces_stale_def, blast)

context claimed_fields begin

definition locked_ok :: "string \<Rightarrow> account_reconciler set \<Rightarrow> 's \<Rightarrow> (namespaced_name \<times> event) list \<Rightarrow> bool" where
  "locked_ok n ops s log \<longleftrightarrow> (\<forall>a. lock n log = Some a \<longrightarrow> a \<in> ar_account ` ops \<and> granted (value s) (owners s) a) \<and>
     throughout (takes_free n) log"

lemma written_locked:
  assumes ok: "locked_ok n ops s log" and ops: "r \<in> ops" "\<forall>r \<in> ops. named (ar_account r)"
    and run: "runs (reconcile_account x r (ar_account r)) (p @ [EWrite (ApplyNamespace n labels annotations owner force) answer])"
    and "applies": "applies s owner (fields labels annotations) force answer s'"
  shows "locked_ok n ops s' (log @ [(ar_account r, EWrite (ApplyNamespace n labels annotations owner force) answer)])"
proof -
  let ?a = "ar_account r"
  note shape = claim_shapes [OF run]
  then have owner: "owner = field_owner_for ?a" by blast
  have other: "b \<in> ar_account ` ops \<and> named b \<and> granted (value s) (owners s) b" if "lock n log = Some b" for b
    using ok ops(2) that by (auto simp: locked_ok_def)
  show ?thesis
  proof (cases "labels = []")
    case True
    then have "granted (value s') (owners s') b" if "lock n log = Some b" "b \<noteq> ?a" for b
      using shape "applies" other_gives_back [of s b ?a force answer s'] other [OF that(1)] that(2) ops owner
      by auto
    with True ok other show ?thesis by (auto simp: locked_ok_def lock_snoc takes_free_def)
  next
    case False
    with shape obtain t where sent: "fields labels annotations = claim_of ?a t" by blast
    note "applies" = "applies" [unfolded sent owner]
    have taken: "granted (value s') (owners s') ?a" if "answer = None"
      using that claim_grants "applies" by blast
    have refused: "answer \<noteq> None \<and> granted (value s') (owners s') b" if "lock n log = Some b" "b \<noteq> ?a" "\<not> force" for b
      using other_refused [of s b ?a t answer s'] "applies" other [OF that(1)] that ops by auto
    have kept: "granted (value s') (owners s') b" if "lock n log = Some b" "b = ?a \<or> \<not> force" for b
      using refused [OF that(1)] claim_keeps [of s b t force answer s'] "applies" other [OF that(1)] that(2)
      by (cases "b = ?a") simp_all
    have "a \<in> ar_account ` ops \<and> granted (value s') (owners s') a"
      if "lock_step n (lock n log) (?a, EWrite (ApplyNamespace n labels annotations owner force) answer) = Some a" for a
      using that False taken kept other ops(1) by (auto split: if_splits)
    moreover have "takes_free n log (?a, EWrite (ApplyNamespace n labels annotations owner force) answer)"
      using refused by (cases "lock n log") (auto simp: takes_free_def)
    ultimately show ?thesis using ok unfolding locked_ok_def lock_snoc by simp
  qed
qed

theorem claims_lock:
  assumes "claim_system x ops n applies drifts value s0 s vs log ps" "\<forall>r \<in> ops. named (ar_account r)"
  shows "locked_ok n ops s log \<and> throughout (forces_stale n (set vs)) log"
  using assms(1)
proof (induction rule: claim_system.induct)
  case unclaimed
  then show ?case by (simp add: locked_ok_def lock_snoc)
next
  case (writes s vs log ps r p qs e labels annotations owner force answer s')
  note pass = system_passes [OF writes.hyps(1), of r p]
  have "r \<in> ops" using pass by simp
  note ok = written_locked [OF conjunct1 [OF writes.IH] this assms(2) writes.hyps(3) [unfolded writes.hyps(2)] writes.hyps(4)]
  have "forces_stale n (set (value s' # vs)) log (ar_account r, e)"
    unfolding forces_stale_def
  proof (intro allI impI)
    fix a labels1 annotations1 owner1 answer1
    assume e: "(ar_account r, e) = (a, EWrite (ApplyNamespace n labels1 annotations1 owner1 True) answer1)"
    then have "runs (reconcile_account x r (ar_account r)) (p @ [EWrite (ApplyNamespace n labels1 annotations1 owner1 True) answer1])"
      using writes.hyps(3) by simp
    from claim_shapes [OF this] obtain before t where "p = before @ [ENow t]" "stale_seen r n before" by blast
    then obtain ns since now where st: "ENamespace n (Inr ns) \<in> set p" "ENow now \<in> set p"
      "parse_rfc3339 (map_get (om_annotations (ns_meta ns)) DestroyingIdentitiesSinceAnnotation) = Some since"
      "destructionClaimStale \<le> time_since now since" by simp (erule stale_seenD, blast)
    then have said: "shown ns claim_since = Some (map_get (om_annotations (ns_meta ns)) DestroyingIdentitiesSinceAnnotation)"
      by (cases "map_of (om_annotations (ns_meta ns)) DestroyingIdentitiesSinceAnnotation")
        (simp_all add: fields_def map_get_def parse_nothing)
    from st pass have "shown ns \<in> set (value s' # vs)" "(a, ENow now) \<in> set log" using e by auto
    with said st(3,4) show "\<exists>v \<in> set (value s' # vs). \<exists>said since now. v claim_since = Some said \<and> parse_rfc3339 said = Some since \<and>
          (a, ENow now) \<in> set log \<and> destructionClaimStale \<le> time_since now since" by blast
  qed
  moreover have "throughout (forces_stale n (set (value s' # vs))) log"
    using writes.IH by (auto intro: forces_stale_mono)
  ultimately show ?case using ok writes.hyps(2) by simp
next
  case (reads s vs log ps r p qs e ns)
  then show ?case by (simp add: locked_ok_def lock_snoc takes_free_def forces_stale_def)
next
  case (elsewhere s vs log ps r p qs e)
  have "lock_step n h (ar_account r, e) = h" for h
    using elsewhere.hyps(2) by (cases "(n, h, ar_account r, e)" rule: lock_step.cases) (auto simp: on_namespace_def)
  with elsewhere show ?case by (auto simp: locked_ok_def lock_snoc takes_free_def forces_stale_def on_namespace_def)
next
  case (others s vs log ps s')
  have "throughout (forces_stale n (set (value s' # vs))) log"
    using others.IH by (auto intro: forces_stale_mono)
  with others drifting_keeps [OF others.hyps(2)] show ?case by (simp add: locked_ok_def)
qed

end

lemma granted_holder:
  assumes "granted (shown namespace) owners account" "named account"
  shows "destruction_holder_of namespace = account" "returns (namespace_mints n) [ENamespace n (Inr namespace)] (Inr False)"
  using assms
  by (auto simp: granted_def named_def fields_def destruction_holder_of_def map_get_def Let_def namespace_mints_def)

text \<open>C15: However many passes of however many operators run, interleaved, stopped anywhere and reading
  behind the API server, the claims on a namespace are a lock. Who holds it by the exchanges alone
  is who the namespace names, and while it is held nothing is minted there; an unforced claim is
  accepted only where the namespace is free or already its operator's; and a claim is only forced
  after its operator read a state of the namespace whose date was five minutes old by its clock. What
  is relied on is server-side apply as it is documented.\<close>
theorem claims_are_a_lock:
  assumes "claimed_fields applies value owners drifts"
    and "claim_system x ops n applies drifts value s0 s vs log ps" and "\<forall>r \<in> ops. named (ar_account r)"
  shows "(\<forall>a namespace. lock n log = Some a \<and> shown namespace = value s \<longrightarrow>
      destruction_holder_of namespace = a \<and> returns (namespace_mints n) [ENamespace n (Inr namespace)] (Inr False)) \<and>
    throughout (takes_free n) log \<and> throughout (forces_stale n (set vs)) log"
proof -
  note ok = claimed_fields.claims_lock [OF assms, unfolded claimed_fields.locked_ok_def [OF assms(1)]]
  have "destruction_holder_of namespace = a \<and> returns (namespace_mints n) [ENamespace n (Inr namespace)] (Inr False)"
    if "lock n log = Some a" "shown namespace = value s" for a namespace
    using ok that assms(3) granted_holder [of namespace "owners s" a] by auto
  with ok show ?thesis by blast
qed

section \<open>A take-over between operators that share half of a name\<close>

text \<open>C17: Two operators in one namespace, or with accounts of one name, write the same value into one of the two
  keys that name a holder, and then own it together. When one of them has taken a claim over from the other
  by force and then gives it back, that key stays: in the first case it is the label, and minting stays suspended. No
  operator reads the claim as its own, so none gives it back, and one that does not share that half is
  refused every claim on the namespace as it then stands, and does not take it by force, because nothing says when it was held.\<close>
theorem shared_take_over_sticks:
  assumes "claimed_fields applies value owners drifts"
    and "granted (value s) (owners s) a" "named a" "named b" "a \<noteq> b" "value s claim_since \<noteq> Some (format_rfc3339 t)"
    and "applies s (field_owner_for b) (claim_of b t) True None s1" "applies s1 (field_owner_for b) (\<lambda>_. None) False None s2"
    and "shown namespace = value s2"
  shows "(nn_namespace b = nn_namespace a \<longrightarrow> returns (namespace_mints n) [ENamespace n (Inr namespace)] (Inr False)) \<and>
    (\<forall>r. nn_name (ar_account r) \<noteq> '''' \<longrightarrow> destruction_holder_of namespace \<noteq> ar_account r \<and>
       returns (release_destruction_claim r n) [ENamespace n (Inr namespace)] None) \<and>
    (\<forall>r. named (ar_account r) \<and>
         (nn_namespace b = nn_namespace a \<and> nn_namespace (ar_account r) \<noteq> nn_namespace a \<or>
          nn_name b = nn_name a \<and> nn_name (ar_account r) \<noteq> nn_name a) \<longrightarrow>
       (\<forall>t s3. \<not> applies s2 (ar_owner r) (claim_of (ar_account r) t) False None s3) \<and>
       returns (take_stale_claim x r n namespace) [] (Some (held_by_unsaid x (destruction_holder_of namespace) '''')))"
proof -
  have ab: "field_owner_for a \<noteq> field_owner_for b" using assms(3-5) field_owner_inj by blast
  note ssa = claimed_fields.axioms(1) [OF assms(1)]
  note one = server_side_apply.accepted [OF ssa assms(7)] and two = server_side_apply.accepted [OF ssa assms(8)]
  have label: "if nn_namespace b = nn_namespace a
      then value s2 claim_label = Some (nn_namespace a) \<and> field_owner_for a \<in> owners s2 claim_label
      else value s2 claim_label = None"
    and account: "if nn_name b = nn_name a
      then value s2 claim_account = Some (nn_name a) \<and> field_owner_for a \<in> owners s2 claim_account
      else value s2 claim_account = None"
    and since: "value s2 claim_since = None"
    using one two assms(2,6) ab by (auto simp: merged_def granted_def)
  have said: "map_get (om_annotations (ns_meta namespace)) DestroyingIdentitiesSinceAnnotation = ''''"
    using since [folded assms(9)] by (simp add: fields_def map_get_def)
  have holder: "destruction_holder_of namespace =
      (if nn_namespace b = nn_namespace a then \<lparr>nn_namespace = nn_namespace a, nn_name = ''''\<rparr> else nn_zero)"
    using label [folded assms(9)] account [folded assms(9)] told_apart [OF assms(5)] assms(3)
    by (auto simp: destruction_holder_of_def fields_def map_get_def named_def Let_def split: if_splits)
  have unread: "destruction_holder_of namespace \<noteq> ar_account r" if "nn_name (ar_account r) \<noteq> ''''" for r
    using that by (metis holder namespaced_name.select_convs(2) nn_zero_def)
  have conflict: "\<not> applies s2 (ar_owner r) (claim_of (ar_account r) t') False None s3"
    if "named (ar_account r)" "nn_namespace b = nn_namespace a \<and> nn_namespace (ar_account r) \<noteq> nn_namespace a \<or>
          nn_name b = nn_name a \<and> nn_name (ar_account r) \<noteq> nn_name a" for r t' s3
  proof
    assume "applies s2 (ar_owner r) (claim_of (ar_account r) t') False None s3"
    from server_side_apply.accepted [OF ssa this]
    have "\<not> conflicting (value s2) (owners s2) (ar_owner r) (claim_of (ar_account r) t')" by simp
    moreover have "field_owner_for a \<noteq> ar_owner r" using that assms(3) field_owner_inj by blast
    ultimately show False
      using that(2) label account unfolding conflicting_def by (metis claim_of_simps(1,2) option.inject)
  qed
  have "returns (namespace_mints n) [ENamespace n (Inr namespace)] (Inr False)" if "nn_namespace b = nn_namespace a"
    using label [folded assms(9)] that by (simp add: namespace_mints_def fields_def)
  with unread conflict said show ?thesis
    by (auto simp: release_destruction_claim_def take_stale_claim_def parse_nothing)
qed

section \<open>Server-side apply, written out\<close>

type_synonym managed_claim = "(field, string) managed"

definition others_write :: "managed_claim \<Rightarrow> managed_claim \<Rightarrow> bool" where
  "others_write s s' \<longleftrightarrow> (\<exists>f v ow. f \<notin> {claim_label, claim_account, claim_since} \<and> s' = ((fst s)(f := v), (snd s)(f := ow)))"

interpretation ref_claimed: claimed_fields ref_applies fst snd others_write
  by unfold_locales (auto simp: others_write_def)

definition unclaimed_fields :: managed_claim where "unclaimed_fields = (\<lambda>_. None, \<lambda>_. {})"

lemma exchanges_elsewhere:
  assumes "claim_system x ops n applies drifts value s0 s vs log (ps @ [(r, p)])"
  shows "runs (reconcile_account x r (ar_account r)) (p @ es) \<Longrightarrow> list_all (\<lambda>e. \<not> on_namespace n e) es \<Longrightarrow>
    claim_system x ops n applies drifts value s0 s vs (log @ map (Pair (ar_account r)) es) (ps @ [(r, p @ es)])"
proof (induction es rule: rev_induct)
  case (snoc e es)
  then have "runs (reconcile_account x r (ar_account r)) (p @ es)" using runs_prefix [of _ "p @ es" "[e]"] by simp
  with snoc have "claim_system x ops n applies drifts value s0 s vs (log @ map (Pair (ar_account r)) es) (ps @ (r, p @ es) # [])"
    by simp
  from claim_system.elsewhere [OF this, of e] snoc.prems show ?case by simp
qed (use assms in simp)

definition ex_claimed :: managed_claim where
  "ex_claimed = merge_fields unclaimed_fields (ar_owner ex_account_reconciler) (claim_of (ar_account ex_account_reconciler) 2)"

definition ex_log :: "(namespaced_name \<times> event) list" where
  "ex_log = map (Pair (ar_account ex_account_reconciler)) (ex_before_claim @ [EWrite ex_claim None])"

lemma ex_claims:
  "claim_system ref_extern {ex_account_reconciler, ex_other} ''team-a'' ref_applies others_write fst unclaimed_fields
     ex_claimed [fst ex_claimed, fst unclaimed_fields] ex_log [(ex_account_reconciler, ex_before_claim @ [EWrite ex_claim None])]"
proof -
  let ?r = ex_account_reconciler
  let ?sys = "claim_system ref_extern {?r, ex_other} ''team-a'' ref_applies others_write fst unclaimed_fields"
  obtain es where es: "ex_before_claim = es @ [ENamespace ''team-a'' (Inr ex_plain), ENow 2]"
    and quiet: "list_all (\<lambda>e. \<not> on_namespace ''team-a'' e) es"
    by (simp add: ex_before_claim_def on_namespace_def)
  have run: "runs (reconcile_account ref_extern ?r (ar_account ?r)) fs"
    if "ex_before_claim @ [EWrite ex_claim None] = fs @ gs" for fs gs
    using ex_before_claim_runs that runs_prefix by metis
  have "?sys unclaimed_fields [fst unclaimed_fields] [] ([] @ [(?r, [])])"
    by (rule claim_system.begins [OF claim_system.unclaimed]) simp
  moreover have "runs (reconcile_account ref_extern ?r (ar_account ?r)) ([] @ es)"
    by (rule run [of "[] @ es" "[ENamespace ''team-a'' (Inr ex_plain), ENow 2, EWrite ex_claim None]"]) (simp add: es)
  ultimately have "?sys unclaimed_fields [fst unclaimed_fields] (map (Pair (ar_account ?r)) es) ([] @ (?r, es) # [])"
    using exchanges_elsewhere quiet by fastforce
  note quiet_part = this
  let ?q = "es @ [ENamespace ''team-a'' (Inr ex_plain)]"
  have "runs (reconcile_account ref_extern ?r (ar_account ?r)) ?q"
    by (rule run [of _ "[ENow 2, EWrite ex_claim None]"]) (simp add: es)
  moreover have "shown ex_plain \<in> set [fst unclaimed_fields]" by (simp add: unclaimed_fields_def ex_plain_def)
  ultimately have read: "?sys unclaimed_fields [fst unclaimed_fields] (map (Pair (ar_account ?r)) ?q) ([] @ [(?r, ?q)])"
    using claim_system.reads [OF quiet_part refl] by simp
  have "runs (reconcile_account ref_extern ?r (ar_account ?r)) (?q @ [ENow 2])"
    by (rule run [of _ "[EWrite ex_claim None]"]) (simp add: es)
  from exchanges_elsewhere [OF read this]
  have before: "?sys unclaimed_fields [fst unclaimed_fields] (map (Pair (ar_account ?r)) ex_before_claim)
      ([] @ (?r, ex_before_claim) # [])" by (simp add: on_namespace_def es)
  have "ref_applies unclaimed_fields (ar_owner ?r) (claim_of (ar_account ?r) 2) False None ex_claimed"
    by (simp add: ref_applies_def conflicting_def unclaimed_fields_def ex_claimed_def)
  from claim_system.writes [OF before _ ex_before_claim_runs [unfolded append_Nil2] this [unfolded claim_of_def]]
  show ?thesis by (simp add: ex_claim_def ex_log_def)
qed

lemma ex_named: "named (ar_account ex_account_reconciler)" "named (ar_account ex_other)"
  by (simp_all add: named_def ex_account_reconciler_def ex_operator_key_def ex_other_def)

theorem claims_are_a_lock_witness:
  "lock ''team-a'' ex_log = Some (ar_account ex_account_reconciler) \<and>
   destruction_holder_of (claimed (ar_account ex_account_reconciler) 2 ex_plain) = ar_account ex_account_reconciler"
proof -
  let ?r = ex_account_reconciler
  have lock: "lock ''team-a'' ex_log = Some (ar_account ?r)"
    by (simp add: lock_def ex_log_def ex_before_claim_def ex_claim_def destruction_claim_for_def)
  have "shown (claimed (ar_account ?r) 2 ex_plain) = fst ex_claimed"
    by (auto simp: ex_claimed_def merge_fields_def unclaimed_fields_def claim_of_def claimed_def ex_plain_def fields_def fun_eq_iff
        split: field.split option.split)
  with claims_are_a_lock [OF ref_claimed.claimed_fields_axioms ex_claims] lock ex_named show ?thesis by simp
qed

theorem shared_take_over_sticks_witness:
  "\<exists>namespace. returns (namespace_mints ''team-a'') [ENamespace ''team-a'' (Inr namespace)] (Inr False) \<and>
     destruction_holder_of namespace \<noteq> ar_account ex_account_reconciler \<and> destruction_holder_of namespace \<noteq> ar_account ex_other"
proof -
  obtain t where t: "t = 10 * minute" by blast
  let ?a = "ar_account ex_account_reconciler" and ?b = "ar_account ex_other"
  let ?s1 = "merge_fields ex_claimed (field_owner_for ?b) (claim_of ?b t)"
  let ?s2 = "merge_fields ?s1 (field_owner_for ?b) (\<lambda>_. None)"
  let ?namespace = "ex_plain\<lparr>ns_meta := ns_meta ex_plain\<lparr>om_labels := [(DestroyingIdentitiesLabel, ''ops'')]\<rparr>\<rparr>"
  have ab: "nn_namespace ?a = ''ops''" "nn_namespace ?b = ''ops''" "nn_name ?a \<noteq> nn_name ?b" "nn_name ?a \<noteq> ''''" "nn_name ?b \<noteq> ''''"
    by (simp_all add: ex_account_reconciler_def ex_operator_key_def ex_other_def)
  from ab(3) have "?a \<noteq> ?b" by (rule contrapos_nn) simp
  have ow: "field_owner_for ?a \<noteq> field_owner_for ?b" using field_owner_inj ex_named \<open>?a \<noteq> ?b\<close> by blast
  have granted: "granted (fst ex_claimed) (snd ex_claimed) ?a"
    by (simp add: granted_def ex_claimed_def merge_fields_def)
  have "parse_rfc3339 (format_rfc3339 2) \<noteq> parse_rfc3339 (format_rfc3339 (10 * minute))"
    using format_parse_seconds [of 2] format_parse_seconds [of "10 * minute"] by (simp add: second_def minute_def)
  then have dates: "format_rfc3339 2 \<noteq> format_rfc3339 t" unfolding t by metis
  then have since: "fst ex_claimed claim_since \<noteq> Some (format_rfc3339 t)"
    by (simp add: ex_claimed_def merge_fields_def)
  have one: "ref_applies ex_claimed (field_owner_for ?b) (claim_of ?b t) True None ?s1" by (simp add: ref_applies_def)
  have two: "ref_applies ?s1 (field_owner_for ?b) (\<lambda>_. None) False None ?s2" by (simp add: ref_applies_def conflicting_def)
  have "shown ?namespace = fst ?s2"
  proof
    fix f show "shown ?namespace f = fst ?s2 f"
    proof (cases "f \<in> {claim_label, claim_account, claim_since}")
      case True
      then consider "f = claim_label" | "f = claim_account" | "f = claim_since" by blast
      then show ?thesis
        by cases (simp_all add: merge_fields_def ex_claimed_def unclaimed_fields_def fields_def ex_plain_def ab ow ow [symmetric]
          dates dates [symmetric])
    next
      case False
      then have "claim_of c t f = None" for c t using claim_of_cases [of c t f] by (cases "claim_of c t f") auto
      with False show ?thesis
        by (cases f) (auto simp: merge_fields_def ex_claimed_def unclaimed_fields_def fields_def ex_plain_def)
    qed
  qed
  from shared_take_over_sticks [OF ref_claimed.claimed_fields_axioms granted ex_named \<open>?a \<noteq> ?b\<close> since one two this] ab
  show ?thesis by (intro exI [of _ ?namespace]) simp
qed

end
