(* ===== verification/ClaimRefresh.thy ===== *)
theory ClaimRefresh
  imports ClaimSafety
begin

text \<open>
  That an operator which claims a namespace comes back to refresh its claim: \<open>Reconcile\<close> asks to be called
  again in a minute for as long as anything is left to destroy, whatever became of the account
  itself, so the claim's date is rewritten well before \<open>destructionClaimStale\<close>.
\<close>

section \<open>Coming back in time\<close>

text \<open>A claim, or the attempt at one.\<close>

definition is_claim :: "event \<Rightarrow> bool" where
  "is_claim e \<longleftrightarrow> (\<exists>n labels annotations owner force answer.
     e = EWrite (ApplyNamespace n labels annotations owner force) answer \<and> labels \<noteq> [])"

lemma quiet_claims: "emits no_write p \<Longrightarrow> returns p es a \<Longrightarrow> \<not> list_ex is_claim es"
  by (fastforce dest!: emits_returns simp: list_all_iff list_ex_iff is_claim_def no_write_def)

lemma release_claims: "returns (release_destruction_claim r n) es failed \<Longrightarrow> \<not> list_ex is_claim es"
  by (auto simp: release_destruction_claim_def returns_branches is_claim_def)

lemma make_claims_claims:
  "returns (make_claims x r cs made ns) es made' \<Longrightarrow> list_ex is_claim es \<Longrightarrow> cm_remaining made' \<noteq> []"
proof (induction ns arbitrary: made es)
  case (Cons n ns)
  show ?case
  proof (cases "count_of cs n > 0")
    case True
    with Cons.prems(1) obtain es2 made1 where "returns (make_claims x r cs made1 ns) es2 made'" "cm_remaining made1 \<noteq> []"
      by (fastforce simp: Let_def split: option.splits)
    with made_grows [of x r cs made1 ns es2 made'] show ?thesis by auto
  next
    case False
    with Cons.prems(1) obtain es1 es2 failed made1 where "es = es1 @ es2" "returns (release_destruction_claim r n) es1 failed"
      "returns (make_claims x r cs made1 ns) es2 made'" by auto
    with release_claims [of r n es1 failed] Cons.prems(2) Cons.IH show ?thesis by auto
  qed
qed simp

lemma condition_quiet: "returns (with_condition x a ty st re m) es a' \<Longrightarrow> \<not> list_ex is_claim es"
  by (rule quiet_claims [OF emits_with_condition]) simp

lemma destroy_claims:
  "returns (destroy_identities_in x r a records) es (Inr (a', destroyed)) \<Longrightarrow> list_ex is_claim es \<Longrightarrow> \<not> destroyed"
  using make_claims_claims
  by (auto simp: destroy_identities_in_def namespaces_claimed_for_destruction_def Let_def returns_branches is_claim_def
      dest!: condition_quiet)

lemma failure_not_true [simp]: "oc_status (outcome_for x err) \<noteq> ConditionTrue"
  by (simp add: outcome_for_def Let_def split: failure_kind.split)

lemma account_ready_awaits:
  "returns (report_account_ready x a st re m) es (result, failed) \<Longrightarrow> st \<noteq> ConditionTrue \<Longrightarrow>
     rs_requeue_after result = databricksAccountRetryAfterAwaited"
  by (auto simp: report_account_ready_def retry_after_for_def requeue_after_def)

lemma install_awaits:
  "returns (install x r a read False) es (result, None) \<Longrightarrow> rs_requeue_after result = databricksAccountRetryAfterAwaited"
  by (auto simp: install_def report_account_failure_def Let_def returns_branches dest: account_ready_awaits)

lemma withdraw_awaits:
  "returns (withdraw_and_install x r a read False) es (result, None) \<Longrightarrow> rs_requeue_after result = databricksAccountRetryAfterAwaited"
  by (auto simp: withdraw_and_install_def Let_def built_from_def returns_branches dest: install_awaits)

lemma withdraw_quiet: "returns (withdraw_and_install x r a read destroyed) es out \<Longrightarrow> \<not> list_ex is_claim es"
proof (rule quiet_claims [of "withdraw_and_install x r a read destroyed"])
  show "emits no_write (withdraw_and_install x r a read destroyed)"
    by (auto simp: withdraw_and_install_def install_def Let_def built_from_def
      intro!: emits_then_do emits_new_clients emits_verify emits_account_ready emits_account_failure split: sum.split option.split)
qed

lemma serve_awaits:
  "returns (serve_account x r a read records) es (result, None) \<Longrightarrow> list_ex is_claim es \<Longrightarrow>
     rs_requeue_after result = databricksAccountRetryAfterAwaited"
proof -
  assume run: "returns (serve_account x r a read records) es (result, None)" and claim: "list_ex is_claim es"
  from run obtain es1 es2 es3 a1 destroyed a2 where es: "es = es1 @ es2 @ es3"
    and d: "returns (destroy_identities_in x r a records) es1 (Inr (a1, destroyed))"
    and u: "returns (report_unserved_requests x r a1) es2 (Inr a2)"
    and w: "returns (withdraw_and_install x r a2 read destroyed) es3 (result, None)"
    by (auto simp: serve_account_def returns_branches)
  from u have "\<not> list_ex is_claim es2" by (rule quiet_claims [OF emits_unserved, rotated -1]) simp_all
  with claim es withdraw_quiet [OF w] have "list_ex is_claim es1" by simp
  with destroy_claims [OF d] withdraw_awaits w show ?thesis by simp
qed

lemma present_awaits:
  assumes "returns (reconcile_present x r a) es (result, None)" "list_ex is_claim es"
  shows "rs_requeue_after result = databricksAccountRetryAfterAwaited"
proof -
  have quiet: "\<not> list_ex is_claim es'" if "returns (read_token_claims x p) es' c" for p es' c
    using that by (rule quiet_claims [OF emits_read_token, rotated -1]) simp
  have prepared: "\<not> list_ex is_claim es'" if "returns (report_prepared x b read) es' c" for b read es' c
    using that by (rule quiet_claims [OF emits_report_prepared, rotated -1]) simp
  have held: "\<not> list_ex is_claim es'" if "returns (if d then report_held x r b m else Ret b) es' c" for d b m es' c
    using that by (rule quiet_claims [rotated]) (simp add: emits_report_held)
  have released: "\<not> list_ex is_claim es'" if "returns (release_account x r b) es' c" for b es' c
    using that by (auto simp: release_account_def is_claim_def)
  have listed: "\<not> is_claim (EIssuedList sc reply)" for sc reply by (simp add: is_claim_def)
  from assms(1) obtain es1 es2 es3 es0 read a1 reply where es: "es = es1 @ es2 @ es0 @ es3"
    "returns (read_token_claims x (cf_oidc_token_filepath (ar_own_token r))) es1 read"
    "returns (report_prepared x (with_claims a read) read) es2 a1" "returns (account_records r) es0 reply"
    and rest: "returns (case reply of Inl err \<Rightarrow> Ret (no_result, Some err)
        | Inr records \<Rightarrow>
            (let deleting = (om_deletion_timestamp (ac_meta a1) \<noteq> None);
                 naming = records_naming records (as_account_id (ac_spec a1))
             in if deleting \<and> naming = 0 then
                  then_do (release_account x r a1) (\<lambda>failed. Ret (no_result, failed))
                else
                  then_do (if deleting then report_held x r a1 naming else Ret a1) (\<lambda>a.
                    serve_account x r a read records))) es3 (result, None)"
    unfolding reconcile_present_def returns_then_do by blast
  have "\<not> list_ex is_claim es0" using es(4) listed by (auto simp: account_records_def)
  with assms(2) es(1) quiet [OF es(2)] prepared [OF es(3)] have "list_ex is_claim es3" by simp
  then show ?thesis
    using rest serve_awaits held released
    by (fastforce simp: Let_def returns_branches)
qed

text \<open>C16: An operator that claimed a namespace in a pass, or tried to, and whose pass ended without an error,
  has asked to be called again in a minute, however the account itself fared: five times within the
  age at which its claim could be taken.\<close>
theorem claiming_comes_back:
  assumes "returns (reconcile_account x r (ar_account r)) es (result, None)"
    and "EWrite (ApplyNamespace n labels annotations owner force) answer \<in> set es" "labels \<noteq> []"
  shows "5 * rs_requeue_after result = destructionClaimStale"
proof -
  have claim: "list_ex is_claim es" using assms(2,3) unfolding list_ex_iff is_claim_def by blast
  have quiet: "\<not> is_claim (EAccount q reply)" for q reply by (simp add: is_claim_def)
  have "rs_requeue_after result = databricksAccountRetryAfterAwaited"
    using assms(1) claim quiet present_awaits
    by (fastforce simp: reconcile_account_def returns_branches is_claim_def)
  then show ?thesis by (simp add: destructionClaimStale_def databricksAccountRetryAfterAwaited_def)
qed

definition ex_after_claim :: "account \<Rightarrow> event list" where
  "ex_after_claim a = [ENow 3, EServiceAccounts None (Inr []), ENow 4, ESlot ex_installed,
     EClient (sdk_config_of (declared_config ex_account_reconciler ex_declared)) (Some ex_no_file), ENow 5,
     EAccount (UpdateAccountStatus a) (Inr a)]"

lemma ex_claims_and_returns:
  "\<exists>a result. returns (reconcile_account ref_extern ex_account_reconciler (ar_account ex_account_reconciler))
     (ex_before_claim @ EWrite ex_claim None # ex_after_claim a) (result, None)"
proof -
  have spec: "ac_spec (ex_prepared ex_declared) = ac_spec ex_declared" by (simp add: ex_prepared_def)
  have ns: "nn_namespace (ar_account ex_account_reconciler) = ''ops''" by (simp add: ex_account_reconciler_def ex_operator_key_def)
  have count: "holding (ac_spec ex_declared) [] [ex_left] = [(''team-a'', 1)]"
    by (simp add: Let_def record_namespace_def [symmetric])
  define c where "c = declared_config ex_account_reconciler ex_declared"
  have slot: "built_from ex_installed = (c, True)" by (simp add: ex_installed_def built_from_def slot_set_def c_def)
  have declared: "declared_config ex_account_reconciler (ex_prepared ex_declared\<lparr>ac_status := s1\<rparr>) = c" for s1
    using spec by (simp add: declared_config_def c_def)
  have "\<exists>a result. returns (serve_account ref_extern ex_account_reconciler (ex_prepared ex_declared) (Inl ex_no_file) [ex_left])
      ([ENamespaces (DestroyingIdentitiesLabel, ''ops'') (Inr []), ENamespace ''team-a'' (Inr ex_plain), ENow 2, EWrite ex_claim None] @
       ex_after_claim a) (result, None)"
    using count slot declared ex_new_clients [folded c_def] unfolding ex_after_claim_def c_def [symmetric]
    by (simp add: returns_def serve_account_def destroy_identities_in_def namespaces_claimed_for_destruction_def spec ns Let_def
        count_of_def acquire_destruction_claim_def destruction_held_by_def claim_namespace_def ex_claim_def with_condition_def
        set_condition_def report_unserved_requests_def withdraw_and_install_def install_def report_account_ready_def ignore_not_found_def
        del: holding.simps)
  then obtain a result where "returns (serve_account ref_extern ex_account_reconciler (ex_prepared ex_declared) (Inl ex_no_file) [ex_left])
      ([ENamespaces (DestroyingIdentitiesLabel, ''ops'') (Inr []), ENamespace ''team-a'' (Inr ex_plain), ENow 2, EWrite ex_claim None] @
       ex_after_claim a) (result, None)" by blast
  then show ?thesis
    unfolding returns_def ex_before_claim_def append.simps ex_reads ex_present by (intro exI [of _ a] exI [of _ result]) simp
qed

theorem claiming_comes_back_witness:
  "\<exists>a result. returns (reconcile_account ref_extern ex_account_reconciler (ar_account ex_account_reconciler))
     (ex_before_claim @ EWrite ex_claim None # ex_after_claim a) (result, None) \<and> 5 * rs_requeue_after result = 5 * minute"
proof -
  obtain a result where run: "returns (reconcile_account ref_extern ex_account_reconciler (ar_account ex_account_reconciler))
     (ex_before_claim @ EWrite ex_claim None # ex_after_claim a) (result, None)" using ex_claims_and_returns by blast
  from claiming_comes_back [OF run, of "''team-a''" "fst (destruction_claim_for (ar_account ex_account_reconciler) 2)"
      "snd (destruction_claim_for (ar_account ex_account_reconciler) 2)" "ar_owner ex_account_reconciler" False None]
  have "5 * rs_requeue_after result = 5 * minute"
    by (simp add: ex_claim_def destruction_claim_for_def destructionClaimStale_def)
  with run show ?thesis by blast
qed

end
