(* ===== verification/PassBounds.thy ===== *)
theory PassBounds
  imports ClaimSafety ServiceAccountSafety IssuedSystem
begin

text \<open>
  Every pass ends. A pass is a finite tree, so none waits for itself; this theory bounds how many
  exchanges one can make. \<open>within g p n\<close>: whatever is answered, \<open>p\<close> makes at most \<open>n\<close> exchanges and, on top of
  that, \<open>g e\<close> for each exchange \<open>e\<close> whose answer is a list the pass then goes through.
\<close>

primrec within :: "(event \<Rightarrow> nat) \<Rightarrow> 'a prog \<Rightarrow> nat \<Rightarrow> bool" where
  "within g (Ret a) n = True"
| "within g (AskIssued q k) n = (n > 0 \<and> (\<forall>r. within g (k r) (n - 1 + g (EIssued q r))))"
| "within g (AskIssuedList q k) n = (n > 0 \<and> (\<forall>r. within g (k r) (n - 1 + g (EIssuedList q r))))"
| "within g (AskAccount q k) n = (n > 0 \<and> (\<forall>r. within g (k r) (n - 1 + g (EAccount q r))))"
| "within g (AskServiceAccount q k) n = (n > 0 \<and> (\<forall>r. within g (k r) (n - 1 + g (EServiceAccount q r))))"
| "within g (AskServiceAccounts q k) n = (n > 0 \<and> (\<forall>r. within g (k r) (n - 1 + g (EServiceAccounts q r))))"
| "within g (AskNamespace q k) n = (n > 0 \<and> (\<forall>r. within g (k r) (n - 1 + g (ENamespace q r))))"
| "within g (AskNamespaces q k) n = (n > 0 \<and> (\<forall>r. within g (k r) (n - 1 + g (ENamespaces q r))))"
| "within g (AskIdentities q k) n = (n > 0 \<and> (\<forall>r. within g (k r) (n - 1 + g (EIdentities q r))))"
| "within g (AskPods q k) n = (n > 0 \<and> (\<forall>r. within g (k r) (n - 1 + g (EPods q r))))"
| "within g (AskWrite q k) n = (n > 0 \<and> (\<forall>r. within g (k r) (n - 1 + g (EWrite q r))))"
| "within g (AskPrincipal c q k) n = (n > 0 \<and> (\<forall>r. within g (k r) (n - 1 + g (EPrincipal c q r))))"
| "within g (AskPrincipals c q k) n = (n > 0 \<and> (\<forall>r. within g (k r) (n - 1 + g (EPrincipals c q r))))"
| "within g (AskPolicy c q k) n = (n > 0 \<and> (\<forall>r. within g (k r) (n - 1 + g (EPolicy c q r))))"
| "within g (AskPolicies c q k) n = (n > 0 \<and> (\<forall>r. within g (k r) (n - 1 + g (EPolicies c q r))))"
| "within g (AskCall c q k) n = (n > 0 \<and> (\<forall>r. within g (k r) (n - 1 + g (ECall c q r))))"
| "within g (AskClient q k) n = (n > 0 \<and> (\<forall>r. within g (k r) (n - 1 + g (EClient q r))))"
| "within g (AskFile q k) n = (n > 0 \<and> (\<forall>r. within g (k r) (n - 1 + g (EFile q r))))"
| "within g (AskNow k) n = (n > 0 \<and> (\<forall>r. within g (k r) (n - 1 + g (ENow r))))"
| "within g (AskSlot k) n = (n > 0 \<and> (\<forall>r. within g (k r) (n - 1 + g (ESlot r))))"
| "within g (PutSlot w p) n = (n > 0 \<and> within g p (n - 1 + g (EPut w)))"

lemma within_by_feed:
  "within g p n \<longleftrightarrow> (\<forall>e p'. feed p e = Some p' \<longrightarrow> n > 0 \<and> within g p' (n - 1 + g e))"
  by (cases p) (auto split: event.splits)

lemma within_feed: "within g p n \<Longrightarrow> feed p e = Some p' \<Longrightarrow> n > 0 \<and> within g p' (n - 1 + g e)"
  using within_by_feed by blast

lemma within_more: "within g p m \<Longrightarrow> m \<le> n \<Longrightarrow> within g p n"
proof (induction p arbitrary: m n rule: feed_induct)
  case (1 p)
  have "n > 0 \<and> within g p' (n - 1 + g e)" if f: "feed p e = Some p'" for e p'
    using within_feed [OF "1.prems"(1) f] "1.IH" [OF f, of "m - 1 + g e" "n - 1 + g e"] "1.prems"(2)
    by (cases m; cases n) simp_all
  then show ?case by (subst within_by_feed) blast
qed

lemma within_then: "within g p m \<Longrightarrow> (\<And>a. within g (f a) n) \<Longrightarrow> m + n \<le> k \<Longrightarrow> within g (then_do p f) k"
proof (induction p arbitrary: m k rule: feed_induct)
  case (1 p)
  show ?case
  proof (cases "\<exists>a. p = Ret a")
    case True
    with "1.prems" show ?thesis by (auto intro: within_more [of g _ n])
  next
    case False
    have "k > 0 \<and> within g q (k - 1 + g e)" if f: "feed (then_do p f) e = Some q" for e q
    proof -
      from f False obtain p1 where p1: "feed p e = Some p1" "q = then_do p1 f" by (auto simp: feed_then_do)
      from within_feed [OF "1.prems"(1) p1(1)] "1.IH" [OF p1(1), of "m - 1 + g e" "k - 1 + g e"] "1.prems"(2,3) p1(2)
      show ?thesis by (cases m; cases k) simp_all
    qed
    then show ?thesis by (subst within_by_feed) blast
  qed
qed

lemma within_runs: "within g p n \<Longrightarrow> runs p es \<Longrightarrow> length es \<le> n + sum_list (map g es)"
proof (induction es arbitrary: p n)
  case (Cons e es)
  then obtain p1 where p1: "feed p e = Some p1" "runs p1 es" by (auto simp: runs_def split: option.splits)
  with within_feed [OF Cons.prems(1)] Cons.IH [of p1 "n - 1 + g e"] show ?case by force
qed simp

text \<open>A pass that no exchange takes further has returned.\<close>

lemma feed_some:
  "feed (AskIssued q0 k0) (EIssued q0 r0) \<noteq> None"
  "feed (AskIssuedList q1 k1) (EIssuedList q1 r1) \<noteq> None"
  "feed (AskAccount q2 k2) (EAccount q2 r2) \<noteq> None"
  "feed (AskServiceAccount q3 k3) (EServiceAccount q3 r3) \<noteq> None"
  "feed (AskServiceAccounts q4 k4) (EServiceAccounts q4 r4) \<noteq> None"
  "feed (AskNamespace q5 k5) (ENamespace q5 r5) \<noteq> None"
  "feed (AskNamespaces q6 k6) (ENamespaces q6 r6) \<noteq> None"
  "feed (AskIdentities q7 k7) (EIdentities q7 r7) \<noteq> None"
  "feed (AskPods q8 k8) (EPods q8 r8) \<noteq> None"
  "feed (AskWrite q9 k9) (EWrite q9 r9) \<noteq> None"
  "feed (AskClient q10 k10) (EClient q10 r10) \<noteq> None"
  "feed (AskFile q11 k11) (EFile q11 r11) \<noteq> None"
  "feed (AskPrincipal c q20 k20) (EPrincipal c q20 r20) \<noteq> None"
  "feed (AskPrincipals c q21 k21) (EPrincipals c q21 r21) \<noteq> None"
  "feed (AskPolicy c q22 k22) (EPolicy c q22 r22) \<noteq> None"
  "feed (AskPolicies c q23 k23) (EPolicies c q23 r23) \<noteq> None"
  "feed (AskCall c q24 k24) (ECall c q24 r24) \<noteq> None"
  "feed (AskNow k30) (ENow r30) \<noteq> None"
  "feed (AskSlot k31) (ESlot r31) \<noteq> None"
  "feed (PutSlot w p) (EPut w) \<noteq> None"
  by simp_all

lemma never_stuck: "(\<forall>a. p \<noteq> Ret a) \<Longrightarrow> \<exists>e. feed p e \<noteq> None"
  by (cases p) (simp, (hypsubst, rule exI, rule feed_some)+)

lemma within_step: "within g p m \<Longrightarrow> m \<le> k \<Longrightarrow> (\<And>a. within g (f a) (k - m)) \<Longrightarrow> within g (then_do p f) k"
  using within_then [of g p m f "k - m" k] by simp

text \<open>A piece that needs \<open>m\<close> is known in both forms: alone, and as the first step of more.\<close>

lemma within_both:
  "within g p m \<Longrightarrow> (\<forall>n. m \<le> n \<longrightarrow> within g p n) \<and>
     (\<forall>f k. m \<le> k \<longrightarrow> (\<forall>a. within g (f a) (k - m)) \<longrightarrow> within g (then_do p f) k)"
  using within_more within_step by blast

lemmas cases_of_code = sum.split option.split bool.split prod.split record_state.split list.split clients.split

section \<open>A record's pass\<close>

abbreviation (input) plain :: "event \<Rightarrow> nat" where "plain \<equiv> (\<lambda>_. 0)"

lemma within_ready: "within plain (report_ready x i s re m) 2"
  by (simp add: report_ready_def set_condition_def)

lemma within_failure: "within plain (report_failure x i out) 2"
  by (simp add: report_failure_def within_both [OF within_ready] split: cases_of_code)

lemma within_clients:
  "within plain (create_service_principal c i) 1" "within plain (find_service_principal x c i) 2"
  "within plain (service_principal_exists c sp) 1" "within plain (delete_service_principal c sp) 1"
  "within plain (ensure_federation_policy x c sp iss sub aud) 3"
  by (simp_all add: create_service_principal_def find_service_principal_def service_principal_exists_def
      delete_service_principal_def ensure_federation_policy_def restate_federation_policy_def Let_def
      split: cases_of_code)

lemma within_reads:
  "within plain (issuer_and_audience x r) 1" "within plain (token_issuer x r) 1" "within plain (still_wanted x r i) 1"
  "within plain (databricks_account_serves a n) 1" "within plain (destruction_held_by n) 1"
  by (simp_all add: issuer_and_audience_def token_issuer_def read_token_claims_def still_wanted_def
      databricks_account_serves_def destruction_held_by_def split: cases_of_code)

lemmas record_steps =
  within_ready [THEN within_both] within_failure [THEN within_both] within_clients [THEN within_both]
  within_reads [THEN within_both]

lemma within_write_policy: "within plain (write_policy x c i iss aud) 5"
  by (simp add: write_policy_def Let_def record_steps split: cases_of_code)

lemma within_converge: "within plain (converge x r c i) 10"
  by (simp add: converge_def converge_known_def converge_unsent_def converge_sent_def adopt_def Let_def record_steps
      within_both [OF within_write_policy] split: cases_of_code)

lemma within_what_to_delete: "within plain (what_to_delete x r c i) 5"
  by (simp add: what_to_delete_def Let_def record_steps split: cases_of_code)

lemma within_destroy: "within plain (destroy_record x r c i) 8"
  by (simp add: destroy_record_def release_record_def Let_def record_steps within_both [OF within_what_to_delete]
      split: cases_of_code)

lemma within_reconcile_issued: "within plain (reconcile_issued x r req) 14"
  by (simp add: reconcile_issued_def reconcile_record_def add_record_finalizer_def delete_record_def
      destroy_because_not_served_def Let_def record_steps within_both [OF within_converge] within_both [OF within_destroy]
      split: cases_of_code)

section \<open>A ServiceAccount's pass\<close>

lemma within_equipment: "within plain (equipment sa entry) 2"
  by (simp add: equipment_def injecting_def Let_def split: cases_of_code)

lemma within_fill_entry: "within plain (fill_entry x account sa request issued) 4"
  by (simp add: fill_entry_def set_condition_def Let_def within_both [OF within_equipment] split: cases_of_code)

lemma within_issued_for: "within plain (issued_for account sa identity) 1"
  by (simp add: issued_for_def split: cases_of_code)

lemma within_issue_record: "within plain (issue_record account sa request) 3"
  by (simp add: issue_record_def Let_def within_both [OF within_issued_for] split: cases_of_code)

lemma within_entry_for: "within plain (entry_for x account sa request minting) 8"
  by (simp add: entry_for_def within_both [OF within_issued_for] within_both [OF within_issue_record]
      within_both [OF within_fill_entry] split: cases_of_code)

lemma within_entries_for: "within plain (entries_for x account sa minting rs) (8 * length rs)"
proof (induction rs)
  case (Cons r rs)
  show ?case
    by (simp add: within_both [OF within_entry_for] within_both [OF Cons.IH] split: cases_of_code)
qed simp

lemma within_apply: "within plain (apply_identities account sa entries) 4"
  by (simp add: apply_identities_def project_identities_def split: cases_of_code)

lemma within_remove: "within plain (remove_identities account sa) 5"
  by (simp add: remove_identities_def Let_def within_both [OF within_apply] split: cases_of_code)

lemma within_write_entries: "within plain (write_entries x account sa entries) 5"
  by (simp add: write_entries_def Let_def within_both [OF within_apply] within_both [OF within_remove] split: cases_of_code)

lemma within_resent: "within plain (resent_identities account sa requested) 1"
  by (simp add: resent_identities_def split: cases_of_code)

text \<open>The identities the ServiceAccount asks this operator for, as the pass read it.\<close>

definition identities_asked :: "extern \<Rightarrow> namespaced_name \<Rightarrow> event \<Rightarrow> nat" where
  "identities_asked x account e =
     (case e of
        EServiceAccount _ (Inr sa) \<Rightarrow> length (understood (requests_for x (om_annotations (sa_meta sa)) account))
      | _ \<Rightarrow> 0)"

lemma within_weight: "within plain p n \<Longrightarrow> emits (\<lambda>e. g e = 0) p \<Longrightarrow> within g p n"
  by (induction p arbitrary: n) simp_all

lemma within_reconcile_identities:
  "length es \<le> 9 + 8 * sum_list (map (identities_asked x account) es)" if "runs (reconcile_identities x account req) es"
proof (cases es)
  case (Cons e es')
  with that obtain reply p where e: "e = EServiceAccount (CachedServiceAccount req) reply"
    and p: "feed (reconcile_identities x account req) e = Some p" "runs p es'"
    by (auto simp: reconcile_identities_def runs_def split: event.splits option.splits if_splits)
  have "within plain p (8 + 8 * identities_asked x account e)"
    using p(1) e
    by (auto simp: reconcile_identities_def identities_asked_def namespace_mints_def Let_def within_reads [THEN within_both]
        within_both [OF within_resent] within_both [OF within_remove] within_both [OF within_entries_for]
        within_both [OF within_write_entries] split: cases_of_code)
  from within_runs [OF this p(2)] Cons show ?thesis by (simp add: sum_list_triv)
qed simp

section \<open>The account's pass\<close>

text \<open>The records and the claimed namespaces a pass was answered, which are what it goes through.\<close>

definition listed_in :: "event \<Rightarrow> nat" where
  "listed_in e =
     (case e of EIssuedList _ (Inr records) \<Rightarrow> length records | ENamespaces _ (Inr ns) \<Rightarrow> length ns | _ \<Rightarrow> 0)"

abbreviation (input) listing :: "event \<Rightarrow> nat" where "listing \<equiv> (\<lambda>e. 7 * listed_in e)"

lemma counted_in_length: "length (counted_in cs k n) \<le> Suc (length cs)"
  by (induction cs k n rule: counted_in.induct) simp_all

lemma holding_length: "length (holding spec cs is) \<le> length cs + length is"
proof (induction "is" arbitrary: cs)
  case (Cons i "is")
  show ?case
    using Cons.IH [of cs] Cons.IH [of "counted_in cs (is_namespace (ip_service_account (id_spec i))) 1"]
      counted_in_length [of cs "is_namespace (ip_service_account (id_spec i))" 1]
    by (simp add: Let_def)
qed simp

lemma add_claimed_length: "length (add_claimed cs ns) \<le> length cs + length ns"
proof (induction ns arbitrary: cs)
  case (Cons n ns)
  show ?case using Cons.IH [of "counted_in cs n 0"] counted_in_length [of cs n 0] by simp
qed simp

lemma within_acquire: "within plain (acquire_destruction_claim x r n) 7"
  by (simp add: acquire_destruction_claim_def claim_namespace_def take_stale_claim_def Let_def
      within_reads [THEN within_both] split: cases_of_code)

lemma within_give_back: "within plain (release_destruction_claim r n) 7"
  by (simp add: release_destruction_claim_def split: cases_of_code)

lemma within_make_claims: "within plain (make_claims x r cs made ns) (7 * length ns)"
proof (induction ns arbitrary: made)
  case (Cons n ns)
  show ?case
    by (simp add: Let_def within_both [OF within_acquire] within_both [OF within_give_back] within_both [OF Cons.IH]
        split: cases_of_code)
qed simp

text \<open>The other pieces go through nothing that is weighed.\<close>

lemma listed_simps [simp]:
  "listed_in (EAccount q1 r1) = 0" "listed_in (EServiceAccounts q2 r2) = 0" "listed_in (EIssued q3 r3) = 0" "listed_in (ENow t) = 0"
  "listed_in (ENamespace n r4) = 0" "listed_in (EWrite w r5) = 0" "listed_in (EFile p r6) = 0" "listed_in (ESlot s) = 0"
  "listed_in (EPut v) = 0" "listed_in (EClient c r7) = 0" "listed_in (ECall d q8 r8) = 0"
  "listed_in (EIssuedList k (Inr is)) = length is" "listed_in (EIssuedList k (Inl e1)) = 0"
  "listed_in (ENamespaces l (Inr ns)) = length ns" "listed_in (ENamespaces l (Inl e2)) = 0"
  by (simp_all add: listed_in_def)

lemma within_condition: "within listing (with_condition x a t s re m) 1"
  by (simp add: with_condition_def set_condition_def)

lemma within_account_ready: "within listing (report_account_ready x a s re m) 2"
  by (simp add: report_account_ready_def within_both [OF within_condition])

lemma within_account_failure: "within listing (report_account_failure x a out) 2"
  by (simp add: report_account_failure_def within_both [OF within_account_ready] split: cases_of_code)

lemma within_account_reads:
  "within listing (read_token_claims x path) 1" "within listing (new_clients cfg) 1" "within listing (verify_account c) 1"
  "within listing (report_prepared x a read) 1" "within listing (report_held x r a n) 1"
  by (simp_all add: read_token_claims_def new_clients_def verify_account_def report_prepared_def report_held_def
      within_both [OF within_condition] split: cases_of_code)

lemmas account_steps =
  within_condition [THEN within_both] within_account_ready [THEN within_both] within_account_failure [THEN within_both]
  within_account_reads [THEN within_both]

lemma within_install: "within listing (install x r a read destroyed) 5"
  by (simp add: install_def Let_def account_steps split: cases_of_code)

lemma within_withdraw: "within listing (withdraw_and_install x r a read destroyed) 7"
  by (simp add: withdraw_and_install_def Let_def within_both [OF within_install] split: cases_of_code)

lemma within_unserved: "within listing (report_unserved_requests x r a) 2"
  by (simp add: report_unserved_requests_def Let_def account_steps split: cases_of_code)

lemma within_claims_made:
  "within listing (make_claims x r cs made ns) (7 * length ns)"
  by (rule within_weight [OF within_make_claims emits_make_claims]) simp_all

lemma within_destroy_identities: "within listing (destroy_identities_in x r a records) (2 + 7 * length records)"
proof -
  have made: "within listing (then_do (make_claims x r (add_claimed (holding (ac_spec a) [] records) taken) made
      (sort (map fst (add_claimed (holding (ac_spec a) [] records) taken)))) f) (Suc (7 * length records + 7 * n))"
    if "length taken \<le> n" "\<And>m. within listing (f m) 1" for taken made n and f :: "claims_made \<Rightarrow> (error + account \<times> bool) prog"
    by (rule within_then [OF within_claims_made that(2)])
      (use that(1) add_claimed_length [of "holding (ac_spec a) [] records" taken] holding_length [of "ac_spec a" "[]" records] in simp)
  have fits: "length (map (\<lambda>n. om_name (ns_meta n)) (filter (\<lambda>n. destruction_holder_of n = ar_account r) ns)) \<le> length ns" for ns
    by simp
  show ?thesis
    unfolding destroy_identities_in_def namespaces_claimed_for_destruction_def Let_def
    by (auto simp: account_steps intro!: made fits split: sum.split)
qed

lemma within_serve: "within listing (serve_account x r a read records) (11 + 7 * length records)"
  by (simp add: serve_account_def within_both [OF within_destroy_identities] within_both [OF within_unserved]
      within_both [OF within_withdraw] split: cases_of_code)

lemma within_present: "within listing (reconcile_present x r a) 15"
  by (simp add: reconcile_present_def account_records_def release_account_def Let_def account_steps
      within_both [OF within_serve] split: cases_of_code)

lemma within_not_selected: "within listing (set_not_selected x r req) 4"
  by (simp add: set_not_selected_def Let_def account_steps split: cases_of_code)

lemma within_reconcile_account: "within listing (reconcile_account x r req) 17"
  by (simp add: reconcile_account_def within_both [OF within_not_selected] within_both [OF within_present]
      split: cases_of_code)

section \<open>Every pass ends\<close>

lemma goes_on: "runs p es \<Longrightarrow> (\<exists>result. returns p es result) \<or> (\<exists>e. runs p (es @ [e]))"
proof (induction es arbitrary: p)
  case Nil
  show ?case
  proof (cases "\<exists>a. p = Ret a")
    case False
    with never_stuck [of p] obtain e p1 where "feed p e = Some p1" by blast
    then show ?thesis by (intro disjI2 exI [of _ e]) (simp add: runs_def)
  qed auto
next
  case (Cons e es)
  then obtain p1 where p1: "feed p e = Some p1" "runs p1 es" by (auto simp: runs_def split: option.splits)
  from Cons.IH [OF p1(2)] p1(1) show ?case by (simp add: runs_def returns_def)
qed

text \<open>C40: Every pass ends: however the outside world answers, a record's pass makes at most 14 exchanges with it, a
  ServiceAccount's at most 9 and 8 for each identity asked for in what it read, and the account's at most
  17 and 7 for each record and each claimed namespace it was listed; and a pass that has not returned
  can always go on.\<close>
theorem every_pass_ends:
  assumes "runs (reconcile_issued x ri req) es1" "runs (reconcile_identities x account req2) es2"
    and "runs (reconcile_account x ra req3) es3"
  shows "length es1 \<le> 14 \<and> length es2 \<le> 9 + 8 * sum_list (map (identities_asked x account) es2) \<and>
    length es3 \<le> 17 + 7 * sum_list (map listed_in es3) \<and>
    ((\<exists>result. returns (reconcile_issued x ri req) es1 result) \<or> (\<exists>e. runs (reconcile_issued x ri req) (es1 @ [e]))) \<and>
    ((\<exists>result. returns (reconcile_identities x account req2) es2 result) \<or> (\<exists>e. runs (reconcile_identities x account req2) (es2 @ [e]))) \<and>
    ((\<exists>result. returns (reconcile_account x ra req3) es3 result) \<or> (\<exists>e. runs (reconcile_account x ra req3) (es3 @ [e])))"
  using within_runs [OF within_reconcile_issued assms(1)] within_reconcile_identities [OF assms(2)]
    within_runs [OF within_reconcile_account assms(3)] goes_on [OF assms(1)] goes_on [OF assms(2)] goes_on [OF assms(3)]
  by (simp add: sum_list_const_mult)

theorem every_pass_ends_witness:
  "length ex_refused \<le> 14 \<and> length ex_pass \<le> 8 + 8 * sum_list (map (identities_asked ref_extern ex_acc) ex_pass) \<and>
   length ex_before_claim \<le> 16 + 7 * sum_list (map listed_in ex_before_claim)"
  using every_pass_ends [OF ex_refused_runs ex_pass_runs [of "Inr ex_written"] ex_before_claim_runs]
  by (simp add: identities_asked_def)

end
