(* ===== verification/PodCache.thy ===== *)
theory PodCache
  imports ServiceAccountController
begin

text \<open>
  \<open>internal/controller/podcache.go\<close> and \<open>cache.go\<close>: what of a pod the operator's cache keeps, and which
  objects it watches where. Lemmas: trimming a pod twice is trimming it once, and the check of
  the pods that the ServiceAccount controller makes answers the same on trimmed pods as on whole
  ones, for any pods.
\<close>

section \<open>What is kept of a pod\<close>

primrec keep_tokens :: "projection list \<Rightarrow> projection list" where
  "keep_tokens [] = []"
| "keep_tokens (s # ss) =
     (case src_token s of
        None \<Rightarrow> keep_tokens ss
      | Some t \<Rightarrow>
          \<lparr>src_token = Some \<lparr>tp_path = tp_path t, tp_audience = tp_audience t, tp_expiration_seconds = None\<rparr>,
           src_downward = None, src_rest = ''''\<rparr> # keep_tokens ss)"

definition keep_audience :: "volume \<Rightarrow> volume" where
  "keep_audience v =
     (let kept = \<lparr>vol_name = vol_name v, vol_projected = None, vol_rest = ''''\<rparr>
      in case vol_projected v of
           None \<Rightarrow> kept
         | Some sources \<Rightarrow>
             (let sources = keep_tokens sources
              in if sources \<noteq> [] then kept\<lparr>vol_projected := Some sources\<rparr> else kept))"

definition trim_pod :: "pod \<Rightarrow> pod" where
  "trim_pod p =
     \<lparr>pod_meta = \<lparr>om_namespace = om_namespace (pod_meta p), om_name = om_name (pod_meta p), om_uid = om_uid (pod_meta p),
        om_resource_version = om_resource_version (pod_meta p), om_generation = 0,
        om_deletion_timestamp = om_deletion_timestamp (pod_meta p), om_finalizers = [], om_labels = [],
        om_annotations = (case map_of (om_annotations (pod_meta p)) ConfigAnnotation of
            None \<Rightarrow> [] | Some given \<Rightarrow> [(ConfigAnnotation, given)])\<rparr>,
      pod_service_account_name = pod_service_account_name p,
      pod_volumes = map keep_audience (pod_volumes p),
      pod_init_containers = [], pod_containers = [], pod_phase = pod_phase p, pod_rest = ''''\<rparr>"

section \<open>What is watched\<close>

text \<open>The namespaces a kind is watched in, \<open>None\<close> being all of them; and whether it is trimmed.\<close>

datatype watched = Pods | DatabricksAccounts | IssuedServicePrincipals | OtherKinds

definition cache_options :: "string \<Rightarrow> watched \<Rightarrow> string list option \<times> bool" where
  "cache_options namespace kind =
     (case kind of
        Pods \<Rightarrow> (None, True)
      | DatabricksAccounts \<Rightarrow> (Some [namespace], False)
      | IssuedServicePrincipals \<Rightarrow> (Some [namespace], False)
      | OtherKinds \<Rightarrow> (None, False))"

section \<open>The check of the pods does not notice\<close>

lemma first_token_kept [simp]: "first_token (keep_tokens ss) wanted = first_token ss wanted"
  by (induction ss) (auto split: option.split)

lemma keep_tokens_none: "keep_tokens ss = [] \<Longrightarrow> first_token ss wanted = None"
  by (metis first_token.simps(1) first_token_kept)

lemma keep_tokens_twice [simp]: "keep_tokens (keep_tokens ss) = keep_tokens ss"
  by (induction ss) (auto split: option.split)

lemma keep_audience_twice [simp]: "keep_audience (keep_audience v) = keep_audience v"
  by (simp add: keep_audience_def Let_def split: option.split)

lemma vol_name_kept [simp]: "vol_name (keep_audience v) = vol_name v"
  by (simp add: keep_audience_def Let_def split: option.split)

lemma token_in_kept [simp]: "token_in_volumes (map keep_audience vs) wanted = token_in_volumes vs wanted"
proof (induction vs)
  case (Cons v vs)
  then show ?case
    by (cases "vol_projected v"; cases "keep_tokens (the (vol_projected v)) = []")
      (auto simp: keep_audience_def Let_def keep_tokens_none split: option.split)
qed simp

lemma token_audience_kept [simp]: "token_audience_of (trim_pod p) profile = token_audience_of p profile"
  by (simp add: token_audience_of_def trim_pod_def)

lemma describes_kept [simp]: "describes (trim_pod p) entry = describes p entry"
  by (simp add: describes_def trim_pod_def map_get_def split: option.split)

lemma trim_pod_simps [simp]:
  "service_account_of (trim_pod p) = service_account_of p" "om_name (pod_meta (trim_pod p)) = om_name (pod_meta p)"
  "om_deletion_timestamp (pod_meta (trim_pod p)) = om_deletion_timestamp (pod_meta p)" "pod_phase (trim_pod p) = pod_phase p"
  by (simp_all add: service_account_of_def trim_pod_def)

lemma shortfall_kept [simp]: "shortfall_of sa entry (trim_pod p) = shortfall_of sa entry p"
  by (simp add: shortfall_of_def)

lemma short_kept: "short_of s sa entry (map trim_pod pods) = short_of s sa entry pods"
  by (simp add: short_of_def filter_map comp_def)

text \<open>C38: Whatever pods there are, the check made on what the cache keeps of them goes on and ends exactly as it
  would on the pods themselves, for every identity: nothing \<open>equipment\<close> reads is trimmed away.
  Trimming what was trimmed changes nothing.\<close>
theorem trimming_unnoticed:
  "(returns (equipment sa entry) (EPods n (Inr (map trim_pod pods)) # es) reply \<longleftrightarrow>
    returns (equipment sa entry) (EPods n (Inr pods) # es) reply) \<and>
   trim_pod (trim_pod p) = trim_pod p"
proof -
  have "trim_pod (trim_pod p) = trim_pod p" by (simp add: trim_pod_def split: option.split)
  then show ?thesis by (simp add: equipment_def short_kept Let_def)
qed

end
