(* ===== verification/Wakeups.thy ===== *)
theory Wakeups
  imports PodCache AccountController ServiceAccountSafety
begin

text \<open>
  What wakes the controllers: the three \<open>SetupWithManager\<close>, as the mapping of a changed object to requests,
  and the cache their passes read. \<open>read_from c p\<close> is the pass \<open>p\<close> with every read answered from the cache
  \<open>c\<close>: what is left are its writes, its reads of the clock and its result. Lemmas: a change that wakes no
  pass over a ServiceAccount is one such a pass does not see, and what changes of an account wakes
  every record.
\<close>

section \<open>The cache\<close>

record cached =
  ca_accounts :: "account list"
  ca_identities :: "databricks_service_account list"
  ca_pods :: "pod list"
  ca_namespaces :: "namespace_object list"
  ca_service_accounts :: "service_account list"
  ca_issued :: "issued list"

definition not_there :: error where "not_there = KubeError KubeNotFound ''not found''"

definition looked_up :: "('o \<Rightarrow> 'k) \<Rightarrow> 'o list \<Rightarrow> 'k \<Rightarrow> error + 'o" where
  "looked_up key os q = (case find (\<lambda>o'. key o' = q) os of None \<Rightarrow> Inl not_there | Some o' \<Rightarrow> Inr o')"

abbreviation account_key :: "account \<Rightarrow> namespaced_name" where "account_key a \<equiv> object_key (ac_meta a)"
abbreviation identities_key :: "databricks_service_account \<Rightarrow> namespaced_name" where "identities_key d \<equiv> object_key (da_meta d)"
abbreviation pod_key :: "pod \<Rightarrow> namespaced_name" where "pod_key p \<equiv> object_key (pod_meta p)"
abbreviation namespace_key :: "namespace_object \<Rightarrow> string" where "namespace_key n \<equiv> om_name (ns_meta n)"
abbreviation service_account_key :: "service_account \<Rightarrow> namespaced_name" where "service_account_key sa \<equiv> object_key (sa_meta sa)"
abbreviation issued_key :: "issued \<Rightarrow> namespaced_name" where "issued_key i \<equiv> object_key (id_meta i)"

definition issued_listed :: "issued_scope \<Rightarrow> issued \<Rightarrow> bool" where
  "issued_listed scope i =
     (case scope of
        IssuedIn ns \<Rightarrow> om_namespace (id_meta i) = ns
      | IssuedToUid ns uid \<Rightarrow> om_namespace (id_meta i) = ns \<and> is_uid (ip_service_account (id_spec i)) = uid
      | IssuedAnywhere \<Rightarrow> True)"

primrec read_from :: "cached \<Rightarrow> 'a prog \<Rightarrow> 'a prog" where
  "read_from c (Ret a) = Ret a"
| "read_from c (AskIssued q k) =
     (case q of GetIssued n \<Rightarrow> read_from c (k (looked_up issued_key (ca_issued c) n)) | _ \<Rightarrow> AskIssued q (\<lambda>r. read_from c (k r)))"
| "read_from c (AskIssuedList q k) = read_from c (k (Inr (filter (issued_listed q) (ca_issued c))))"
| "read_from c (AskAccount q k) =
     (case q of GetAccount n \<Rightarrow> read_from c (k (looked_up account_key (ca_accounts c) n)) | _ \<Rightarrow> AskAccount q (\<lambda>r. read_from c (k r)))"
| "read_from c (AskServiceAccount q k) =
     (case q of
        CachedServiceAccount n \<Rightarrow> read_from c (k (looked_up service_account_key (ca_service_accounts c) n))
      | LiveServiceAccount n \<Rightarrow> AskServiceAccount q (\<lambda>r. read_from c (k r)))"
| "read_from c (AskServiceAccounts q k) =
     read_from c (k (Inr (filter (\<lambda>sa. case q of None \<Rightarrow> True | Some ns \<Rightarrow> om_namespace (sa_meta sa) = ns) (ca_service_accounts c))))"
| "read_from c (AskNamespace n k) = read_from c (k (looked_up namespace_key (ca_namespaces c) n))"
| "read_from c (AskNamespaces q k) =
     read_from c (k (Inr (filter (\<lambda>n. map_of (om_labels (ns_meta n)) (fst q) = Some (snd q)) (ca_namespaces c))))"
| "read_from c (AskIdentities q k) =
     (case q of
        GetIdentities n \<Rightarrow> read_from c (k (looked_up identities_key (ca_identities c) n))
      | _ \<Rightarrow> AskIdentities q (\<lambda>r. read_from c (k r)))"
| "read_from c (AskPods n k) = read_from c (k (Inr (filter (\<lambda>p. om_namespace (pod_meta p) = n) (ca_pods c))))"
| "read_from c (AskWrite q k) = AskWrite q (\<lambda>r. read_from c (k r))"
| "read_from c (AskPrincipal cl q k) = AskPrincipal cl q (\<lambda>r. read_from c (k r))"
| "read_from c (AskPrincipals cl q k) = AskPrincipals cl q (\<lambda>r. read_from c (k r))"
| "read_from c (AskPolicy cl q k) = AskPolicy cl q (\<lambda>r. read_from c (k r))"
| "read_from c (AskPolicies cl q k) = AskPolicies cl q (\<lambda>r. read_from c (k r))"
| "read_from c (AskCall cl q k) = AskCall cl q (\<lambda>r. read_from c (k r))"
| "read_from c (AskClient q k) = AskClient q (\<lambda>r. read_from c (k r))"
| "read_from c (AskFile q k) = AskFile q (\<lambda>r. read_from c (k r))"
| "read_from c (AskNow k) = AskNow (\<lambda>r. read_from c (k r))"
| "read_from c (AskSlot k) = AskSlot (\<lambda>r. read_from c (k r))"
| "read_from c (PutSlot w p) = PutSlot w (read_from c p)"

lemma read_from_then_do [simp]: "read_from c (then_do p f) = then_do (read_from c p) (\<lambda>a. read_from c (f a))"
  by (induction p) (simp_all split: issued_request.split account_request.split service_account_request.split identities_request.split)

section \<open>Changes\<close>

datatype 'o change = Appears 'o | Becomes 'o 'o | Vanishes 'o

text \<open>A list is in any order, before and after.\<close>

definition edited :: "('o \<Rightarrow> 'k) \<Rightarrow> 'o change \<Rightarrow> 'o list \<Rightarrow> 'o list \<Rightarrow> bool" where
  "edited key e os os' =
     (case e of
        Appears n \<Rightarrow> mset os' = add_mset n (mset os)
      | Becomes m n \<Rightarrow> m \<in> set os \<and> key n = key m \<and> add_mset n (mset os) = add_mset m (mset os')
      | Vanishes m \<Rightarrow> mset os = add_mset m (mset os'))"

datatype kube_change =
    OfAccount "account change"
  | OfIdentities "databricks_service_account change"
  | OfPod "pod change"
  | OfNamespace "namespace_object change"
  | OfServiceAccount "service_account change"
  | OfIssued "issued change"

definition changed :: "kube_change \<Rightarrow> cached \<Rightarrow> cached \<Rightarrow> bool" where
  "changed e c c' =
     (case e of
        OfAccount d \<Rightarrow> edited account_key d (ca_accounts c) (ca_accounts c') \<and> c' = c\<lparr>ca_accounts := ca_accounts c'\<rparr>
      | OfIdentities d \<Rightarrow> edited identities_key d (ca_identities c) (ca_identities c') \<and> c' = c\<lparr>ca_identities := ca_identities c'\<rparr>
      | OfPod d \<Rightarrow> edited pod_key d (ca_pods c) (ca_pods c') \<and> c' = c\<lparr>ca_pods := ca_pods c'\<rparr>
      | OfNamespace d \<Rightarrow> edited namespace_key d (ca_namespaces c) (ca_namespaces c') \<and> c' = c\<lparr>ca_namespaces := ca_namespaces c'\<rparr>
      | OfServiceAccount d \<Rightarrow>
          edited service_account_key d (ca_service_accounts c) (ca_service_accounts c') \<and>
          c' = c\<lparr>ca_service_accounts := ca_service_accounts c'\<rparr>
      | OfIssued d \<Rightarrow> edited issued_key d (ca_issued c) (ca_issued c') \<and> c' = c\<lparr>ca_issued := ca_issued c'\<rparr>)"

text \<open>No key is taken twice.\<close>

definition well_keyed :: "cached \<Rightarrow> bool" where
  "well_keyed c \<longleftrightarrow> distinct (map account_key (ca_accounts c)) \<and> distinct (map identities_key (ca_identities c)) \<and>
     distinct (map pod_key (ca_pods c)) \<and> distinct (map namespace_key (ca_namespaces c)) \<and>
     distinct (map service_account_key (ca_service_accounts c)) \<and> distinct (map issued_key (ca_issued c))"

section \<open>The mappings\<close>

datatype kube_object =
    AnAccount account | SomeIdentities databricks_service_account | APod pod | ANamespace namespace_object
  | AServiceAccount service_account | AnIssued issued

text \<open>The set-up of the ServiceAccount controller; that of the records in the operator's namespace; that of the
  account.\<close>

definition service_account_requests :: "extern \<Rightarrow> namespaced_name \<Rightarrow> kube_object \<Rightarrow> namespaced_name list prog" where
  "service_account_requests x account object =
     (case object of
        AnAccount a \<Rightarrow> identities_this_operator_reaches x account a
      | SomeIdentities d \<Rightarrow> Ret [identities_key d]
      | APod p \<Rightarrow> Ret [\<lparr>nn_namespace = om_namespace (pod_meta p), nn_name = service_account_of p\<rparr>]
      | ANamespace n \<Rightarrow> identities_in_namespace x account (namespace_key n)
      | AServiceAccount sa \<Rightarrow> Ret [\<lparr>nn_namespace = om_namespace (sa_meta sa), nn_name = om_name (sa_meta sa)\<rparr>]
      | AnIssued i \<Rightarrow>
          Ret [\<lparr>nn_namespace = is_namespace (ip_service_account (id_spec i)), nn_name = is_name (ip_service_account (id_spec i))\<rparr>])"

definition record_requests :: "string \<Rightarrow> kube_object \<Rightarrow> namespaced_name list prog" where
  "record_requests namespace object =
     (case object of
        AnIssued i \<Rightarrow> Ret [issued_key i]
      | AServiceAccount sa \<Rightarrow>
          AskIssuedList (IssuedToUid namespace (om_uid (sa_meta sa))) (\<lambda>reply.
            (case reply of Inl _ \<Rightarrow> Ret [] | Inr records \<Rightarrow> Ret (issued_requests records)))
      | AnAccount _ \<Rightarrow> wake_every_record
      | _ \<Rightarrow> Ret [])"

definition account_requests :: "namespaced_name \<Rightarrow> kube_object \<Rightarrow> namespaced_name list prog" where
  "account_requests account object =
     (case object of
        AnAccount a \<Rightarrow> Ret [account_key a]
      | AServiceAccount _ \<Rightarrow> Ret [account]
      | _ \<Rightarrow> Ret [])"

section \<open>What an edit leaves alone\<close>

primrec touched :: "'o change \<Rightarrow> 'o set" where
  "touched (Appears n) = {n}"
| "touched (Becomes m n) = {m, n}"
| "touched (Vanishes m) = {m}"

lemma edited_members:
  assumes "edited key e os os'"
  shows "set os - touched e = set os' - touched e" "touched e \<subseteq> set os \<union> set os'"
proof -
  have "set_mset (mset os) - touched e = set_mset (mset os') - touched e \<and> touched e \<subseteq> set os \<union> set os'"
  proof (cases e)
    case (Becomes m n)
    with assms have eq: "add_mset n (mset os) = add_mset m (mset os')" "m \<in> set os" by (simp_all add: edited_def)
    from arg_cong [OF eq(1), of set_mset] have "insert n (set os) = insert m (set os')" by simp
    with Becomes eq(2) show ?thesis by auto
  next
    case (Appears n)
    with assms have "mset os' = add_mset n (mset os)" by (simp add: edited_def)
    from arg_cong [OF this, of set_mset] Appears show ?thesis by auto
  next
    case (Vanishes n)
    with assms have "mset os = add_mset n (mset os')" by (simp add: edited_def)
    from arg_cong [OF this, of set_mset] Vanishes show ?thesis by auto
  qed
  then show "set os - touched e = set os' - touched e" "touched e \<subseteq> set os \<union> set os'" by simp_all
qed

lemma filter_unedited:
  assumes "edited key e os os'" "\<forall>t \<in> touched e. \<not> P t"
  shows "mset (filter P os) = mset (filter P os')"
proof (cases e)
  case (Becomes m n)
  with assms have "add_mset n (mset os) = add_mset m (mset os')" by (simp add: edited_def)
  from arg_cong [OF this, of "filter_mset P"] Becomes assms(2) show ?thesis by simp
qed (use assms in \<open>simp_all add: edited_def\<close>)

lemma looked_up_distinct:
  assumes "distinct (map key os)"
  shows "looked_up key os q = Inr o1 \<longleftrightarrow> o1 \<in> set os \<and> key o1 = q"
    and "looked_up key os q = Inl err \<longleftrightarrow> err = not_there \<and> (\<forall>o1 \<in> set os. key o1 \<noteq> q)"
proof -
  have "find (\<lambda>o1. key o1 = q) os = Some o1 \<longleftrightarrow> o1 \<in> set os \<and> key o1 = q"
    using assms by (induction os) auto
  then show "looked_up key os q = Inr o1 \<longleftrightarrow> o1 \<in> set os \<and> key o1 = q"
    by (auto simp: looked_up_def split: option.splits)
  have none: "(\<forall>o1 \<in> set os. key o1 \<noteq> q) \<longleftrightarrow> find (\<lambda>o1. key o1 = q) os = None" by (auto simp: find_None_iff)
  show "looked_up key os q = Inl err \<longleftrightarrow> err = not_there \<and> (\<forall>o1 \<in> set os. key o1 \<noteq> q)"
    unfolding none by (auto simp: looked_up_def split: option.splits)
qed

lemma looked_up_unedited:
  assumes e: "edited key e os os'" and d: "distinct (map key os)" "distinct (map key os')" and q: "\<forall>t \<in> touched e. key t \<noteq> q"
  shows "looked_up key os q = looked_up key os' q"
proof -
  have "o1 \<in> set os \<longleftrightarrow> o1 \<in> set os'" if "key o1 = q" for o1
    using edited_members(1) [OF e] q that by blast
  then show ?thesis
    using looked_up_distinct [OF d(1), of q] looked_up_distinct [OF d(2), of q] by (cases "looked_up key os q") metis+
qed

lemma edited_same_key:
  assumes e: "edited key e os os'" and d: "distinct (map key os)" "distinct (map key os')"
    and t: "t \<in> touched e" and o1: "o1 \<in> set os \<union> set os'" "key o1 = key t"
  shows "o1 \<in> touched e"
proof (rule ccontr)
  assume "o1 \<notin> touched e"
  with edited_members(1) [OF e] o1(1) have "o1 \<in> set os" "o1 \<in> set os'" by blast+
  moreover from edited_members(2) [OF e] t have "t \<in> set os \<or> t \<in> set os'" by blast
  ultimately have "o1 = t" using d o1(2) unfolding distinct_map by (auto dest: inj_onD)
  with t \<open>o1 \<notin> touched e\<close> show False by simp
qed

section \<open>What a pass over a ServiceAccount sees\<close>

definition asks :: "extern \<Rightarrow> namespaced_name \<Rightarrow> service_account \<Rightarrow> bool" where
  "asks x account sa \<longleftrightarrow>
     (let requested = requests_for x (om_annotations (sa_meta sa)) account in understood requested \<noteq> [] \<or> refused requested \<noteq> [])"

definition pods_of :: "cached \<Rightarrow> service_account \<Rightarrow> pod list" where
  "pods_of c sa = filter (\<lambda>p. om_namespace (pod_meta p) = om_namespace (sa_meta sa) \<and> service_account_of p = om_name (sa_meta sa)) (ca_pods c)"

definition served_in :: "cached \<Rightarrow> namespaced_name \<Rightarrow> string \<Rightarrow> bool" where
  "served_in c account ns \<longleftrightarrow> (case looked_up account_key (ca_accounts c) account of Inl _ \<Rightarrow> False | Inr a \<Rightarrow> serves (ac_spec a) ns)"

definition sees_same :: "extern \<Rightarrow> namespaced_name \<Rightarrow> service_account \<Rightarrow> cached \<Rightarrow> cached \<Rightarrow> bool" where
  "sees_same x account sa c c' \<longleftrightarrow>
     (\<forall>identity. looked_up issued_key (ca_issued c) (record_key account sa identity) =
        looked_up issued_key (ca_issued c') (record_key account sa identity)) \<and>
     mset (pods_of c sa) = mset (pods_of c' sa) \<and>
     looked_up identities_key (ca_identities c) (service_account_key sa) = looked_up identities_key (ca_identities c') (service_account_key sa) \<and>
     (asks x account sa \<longrightarrow>
        looked_up namespace_key (ca_namespaces c) (om_namespace (sa_meta sa)) =
          looked_up namespace_key (ca_namespaces c') (om_namespace (sa_meta sa)) \<and>
        served_in c account (om_namespace (sa_meta sa)) = served_in c' account (om_namespace (sa_meta sa)))"

lemma short_of_pods:
  "short_of s sa entry (filter (\<lambda>p. om_namespace (pod_meta p) = om_namespace (sa_meta sa)) (ca_pods c)) = short_of s sa entry (pods_of c sa)"
proof -
  have "filter (\<lambda>p. shortfall_of sa entry p = Some s) (filter (\<lambda>p. om_namespace (pod_meta p) = om_namespace (sa_meta sa)) (ca_pods c)) =
      filter (\<lambda>p. shortfall_of sa entry p = Some s) (pods_of c sa)"
    unfolding pods_of_def filter_filter by (rule filter_cong) (auto simp: shortfall_of_def)
  then show ?thesis by (simp only: short_of_def)
qed

lemma short_of_mset: "mset ps = mset qs \<Longrightarrow> short_of s sa entry ps = short_of s sa entry qs"
  unfolding short_of_def by (rule properties_for_sort) simp_all

text \<open>A pass that does not tell two caches apart.\<close>

definition blind :: "cached \<Rightarrow> cached \<Rightarrow> 'a prog \<Rightarrow> bool" where
  "blind c c' p \<longleftrightarrow> read_from c p = read_from c' p"

lemma blind_intros [intro!]:
  "blind c c' (Ret a)"
  "blind c c' p \<Longrightarrow> (\<And>a. blind c c' (f a)) \<Longrightarrow> blind c c' (then_do p f)"
  "(\<And>r. blind c c' (k1 r)) \<Longrightarrow> blind c c' (AskWrite w k1)"
  "(\<And>r. blind c c' (k2 r)) \<Longrightarrow> blind c c' (AskNow k2)"
  "(\<And>r. blind c c' (k3 r)) \<Longrightarrow> blind c c' (AskIssued (CreateIssued i) k3)"
  "(\<And>r. blind c c' (k4 r)) \<Longrightarrow> blind c c' (AskIdentities (CreateIdentities d sa) k4)"
  "(\<And>e. s = Inl e \<Longrightarrow> blind c c' (f1 e)) \<Longrightarrow> (\<And>b. s = Inr b \<Longrightarrow> blind c c' (f2 b)) \<Longrightarrow> blind c c' (case_sum f1 f2 s)"
  "(w' = None \<Longrightarrow> blind c c' p1) \<Longrightarrow> (\<And>b. w' = Some b \<Longrightarrow> blind c c' (g1 b)) \<Longrightarrow> blind c c' (case_option p1 g1 w')"
  "(t \<Longrightarrow> blind c c' p2) \<Longrightarrow> (\<not> t \<Longrightarrow> blind c c' p3) \<Longrightarrow> blind c c' (if t then p2 else p3)"
  by (auto simp: blind_def split: sum.split option.split)

lemma blind_reads:
  "looked_up issued_key (ca_issued c) n = looked_up issued_key (ca_issued c') n \<Longrightarrow> (\<And>r. blind c c' (k r)) \<Longrightarrow> blind c c' (AskIssued (GetIssued n) k)"
  "looked_up namespace_key (ca_namespaces c) m = looked_up namespace_key (ca_namespaces c') m \<Longrightarrow> (\<And>r. blind c c' (k1 r)) \<Longrightarrow>
     blind c c' (AskNamespace m k1)"
  "looked_up identities_key (ca_identities c) n = looked_up identities_key (ca_identities c') n \<Longrightarrow> (\<And>r. blind c c' (k2 r)) \<Longrightarrow>
     blind c c' (AskIdentities (GetIdentities n) k2)"
  by (simp_all add: blind_def)

lemma blind_AskPods:
  "k (Inr (filter (\<lambda>p. om_namespace (pod_meta p) = n) (ca_pods c))) = k (Inr (filter (\<lambda>p. om_namespace (pod_meta p) = n) (ca_pods c'))) \<Longrightarrow>
     blind c c' (k (Inr (filter (\<lambda>p. om_namespace (pod_meta p) = n) (ca_pods c')))) \<Longrightarrow> blind c c' (AskPods n k)"
  by (simp add: blind_def)

lemma blind_set_condition: "blind c c' (set_condition x conditions g t s r m)"
  by (auto simp: set_condition_def split: option.split)

lemma equipment_blind:
  assumes "sees_same x account sa c c'" "asks x account sa"
  shows "blind c c' (equipment sa entry)"
proof -
  have "short_of s sa entry (pods_of c sa) = short_of s sa entry (pods_of c' sa)" for s
    using assms(1) by (intro short_of_mset) (simp add: sees_same_def)
  then have "short_of s sa entry (filter (\<lambda>p. om_namespace (pod_meta p) = om_namespace (sa_meta sa)) (ca_pods c)) =
      short_of s sa entry (filter (\<lambda>p. om_namespace (pod_meta p) = om_namespace (sa_meta sa)) (ca_pods c'))" for s
    by (simp only: short_of_pods)
  moreover have "blind c c' (injecting (om_namespace (sa_meta sa)))"
    unfolding injecting_def using assms by (auto intro!: blind_reads simp: sees_same_def)
  ultimately show ?thesis unfolding equipment_def Let_def by (intro blind_AskPods) (auto split: bool.split)
qed

lemma fill_entry_blind:
  "sees_same x account sa c c' \<Longrightarrow> asks x account sa \<Longrightarrow> blind c c' (fill_entry x account sa request issued)"
  unfolding fill_entry_def Let_def by (intro blind_intros equipment_blind blind_set_condition)

lemma entry_for_blind:
  assumes "sees_same x account sa c c'" "asks x account sa"
  shows "blind c c' (entry_for x account sa request minting)"
proof -
  have issued: "blind c c' (issued_for account sa (req_name request))"
    unfolding issued_for_def using assms(1) by (auto intro!: blind_reads simp: sees_same_def)
  then have "blind c c' (issue_record account sa request)"
    unfolding issue_record_def Let_def using assms by (auto intro!: blind_reads split: option.split simp: sees_same_def)
  with issued show ?thesis
    unfolding entry_for_def by (auto intro!: fill_entry_blind [OF assms] split: option.split)
qed

lemma entries_for_blind:
  "sees_same x account sa c c' \<Longrightarrow> asks x account sa \<Longrightarrow> blind c c' (entries_for x account sa minting requests)"
  by (induction requests) (auto intro!: entry_for_blind)

lemma write_entries_blind:
  assumes "sees_same x account sa c c'"
  shows "blind c c' (write_entries x account sa entries)" "blind c c' (remove_identities account sa)"
proof -
  have "blind c c' (project_identities sa)"
    unfolding project_identities_def using assms by (auto intro!: blind_reads simp: sees_same_def)
  then have applied: "blind c c' (apply_identities account sa es)" for es unfolding apply_identities_def by auto
  then show removed: "blind c c' (remove_identities account sa)"
    unfolding remove_identities_def Let_def using assms by (auto intro!: blind_reads simp: sees_same_def)
  from applied removed show "blind c c' (write_entries x account sa entries)" unfolding write_entries_def Let_def by auto
qed

lemma served_from:
  "read_from c (databricks_account_serves account ns) =
     Ret (Inr (\<exists>a. looked_up account_key (ca_accounts c) account = Inr a, served_in c account ns))"
  by (auto simp: databricks_account_serves_def served_in_def looked_up_def not_there_def is_kube_def split: option.split)

lemma resent_blind: "sees_same x account sa c c' \<Longrightarrow> blind c c' (resent_identities account sa requested)"
  unfolding resent_identities_def by (auto intro!: blind_reads simp: sees_same_def)

lemma reconcile_same:
  assumes found: "looked_up service_account_key (ca_service_accounts c) n = looked_up service_account_key (ca_service_accounts c') n"
    and same: "\<And>sa. looked_up service_account_key (ca_service_accounts c) n = Inr sa \<Longrightarrow> sees_same x account sa c c'"
  shows "read_from c (reconcile_identities x account n) = read_from c' (reconcile_identities x account n)"
proof (cases "looked_up service_account_key (ca_service_accounts c) n")
  case (Inr sa)
  note sees = same [OF Inr]
  let ?req = "requests_for x (om_annotations (sa_meta sa)) account" and ?ns = "om_namespace (sa_meta sa)"
  define rest where "rest = (\<lambda>may (requested :: requested) resent. if understood requested = [] \<and> resent = []
      then then_do (remove_identities account sa) (\<lambda>failed. Ret (no_result, failed))
      else then_do (namespace_mints ?ns) (\<lambda>reply. (case reply of
          Inl err \<Rightarrow> Ret (no_result, Some err)
        | Inr minting \<Rightarrow> then_do (entries_for x account sa (minting \<and> may) (understood requested))
            (\<lambda>reply. (case reply of Inl err \<Rightarrow> Ret (no_result, Some err)
               | Inr entries \<Rightarrow> write_entries x account sa (entries @ resent))))))"
  have pass: "read_from d (reconcile_identities x account n) =
      then_do (read_from d (resent_identities account sa ?req)) (\<lambda>reply. read_from d (case reply of
        Inl err \<Rightarrow> Ret (no_result, Some err) | Inr resent \<Rightarrow> rest (served_in d account ?ns) ?req resent))"
    if "looked_up service_account_key (ca_service_accounts d) n = Inr sa" for d
  proof -
    have "(\<exists>a. looked_up account_key (ca_accounts d) account = Inr a) \<and> served_in d account ?ns \<longleftrightarrow> served_in d account ?ns"
      by (auto simp: served_in_def split: sum.splits)
    then show ?thesis
      unfolding rest_def using that by (simp add: reconcile_identities_def served_from Let_def cong: if_cong)
  qed
  show ?thesis
  proof (cases "asks x account sa")
    case True
    then have may: "served_in c account ?ns = served_in c' account ?ns" using sees by (simp add: sees_same_def)
    have "blind c c' (namespace_mints ?ns)"
      unfolding namespace_mints_def using sees True by (auto intro!: blind_reads simp: sees_same_def)
    then have "blind c c' (rest may ?req resent)" for may resent
      unfolding rest_def by (intro blind_intros write_entries_blind [OF sees] entries_for_blind [OF sees True])
    then have "blind c c' (then_do (resent_identities account sa ?req) (\<lambda>reply. (case reply of
        Inl err \<Rightarrow> Ret (no_result, Some err) | Inr resent \<Rightarrow> rest (served_in c' account ?ns) ?req resent)))"
      by (intro blind_intros resent_blind [OF sees])
    then show ?thesis unfolding pass [OF Inr] pass [OF Inr [unfolded found]] may by (simp only: blind_def read_from_then_do)
  next
    case False
    have "blind c c' (remove_identities account sa)" by (rule write_entries_blind [OF sees])
    moreover have "resent_identities account sa ?req = Ret (Inr [])" "understood ?req = []"
      using False by (simp_all add: asks_def resent_identities_def Let_def)
    ultimately show ?thesis unfolding pass [OF Inr] pass [OF Inr [unfolded found]] rest_def by (simp add: blind_def)
  qed
next
  case (Inl err)
  then show ?thesis using found by (simp add: reconcile_identities_def)
qed

section \<open>Whom a change wakes\<close>

primrec objects_of :: "kube_change \<Rightarrow> kube_object set" where
  "objects_of (OfAccount e) = AnAccount ` touched e"
| "objects_of (OfIdentities e) = SomeIdentities ` touched e"
| "objects_of (OfPod e) = APod ` touched e"
| "objects_of (OfNamespace e) = ANamespace ` touched e"
| "objects_of (OfServiceAccount e) = AServiceAccount ` touched e"
| "objects_of (OfIssued e) = AnIssued ` touched e"

definition mapped :: "cached \<Rightarrow> (kube_object \<Rightarrow> namespaced_name list prog) \<Rightarrow> kube_object \<Rightarrow> namespaced_name set" where
  "mapped c requests object = (case read_from c (requests object) of Ret ns \<Rightarrow> set ns | _ \<Rightarrow> {})"

text \<open>What controller-runtime does with a mapping: it asks it of the object of a change, and of an update it asks
  it of the object before and after.\<close>

locale event_handlers =
  fixes enqueued :: "(kube_object \<Rightarrow> namespaced_name set) \<Rightarrow> kube_change \<Rightarrow> namespaced_name set"
  assumes handled: "object \<in> objects_of e \<Longrightarrow> m object \<subseteq> enqueued m e"

definition ref_enqueued :: "(kube_object \<Rightarrow> namespaced_name set) \<Rightarrow> kube_change \<Rightarrow> namespaced_name set" where
  "ref_enqueued m e = \<Union> (m ` objects_of e)"

interpretation ref_handlers: event_handlers ref_enqueued
  by unfold_locales (auto simp: ref_enqueued_def)

lemma in_namespace_mapped:
  "read_from c (identities_in_namespace x account ns) =
     Ret (map service_account_key (filter (\<lambda>sa. om_namespace (sa_meta sa) = ns \<and> asks x account sa) (ca_service_accounts c)))"
  by (simp add: identities_in_namespace_def asks_def Let_def conj_commute)

lemma in_each_mapped:
  "\<exists>requests. read_from c (identities_in_each x account nss) = Ret requests \<and>
     (\<forall>sa \<in> set (ca_service_accounts c). om_namespace (sa_meta sa) \<in> set nss \<and> asks x account sa \<longrightarrow> service_account_key sa \<in> set requests)"
proof (induction nss)
  case (Cons ns nss)
  then obtain requests where r: "read_from c (identities_in_each x account nss) = Ret requests"
    "\<forall>sa \<in> set (ca_service_accounts c). om_namespace (sa_meta sa) \<in> set nss \<and> asks x account sa \<longrightarrow> service_account_key sa \<in> set requests"
    by blast
  then show ?case by (auto simp: in_namespace_mapped)
qed simp

section \<open>A change that wakes nobody\<close>

text \<open>A record under the name of an identity of a ServiceAccount is one that names it.\<close>

definition records_named :: "namespaced_name \<Rightarrow> cached \<Rightarrow> bool" where
  "records_named account c \<longleftrightarrow>
     (\<forall>i \<in> set (ca_issued c). \<forall>sa \<in> set (ca_service_accounts c). \<forall>identity. issued_key i = record_key account sa identity \<longrightarrow>
        is_namespace (ip_service_account (id_spec i)) = om_namespace (sa_meta sa) \<and>
        is_name (ip_service_account (id_spec i)) = om_name (sa_meta sa))"

lemma key_eq: "object_key m = n \<longleftrightarrow> n = \<lparr>nn_namespace = om_namespace m, nn_name = om_name m\<rparr>"
  by (auto simp: object_key_def)

lemma served_unedited:
  assumes e: "edited account_key e (ca_accounts c) (ca_accounts c')" and d: "well_keyed c" "well_keyed c'"
    and out: "\<forall>a \<in> touched e. account_key a = account \<longrightarrow> \<not> serves (ac_spec a) ns"
  shows "served_in c account ns = served_in c' account ns"
proof (cases "\<exists>t \<in> touched e. account_key t = account")
  case True
  then obtain t where t: "t \<in> touched e" "account_key t = account" by blast
  have d: "distinct (map account_key (ca_accounts c))" "distinct (map account_key (ca_accounts c'))"
    using d by (simp_all add: well_keyed_def)
  have "\<not> serves (ac_spec a) ns" if "a \<in> set (ca_accounts c) \<union> set (ca_accounts c')" "account_key a = account" for a
    using edited_same_key [OF e d t(1) that(1)] that(2) t(2) out by simp
  then show ?thesis
    using looked_up_distinct [OF d(1), of account] looked_up_distinct [OF d(2), of account]
    by (auto simp: served_in_def split: sum.split)
next
  case False
  with looked_up_unedited [OF e, of account] d show ?thesis by (simp add: served_in_def well_keyed_def)
qed

lemma unwoken_sees_same:
  assumes c: "changed e c c'" "well_keyed c" "well_keyed c'" "records_named account c" "records_named account c'"
    and sa: "looked_up service_account_key (ca_service_accounts c) n = Inr sa"
    and out: "\<forall>object \<in> objects_of e. n \<notin> mapped c' (service_account_requests x account) object"
  shows "sees_same x account sa c c'"
proof -
  have n: "sa \<in> set (ca_service_accounts c)" "service_account_key sa = n"
    using looked_up_distinct(1) [of service_account_key "ca_service_accounts c" n sa] sa c(2) by (simp_all add: well_keyed_def)
  show ?thesis
  proof (cases e)
    case (OfAccount d)
    with c(1) have d: "edited account_key d (ca_accounts c) (ca_accounts c')" "c' = c\<lparr>ca_accounts := ca_accounts c'\<rparr>"
      by (simp_all add: changed_def)
    have "served_in c account (om_namespace (sa_meta sa)) = served_in c' account (om_namespace (sa_meta sa))" if "asks x account sa"
    proof (rule served_unedited [OF d(1) c(2,3)], intro ballI impI)
      fix a assume a: "a \<in> touched d" "account_key a = account"
      obtain requests where r: "read_from c' (identities_in_each x account (as_namespaces (ac_spec a))) = Ret requests"
        "\<forall>sa \<in> set (ca_service_accounts c'). om_namespace (sa_meta sa) \<in> set (as_namespaces (ac_spec a)) \<and> asks x account sa \<longrightarrow>
           service_account_key sa \<in> set requests"
        using in_each_mapped by blast
      have "ca_service_accounts c' = ca_service_accounts c" by (subst d(2)) simp
      moreover have "n \<notin> set requests"
        using out OfAccount a r(1) by (auto simp: mapped_def service_account_requests_def identities_this_operator_reaches_def)
      ultimately show "\<not> serves (ac_spec a) (om_namespace (sa_meta sa))"
        using r(2) n that by (auto simp: serves_def)
    qed
    moreover obtain os where "c' = c\<lparr>ca_accounts := os\<rparr>" using d(2) by blast
    ultimately show ?thesis by (simp add: sees_same_def pods_of_def)
  next
    case (OfIdentities d)
    with c(1) obtain os where d: "edited identities_key d (ca_identities c) os" "c' = c\<lparr>ca_identities := os\<rparr>"
      by (auto simp: changed_def)
    moreover have "\<forall>t \<in> touched d. identities_key t \<noteq> n"
      using out OfIdentities by (auto simp: mapped_def service_account_requests_def)
    ultimately show ?thesis using looked_up_unedited [OF d(1), of n] c(2,3) n(2) by (simp add: sees_same_def pods_of_def served_in_def well_keyed_def)
  next
    case (OfPod d)
    with c(1) obtain os where d: "edited pod_key d (ca_pods c) os" "c' = c\<lparr>ca_pods := os\<rparr>" by (auto simp: changed_def)
    moreover have "\<forall>p \<in> touched d. \<not> (om_namespace (pod_meta p) = om_namespace (sa_meta sa) \<and> service_account_of p = om_name (sa_meta sa))"
      using out OfPod n(2) by (auto simp: mapped_def service_account_requests_def object_key_def)
    ultimately show ?thesis using filter_unedited [OF d(1)] by (simp add: sees_same_def pods_of_def served_in_def)
  next
    case (OfNamespace d)
    with c(1) obtain os where d: "edited namespace_key d (ca_namespaces c) os" "c' = c\<lparr>ca_namespaces := os\<rparr>" by (auto simp: changed_def)
    moreover have "\<forall>t \<in> touched d. namespace_key t \<noteq> om_namespace (sa_meta sa)" if "asks x account sa"
      using out OfNamespace n that d(2) by (fastforce simp: mapped_def service_account_requests_def in_namespace_mapped)
    ultimately show ?thesis using looked_up_unedited [OF d(1), of "om_namespace (sa_meta sa)"] c(2,3)
      by (simp add: sees_same_def pods_of_def served_in_def well_keyed_def)
  next
    case (OfServiceAccount d)
    with c(1) obtain os where "c' = c\<lparr>ca_service_accounts := os\<rparr>" by (auto simp: changed_def)
    then show ?thesis by (simp add: sees_same_def pods_of_def served_in_def)
  next
    case (OfIssued d)
    with c(1) obtain os where d: "edited issued_key d (ca_issued c) os" "c' = c\<lparr>ca_issued := os\<rparr>" by (auto simp: changed_def)
    have "issued_key t \<noteq> record_key account sa identity" if t: "t \<in> touched d" for t identity
    proof
      assume key: "issued_key t = record_key account sa identity"
      from edited_members(2) [OF d(1)] t have "t \<in> set (ca_issued c) \<or> t \<in> set (ca_issued c')" using d(2) by auto
      with c(4,5) n(1) key d(2) have "is_namespace (ip_service_account (id_spec t)) = om_namespace (sa_meta sa) \<and>
          is_name (ip_service_account (id_spec t)) = om_name (sa_meta sa)" by (auto simp: records_named_def)
      with out OfIssued t n(2) show False by (auto simp: mapped_def service_account_requests_def object_key_def)
    qed
    then show ?thesis using looked_up_unedited [OF d(1)] c(2,3) d(2) by (simp add: sees_same_def pods_of_def served_in_def well_keyed_def)
  qed
qed

lemma unwoken_finds_same:
  assumes c: "changed e c c'" "well_keyed c" "well_keyed c'"
    and out: "\<forall>object \<in> objects_of e. n \<notin> mapped c' (service_account_requests x account) object"
  shows "looked_up service_account_key (ca_service_accounts c) n = looked_up service_account_key (ca_service_accounts c') n"
proof (cases "\<exists>d. e = OfServiceAccount d")
  case True
  then obtain d where "e = OfServiceAccount d" by blast
  with c(1) out have "edited service_account_key d (ca_service_accounts c) (ca_service_accounts c')"
    "\<forall>t \<in> touched d. service_account_key t \<noteq> n"
    by (auto simp: changed_def mapped_def service_account_requests_def object_key_def)
  with looked_up_unedited [OF this(1)] c(2,3) show ?thesis by (simp add: well_keyed_def)
next
  case False
  with c(1) have "ca_service_accounts c' = ca_service_accounts c"
    by (cases e) (simp_all add: changed_def, (metis cached.select_convs(5) cached.update_convs cached.surjective)+)
  then show ?thesis by simp
qed

text \<open>C26: What wakes a pass over a ServiceAccount is enough: a change of an account, a DatabricksServiceAccount, a
  pod, a namespace, a ServiceAccount or a record that puts no request for this ServiceAccount in the
  queue is one its pass does not see. Read from the cache after the change the pass is the same
  program, of the same writes and the same result, as read from the cache before it. What is relied on
  is that a mapping is asked of the objects of a change, and that a record under the name of an
  identity of a ServiceAccount names it.\<close>
theorem unwoken_sees_no_change:
  assumes "event_handlers enqueued"
    and "changed e c c'" "well_keyed c" "well_keyed c'" "records_named account c" "records_named account c'"
    and "n \<notin> enqueued (mapped c' (service_account_requests x account)) e"
  shows "read_from c' (reconcile_identities x account n) = read_from c (reconcile_identities x account n)"
proof -
  have out: "\<forall>object \<in> objects_of e. n \<notin> mapped c' (service_account_requests x account) object"
    using event_handlers.handled [OF assms(1)] assms(7) by blast
  note found = unwoken_finds_same [OF assms(2-4) out]
  from reconcile_same [OF found unwoken_sees_same [OF assms(2-6) _ out]] show ?thesis by simp
qed

section \<open>What wakes the records\<close>

text \<open>The predicate stands on the watch of the account alone.\<close>

definition record_watch :: "namespaced_name \<Rightarrow> kube_change \<Rightarrow> bool" where
  "record_watch selected e =
     (case e of
        OfAccount (Appears a) \<Rightarrow> databricks_account_changed selected (Created (Some a))
      | OfAccount (Becomes a b) \<Rightarrow> databricks_account_changed selected (Updated (Some a) (Some b))
      | OfAccount (Vanishes a) \<Rightarrow> databricks_account_changed selected (Deleted (ac_meta a))
      | _ \<Rightarrow> True)"

lemma every_record_mapped: "mapped c (record_requests namespace) (AnAccount a) = issued_key ` set (ca_issued c)"
  by (simp add: mapped_def record_requests_def wake_every_record_def issued_requests_def issued_listed_def)

text \<open>An edit of the account that changes whether it is usable or whether it serves some namespace gets past the
  predicate, as does its deletion, and every record there is gets a request; a change of a
  ServiceAccount gets one for each record of its uid.\<close>
theorem records_woken:
  assumes "event_handlers enqueued"
  shows "account_key a = selected \<Longrightarrow> account_key b = selected \<Longrightarrow>
      account_ready selected (Some a) \<noteq> account_ready selected (Some b) \<or> serves (ac_spec a) ns \<noteq> serves (ac_spec b) ns \<Longrightarrow>
      record_watch selected (OfAccount (Becomes a b)) \<and>
      issued_key ` set (ca_issued c) \<subseteq> enqueued (mapped c (record_requests namespace)) (OfAccount (Becomes a b))"
    and "account_key a = selected \<Longrightarrow> record_watch selected (OfAccount (Vanishes a)) \<and>
      issued_key ` set (ca_issued c) \<subseteq> enqueued (mapped c (record_requests namespace)) (OfAccount (Vanishes a))"
    and "i \<in> set (ca_issued c) \<Longrightarrow> om_namespace (id_meta i) = namespace \<Longrightarrow>
      is_uid (ip_service_account (id_spec i)) = om_uid (sa_meta sa) \<Longrightarrow> sa \<in> touched e \<Longrightarrow>
      record_watch selected (OfServiceAccount e) \<and>
      issued_key i \<in> enqueued (mapped c (record_requests namespace)) (OfServiceAccount e)"
proof -
  note handled = event_handlers.handled [OF assms]
  have "sort xs \<noteq> sort ys" if "List.member xs z \<noteq> List.member ys z" for xs ys and z :: string
    using that by (metis List.member_iff set_sort)
  then show "account_key a = selected \<Longrightarrow> account_key b = selected \<Longrightarrow>
      account_ready selected (Some a) \<noteq> account_ready selected (Some b) \<or> serves (ac_spec a) ns \<noteq> serves (ac_spec b) ns \<Longrightarrow>
      record_watch selected (OfAccount (Becomes a b)) \<and>
      issued_key ` set (ca_issued c) \<subseteq> enqueued (mapped c (record_requests namespace)) (OfAccount (Becomes a b))"
    using handled [of "AnAccount a" "OfAccount (Becomes a b)" "mapped c (record_requests namespace)"]
    by (auto simp: record_watch_def every_record_mapped account_served_def serves_def)
  show "account_key a = selected \<Longrightarrow> record_watch selected (OfAccount (Vanishes a)) \<and>
      issued_key ` set (ca_issued c) \<subseteq> enqueued (mapped c (record_requests namespace)) (OfAccount (Vanishes a))"
    using handled [of "AnAccount a" "OfAccount (Vanishes a)" "mapped c (record_requests namespace)"]
    by (auto simp: record_watch_def every_record_mapped)
  assume i: "i \<in> set (ca_issued c)" "om_namespace (id_meta i) = namespace"
    "is_uid (ip_service_account (id_spec i)) = om_uid (sa_meta sa)" "sa \<in> touched e"
  have "issued_key i \<in> mapped c (record_requests namespace) (AServiceAccount sa)"
    using i by (simp add: mapped_def record_requests_def issued_requests_def issued_listed_def)
  with i(4) handled [of "AServiceAccount sa" "OfServiceAccount e" "mapped c (record_requests namespace)"]
  show "record_watch selected (OfServiceAccount e) \<and>
      issued_key i \<in> enqueued (mapped c (record_requests namespace)) (OfServiceAccount e)"
    by (auto simp: record_watch_def)
qed

lemma account_woken:
  assumes "event_handlers enqueued" "sa \<in> touched e"
  shows "account \<in> enqueued (mapped c (account_requests account)) (OfServiceAccount e)"
  using event_handlers.handled [OF assms(1), of "AServiceAccount sa" "OfServiceAccount e" "mapped c (account_requests account)"] assms(2)
  by (auto simp: mapped_def account_requests_def)

section \<open>Examples\<close>

definition ex_cached :: cached where
  "ex_cached = \<lparr>ca_accounts = [ex_serving\<lparr>ac_meta := (ac_meta ex_serving)\<lparr>om_namespace := ''ops'', om_name := ''acc''\<rparr>\<rparr>], ca_identities = [], ca_pods = [], ca_namespaces = [ex_minting],
     ca_service_accounts = [ex_annotated], ca_issued = []\<rparr>"

definition ex_other_pod :: pod where "ex_other_pod = ex_pod\<lparr>pod_service_account_name := ''other''\<rparr>"

theorem unwoken_sees_no_change_witness:
  "read_from (ex_cached\<lparr>ca_pods := [ex_other_pod]\<rparr>) (reconcile_identities ref_extern ex_acc ex_key) =
   read_from ex_cached (reconcile_identities ref_extern ex_acc ex_key)"
proof -
  have "om_name (sa_meta ex_annotated) \<noteq> ''other''" by (simp add: ex_annotated_def)
  then have "ex_key \<notin> ref_enqueued (mapped (ex_cached\<lparr>ca_pods := [ex_other_pod]\<rparr>) (service_account_requests ref_extern ex_acc))
      (OfPod (Appears ex_other_pod))"
    by (simp add: ref_enqueued_def mapped_def service_account_requests_def ex_other_pod_def service_account_of_def ex_key_def
        ex_mistyped_def object_key_def)
  from unwoken_sees_no_change [OF ref_handlers.event_handlers_axioms _ _ _ _ _ this, of ex_cached] show ?thesis
    by (simp add: changed_def edited_def well_keyed_def records_named_def ex_cached_def)
qed

end
