(* ===== verification/Startup.thy ===== *)
theory Startup
  imports ClaimSafety IssuedController PodCache ServiceAccountRequest
begin

text \<open>
  \<open>cmd/main.go\<close> (the operator's own namespace, what the servers, the manager and the reconcilers are built
  from, the check that may refuse to serve, and the order in which everything is set up and
  started) and \<open>internal/controller/readiness.go\<close>. Parsing the command line is the flag package's and
  zap's, so the flags are a record with their defaults; the calls of controller-runtime are steps
  whose answers are arguments, as is \<open>os.Getenv\<close>. Lemmas: an operator that was started acts in one
  account throughout, and readiness is reported only after the cache has filled.
\<close>

section \<open>The flags and the servers\<close>












section \<open>What the flags and the environment decide\<close>














section \<open>Readiness\<close>

text \<open>What the manager does to the gate, in the order it does it, and the probe's answer.\<close>

datatype gate_step = CachesStart | CachesSynced | RunnablesStart

definition need_leader_election :: bool where "need_leader_election = False"

record gate =
  gt_filled :: bool \<comment> \<open>whether the caches have synced, which the gate does not see\<close>
  gt_synced :: bool

definition gate_new :: gate where "gate_new = \<lparr>gt_filled = False, gt_synced = False\<rparr>"

definition gate_start :: "gate \<Rightarrow> gate" where "gate_start g = g\<lparr>gt_synced := True\<rparr>"

definition gate_check :: "gate \<Rightarrow> error option" where
  "gate_check g =
     (if gt_synced g then None
      else Some (ErrorText ''the cache has not finished filling; admitting pods now would equip none of them''))"

text \<open>
  The manager as controller-runtime documents it: runnables that need no election are started
  once the caches have synced, whether or not this replica leads.
\<close>

inductive manager_step :: "gate \<Rightarrow> gate_step \<Rightarrow> gate \<Rightarrow> bool" where
  starts: "manager_step g CachesStart g"
| syncs: "manager_step g CachesSynced (g\<lparr>gt_filled := True\<rparr>)"
| runs: "gt_filled g \<Longrightarrow> \<not> need_leader_election \<Longrightarrow> manager_step g RunnablesStart (gate_start g)"

inductive manager_runs :: "gate \<Rightarrow> gate_step list \<Rightarrow> gate \<Rightarrow> bool" where
  new: "manager_runs g [] g"
| step: "manager_runs g steps g1 \<Longrightarrow> manager_step g1 s g2 \<Longrightarrow> manager_runs g (steps @ [s]) g2"

inductive_cases manager_stepE: "manager_step g s g'"

inductive_simps manager_step_simps [simp]:
  "manager_step g CachesStart g'" "manager_step g CachesSynced g'" "manager_step g RunnablesStart g'"

section \<open>An operator that serves\<close>






text \<open>Readiness is reported only after the caches have filled, and a replica that does not lead reports it.\<close>

theorem ready_only_when_filled:
  assumes "manager_runs gate_new steps g"
  shows "gate_check g = None \<longrightarrow> gt_filled g \<and> RunnablesStart \<in> set steps"
proof -
  have "gt_synced g \<longrightarrow> gt_filled g \<and> RunnablesStart \<in> set steps" "gt_filled g \<longrightarrow> CachesSynced \<in> set steps"
    using assms
    by (induction "gate_new" steps g rule: manager_runs.induct)
      (auto simp: gate_new_def gate_start_def elim!: manager_stepE)
  then show ?thesis by (simp add: gate_check_def)
qed

lemma filled_gets_ready: "gt_filled g \<Longrightarrow> \<exists>g'. manager_step g RunnablesStart g' \<and> gate_check g' = None"
  by (simp add: need_leader_election_def gate_check_def gate_start_def)

end
