(* ===== verification/Spec2Isabelle.thy ===== *)
theory Spec2Isabelle
  imports EndToEnd Ending IssuedLife SlotCalls SharedEntries ClaimExclusion ClaimRefresh PassBounds Wakeups Startup
begin

text \<open>
  A verification development for the Databricks service principal operator, a Kubernetes operator
  written in Go. A ServiceAccount asks for an identity with an annotation; the operator makes a
  service principal in its Databricks account for it, trusts the ServiceAccount's tokens there, and
  its webhook gives the pods a token and a profile to use it with.

  \<^bold>\<open>The parts and how they interact.\<close>
  \<^item> The ServiceAccount controller (\<open>internal/controller/databricksserviceaccount_controller.go\<close>) reads the
    annotations, decides whether an identity may be made, writes one record
    (IssuedDatabricksServicePrincipal) per identity, and shows its owner what the records say in a
    DatabricksServiceAccount. It never reaches Databricks.
  \<^item> The record controller (\<open>issueddatabricksserviceprincipal_controller.go\<close>) is the only one that changes
    anything in Databricks: it creates one service principal for a record, writes its federation policy
    and destroys it when it is no longer wanted.
  \<^item> The account controller (\<open>databricksaccount_controller.go\<close>) installs the clients the record controller
    uses into the one slot (\<open>internal/databricks/account_in_use.go\<close>), withdraws them, and claims the
    namespaces the account stopped naming before anything there is destroyed.
  \<^item> The pod webhook and the request webhook (\<open>internal/webhook\<close>) admit pods and ServiceAccounts.
  \<^item> \<open>cmd/main.go\<close> builds them and refuses to serve in the wrong account.

  \<^bold>\<open>Effects.\<close> A pass of a controller is a value of type \<open>prog\<close> (theory Effects): a tree of requests (to the
  API server or its cache, to Databricks, to the clock, the file system and the slot) branching on the
  answers. \<open>runs p es\<close> says that \<open>p\<close> got through the exchanges \<open>es\<close>; as a prefix of a run is a run,
  every property stated over runs holds for a pass that crashes anywhere. Nothing is assumed about
  the answers. \<open>always\<close> is the program logic the properties are proved with, \<open>emits\<close> the exchanges a
  piece can make at all, \<open>returns\<close> the complete runs.

  \<^bold>\<open>The theories, in the order they build on each other.\<close>
  \<^item> Prelude, Names: Go strings (\<open>Cut\<close>, \<open>TrimSpace\<close>, \<open>Join\<close>, \<open>path.Join\<close>), maps as association lists, names.
  \<^item> Request: \<open>api/v1alpha1/request.go\<close>, the annotations as requests.
  \<^item> ApiTypes: the custom resources of \<open>api/v1alpha1\<close>, the parts of the Kubernetes objects that are read,
    the state of a record, and \<open>extern\<close>, the third-party functions as a parameter.
  \<^item> ApplyConfigurations: \<open>applyconfiguration/\<close>, the setters an applied object is built with, and what is read
    back of it (optional fields that were never set are not there).
  \<^item> Sha256, Naming: the names of records, markers, display names and policy ids.
  \<^item> Failure, Outcome, Config: classified errors, how they are reported, the configuration, token claims.
  \<^item> AccountInUse, Effects, ServicePrincipals, SlotCalls: the slot, passes, every method of the Databricks clients,
    and the same methods on the slot.
  \<^item> Rfc3339, Destruction: Go's RFC 3339 dates with a calendar; claims on namespaces and who mints where.
  \<^item> IssuedController with IssuedSafety, IssuedReports, IssuedSystem: the record controller; one pass of it;
    what it reports; all passes of it on one record, interleaved with stale reads and crashes.
  \<^item> Progress, Convergence: a total-correctness logic for passes that are answered (\<open>ensures\<close>), and what a pass
    of the record controller gets done in a world that answers as documented.
  \<^item> Ending: in such a world, that an identity nobody wants any more comes to nothing.
  \<^item> IssuedEvidence, PrincipalAccount, IssuedLife: what a pass has evidence for when it writes; what is relied
    on of the Databricks account; a record's whole life beside its service principal.
  \<^item> PodToken, Profiles, ServiceAccountRequest: the two webhooks and the profile file.
  \<^item> ServiceAccountController with ServiceAccountSafety, PodCache: the ServiceAccount controller; what its
    cache keeps of a pod.
  \<^item> EndToEnd: the record controller, the ServiceAccount controller and the webhook put together, from the record of
    a request to a pod whose token Databricks takes.
  \<^item> ServerSideApply: what is relied on of server-side apply, for any fields, and operators as field owners.
  \<^item> SharedEntries: all passes of several operators on one DatabricksServiceAccount, where each has a board of
    its own.
  \<^item> AccountController with AccountSafety, ClaimSafety: the account controller, the slot and the claims.
  \<^item> ClaimRefresh, ClaimExclusion: that a claim is refreshed in time; all passes of several operators on one
    namespace under server-side apply, where the claims are a lock.
  \<^item> PassBounds: how many exchanges a pass of each controller can take.
  \<^item> Wakeups: what the three controllers are woken by, and a pass with its reads answered from a cache.
  \<^item> Startup: \<open>main\<close> from the parsed flags to the start of the manager, and the readiness gate.

  \<^bold>\<open>What the lemmas show.\<close> A pod of a ServiceAccount that asked, admitted after a pass that was answered, holds
  a token and a client id that Databricks grants an exchange on. A service principal is created at most once in a record's life, directly after
  the mark that says so was stored; there is never more than one service principal of a record, and none is
  left or can still come once the record is let go, whatever is interleaved, crashes or arrives late; answered
  as documented, a pass over a wanted record ends with a token exchangeable, unless its service principal is
  gone or cannot be found, when nothing is made in its place; an identity nobody wants any more is asked to go by
  one pass and gone after the next, its service principal deleted and its record let go, unless a create was sent and
  nothing carries its marker, when the record is held; either comes to its end from any point it has got to; records
  are deleted, identities destroyed and namespaces claimed only after the reads that say so; Ready is
  written only over a trust that was confirmed; the slot only ever holds verified clients of the
  declaration that was read; the claims of several operators on a namespace are a lock, whatever is
  interleaved, forced only when it is stale, and a holder that stopped refreshing loses it; operators that
  share a DatabricksServiceAccount each keep their own entries in it, none touching another's, as long as it
  is there; a pod the webhook equipped is one the controller finds equipped; a pod is never refused; names
  and ids fit the limits and are told apart as far as the hash does; dates and claims are read back as they
  were written; every pass ends; a change that wakes no pass over a ServiceAccount is one such a pass would
  not see; and nothing is started before everything is set up for one account.

  \<^bold>\<open>Parameters and assumptions.\<close> The record \<open>extern\<close> holds the functions of \<open>strconv\<close>, \<open>encoding/json\<close>,
  apimachinery and controller-runtime that the code calls (quoting, decoding, name validation, condition
  and finalizer lists). A property that relies on one of them says so as a hypothesis, which is a locale:
  \<open>finalizer_lists\<close> (adding and removing a finalizer is what it says), \<open>status_conditions\<close> (a condition set
  is found), \<open>dns_names\<close> (the name validators accept RFC 1123 names), \<open>record_store\<close> (an update of a stale
  version is refused), \<open>record_store_kept\<close> (the spec is immutable and nobody else takes the finalizer off),
  \<open>principal_account\<close> (what creates, deletes and reads of service principals say of those there),
  \<open>server_side_apply\<close> (an apply is refused over somebody else's value, and otherwise sets and releases
  what it says), which \<open>claimed_fields\<close> (the keys of a claim) and \<open>entries_object\<close> (the entries of a
  DatabricksServiceAccount, which may be deleted) extend, \<open>event_handlers\<close> (a mapping is asked
  of the objects of a change), \<open>healthy_world\<close> (everything is answered as documented), which \<open>closing_world\<close> (a record is marked for
  deletion) extends, and \<open>policy_account\<close> (an account keeps the policies it is given, and an update changes the fields its mask names). Each is interpreted on a concrete instance,
  \<open>ref_extern\<close> and the stores and accounts beside it, which the witnesses use. SHA-256, base32, base64, RFC 3339 and
  \<open>path.Join\<close> are Go's standard library and written out.

  \<^bold>\<open>Bounds.\<close> No definition needs fuel: recursion is over lists, strings and the finite tree of a pass, and a
  calendar year is found by recursion with a measure. Identity names have at most 45 characters, record
  names 253, markers 36, policy ids what Databricks states. A duration and \<open>time.Since\<close> saturate at 64
  bits; a policy's numeric id is parsed as a signed 64-bit integer with Go's range errors.

  \<^bold>\<open>Not modelled.\<close> Logs; what controller-runtime does when it is asked for a watch, a webhook or a server (the
  mappings, the predicate, the options and the order of these calls are modelled); the parsing of the command
  line, which is the flag package's and zap's; the mutex of the slot, whose operations
  are single steps here; decoding and encoding of admission objects, which are arguments; the
  apply configurations of the resources nothing is applied to, and the deep copies; the helpers of the
  end-to-end tests.
\<close>

end
